(* ===== verification/Prelude.thy ===== *)
theory Prelude
  imports Complex_Main "HOL-Library.Word" "HOL-Library.AList" "HOL-Library.Multiset"
begin

text \<open>
  Shared vocabulary of the development: the names of the machine types, the collections of
  simplification rules that the component theories fill, generic facts on lists and on
  insertion-ordered association lists (a JavaScript \<open>Map\<close> keeps its insertion order, and
  \<open>AList.update\<close> and \<open>AList.delete\<close> behave exactly as \<open>Map.set\<close> and \<open>Map.delete\<close>),
  and the locale of transition systems that every state machine below interprets.
\<close>

section \<open>Names of types\<close>

type_synonym byte = "8 word"
type_synonym code_unit = "16 word"

text \<open>A JavaScript string is a sequence of UTF-16 code units, well formed or not.\<close>

type_synonym jsstr = "code_unit list"

text \<open>Milliseconds since the epoch, as \<open>Date.now()\<close> and \<open>getTime()\<close> return them.\<close>

type_synonym millis = int

text \<open>An insertion-ordered \<open>Map\<close>.\<close>

type_synonym ('k, 'v) jsmap = "('k \<times> 'v) list"

text \<open>What the interpreter throws where the code does not check first.\<close>

datatype js_error = TypeError

section \<open>Rule collections\<close>

named_theorems frame_simps "which fields an operation leaves alone"
named_theorems inv_intros "operations that keep an invariant"
named_theorems eval_simps "equations used to evaluate a model on concrete input"

section \<open>Numbers\<close>

text \<open>
  Doubles are idealised as rationals; the values that are not numbers are kept apart where
  the code can meet them. \<open>Math.round\<close> rounds halves up.
\<close>

definition js_round :: "rat \<Rightarrow> int" where
  "js_round x = \<lfloor>x + 1 / 2\<rfloor>"

text \<open>\<open>Math.round(value * 10 ** places) / 10 ** places\<close>.\<close>

definition round_to :: "rat \<Rightarrow> nat \<Rightarrow> rat" where
  "round_to x places = of_int (js_round (x * 10 ^ places)) / 10 ^ places"

lemma js_round_error: "\<bar>of_int (js_round x) - x\<bar> \<le> 1 / 2"
  unfolding js_round_def by linarith

lemma round_to_error: "\<bar>round_to x places - x\<bar> \<le> 1 / (2 * 10 ^ places)"
proof -
  define f :: rat where "f = 10 ^ places"
  have f: "0 < f" by (simp add: f_def)
  then have "round_to x places - x = (of_int (js_round (x * f)) - x * f) / f"
    by (simp add: round_to_def f_def[symmetric] field_simps)
  then have "\<bar>round_to x places - x\<bar> = \<bar>of_int (js_round (x * f)) - x * f\<bar> / f"
    using f by simp
  also have "\<dots> \<le> (1 / 2) / f"
    using f js_round_error by (intro divide_right_mono) auto
  finally show ?thesis by (simp add: f_def)
qed

lemma js_round_mono: "x \<le> y \<Longrightarrow> js_round x \<le> js_round y"
  unfolding js_round_def by (intro floor_mono) simp

section \<open>Lists\<close>

lemma filter_mset_unique:
  "distinct xs \<Longrightarrow> x \<in> set xs \<Longrightarrow> length (filter (\<lambda>y. y = x) xs) = 1"
  by (induction xs) (auto simp: filter_empty_conv)

lemma take_append_drop_mset: "mset (take n xs) + mset (drop n xs) = mset xs"
  by (metis append_take_drop_id mset_append)

lemma set_drop_distinct:
  "distinct xs \<Longrightarrow> set (drop n xs) = set xs - set (take n xs)"
  by (metis Diff_cancel Un_Diff Diff_triv Int_commute Un_empty_left append_take_drop_id
      distinct_append set_append)

lemma concat_map_append [simp]: "concat (map f (xs @ ys)) = concat (map f xs) @ concat (map f ys)"
  by simp

text \<open>\<open>Array.prototype.join\<close>.\<close>

fun join :: "'a list \<Rightarrow> 'a list list \<Rightarrow> 'a list" where
  "join sep [] = []"
| "join sep [x] = x"
| "join sep (x # y # zs) = x @ sep @ join sep (y # zs)"

lemma join_Cons: "join sep (x # xs) = x @ concat (map (\<lambda>y. sep @ y) xs)"
  by (induction xs arbitrary: x) auto

lemma join_append:
  "xs \<noteq> [] \<Longrightarrow> join sep (xs @ ys) = join sep xs @ concat (map (\<lambda>y. sep @ y) ys)"
  by (cases xs) (auto simp: join_Cons)

section \<open>Insertion-ordered maps\<close>

lemma keys_update:
  "map fst (AList.update k v m) = (if k \<in> fst ` set m then map fst m else map fst m @ [k])"
  by (induction m) auto

lemma map_of_update [simp]: "map_of (AList.update k v m) = (map_of m)(k \<mapsto> v)"
  by (simp add: AList.update_conv')

lemma map_of_delete [simp]: "map_of (AList.delete k m) = (map_of m)(k := None)"
  by (simp add: AList.delete_conv')

lemma values_update_fresh:
  "k \<notin> fst ` set m \<Longrightarrow> AList.update k v m = m @ [(k, v)]"
  by (induction m) auto

lemma set_update_subset: "set (AList.update k v m) \<subseteq> insert (k, v) (set m)"
  by (induction m) auto

lemma set_delete: "set (AList.delete k m) = {p \<in> set m. fst p \<noteq> k}"
  by (auto simp: AList.delete_eq)

section \<open>Transition systems\<close>

text \<open>
  The states that a machine reaches: the least set that holds the initial states and is
  closed under steps. Every asynchronous component is such a machine, one step per callback
  or promise continuation, so that an interleaving is a sequence of steps.
\<close>

inductive reachable :: "('s \<Rightarrow> bool) \<Rightarrow> ('s \<Rightarrow> 's \<Rightarrow> bool) \<Rightarrow> 's \<Rightarrow> bool"
  for init :: "'s \<Rightarrow> bool" and step :: "'s \<Rightarrow> 's \<Rightarrow> bool"
where
  reach_init: "init s \<Longrightarrow> reachable init step s"
| reach_step: "reachable init step s \<Longrightarrow> step s t \<Longrightarrow> reachable init step t"

lemma reachable_rtranclp:
  "step\<^sup>*\<^sup>* s t \<Longrightarrow> reachable init step s \<Longrightarrow> reachable init step t"
  by (induction rule: rtranclp_induct) (auto intro: reach_step)

text \<open>The contract of an inductive invariant, and what it gives.\<close>

locale machine_invariant =
  fixes init :: "'s \<Rightarrow> bool"
    and step :: "'s \<Rightarrow> 's \<Rightarrow> bool"
    and inv :: "'s \<Rightarrow> bool"
  assumes inv_init: "init s \<Longrightarrow> inv s"
    and inv_step: "inv s \<Longrightarrow> step s t \<Longrightarrow> inv t"
begin

lemma reachable_inv: "reachable init step s \<Longrightarrow> inv s"
  by (induction rule: reachable.induct) (auto intro: inv_init inv_step)

lemma steps_inv: "step\<^sup>*\<^sup>* s t \<Longrightarrow> inv s \<Longrightarrow> inv t"
  by (induction rule: rtranclp_induct) (auto intro: inv_step)

end

text \<open>Running a list of events of a deterministic machine.\<close>

fun run_events :: "('s \<Rightarrow> 'e \<Rightarrow> 's) \<Rightarrow> 's \<Rightarrow> 'e list \<Rightarrow> 's" where
  "run_events f s [] = s"
| "run_events f s (e # es) = run_events f (f s e) es"

lemma run_events_append: "run_events f s (xs @ ys) = run_events f (run_events f s xs) ys"
  by (induction xs arbitrary: s) auto

locale event_invariant =
  fixes apply_event :: "'s \<Rightarrow> 'e \<Rightarrow> 's"
    and ok :: "'e \<Rightarrow> bool"
    and inv :: "'s \<Rightarrow> bool"
  assumes inv_event: "inv s \<Longrightarrow> ok e \<Longrightarrow> inv (apply_event s e)"
begin

lemma inv_run: "inv s \<Longrightarrow> list_all ok es \<Longrightarrow> inv (run_events apply_event s es)"
  by (induction es arbitrary: s) (auto intro: inv_event)

end

end
