(* ===== verification/Js_Strings.thy ===== *)
theory Js_Strings
  imports Prelude "HOL-Library.Sublist"
begin

text \<open>
  The part of the JavaScript string library that the program uses, on UTF-16 code units:
  \<open>trim\<close>, \<open>slice\<close>, \<open>includes\<close>, \<open>lastIndexOf\<close>, \<open>toLowerCase\<close> on ASCII,
  \<open>Number.parseInt\<close> and the printing of integers, \<open>Buffer.from(s, 'utf8')\<close> and
  \<open>buffer.toString('utf8')\<close> with their replacement of ill-formed input, and the string
  escaping of \<open>JSON.stringify\<close>. Each comes with the law the components rest on.
\<close>

definition js :: "string \<Rightarrow> jsstr" where
  "js s = map of_char s"

lemma js_append [simp]: "js (s @ t) = js s @ js t"
  by (simp add: js_def)

lemma js_Nil [simp]: "js [] = []"
  by (simp add: js_def)

lemma js_Cons [simp, eval_simps]: "js (c # s) = of_char c # js s"
  by (simp add: js_def)

lemma length_js [simp]: "length (js s) = length s"
  by (simp add: js_def)

section \<open>White space, case, search\<close>

definition is_js_space :: "code_unit \<Rightarrow> bool" where
  "is_js_space c \<longleftrightarrow>
     (9 \<le> c \<and> c \<le> 13) \<or> c = 0x20 \<or> c = 0xA0 \<or> c = 0x1680 \<or> (0x2000 \<le> c \<and> c \<le> 0x200A)
     \<or> c = 0x2028 \<or> c = 0x2029 \<or> c = 0x202F \<or> c = 0x205F \<or> c = 0x3000 \<or> c = 0xFEFF"

definition js_trim :: "jsstr \<Rightarrow> jsstr" where
  "js_trim s = rev (dropWhile is_js_space (rev (dropWhile is_js_space s)))"

lemma dropWhile_hd: "dropWhile P xs = [] \<or> \<not> P (hd (dropWhile P xs))"
  using hd_dropWhile by blast

lemma dropWhile_id: "xs = [] \<or> \<not> P (hd xs) \<Longrightarrow> dropWhile P xs = xs"
  by (cases xs) auto

lemma js_trim_last: "js_trim s \<noteq> [] \<Longrightarrow> \<not> is_js_space (last (js_trim s))"
  unfolding js_trim_def last_rev rev_is_Nil_conv by (rule hd_dropWhile)

lemma rev_dropWhile_rev_prefix:
  "\<exists>ys. xs = rev (dropWhile P (rev xs)) @ ys"
  by (metis append_Nil2 rev_append rev_rev_ident takeWhile_dropWhile_id)

lemma js_trim_hd: "js_trim s \<noteq> [] \<Longrightarrow> \<not> is_js_space (hd (js_trim s))"
proof -
  assume ne: "js_trim s \<noteq> []"
  obtain ys where ys: "dropWhile is_js_space s = js_trim s @ ys"
    using rev_dropWhile_rev_prefix[of "dropWhile is_js_space s" is_js_space]
    by (auto simp: js_trim_def)
  with ne have "hd (dropWhile is_js_space s) = hd (js_trim s)"
    by simp
  moreover have "dropWhile is_js_space s \<noteq> []" using ys ne by simp
  ultimately show ?thesis
    using hd_dropWhile[of is_js_space s] by metis
qed

lemma js_trim_idem [simp]: "js_trim (js_trim s) = js_trim s"
proof (cases "js_trim s = []")
  case True
  moreover have "js_trim [] = []" by (simp add: js_trim_def)
  ultimately show ?thesis by simp
next
  case False
  define t where "t = js_trim s"
  have "dropWhile is_js_space t = t"
    using js_trim_hd[OF False] by (intro dropWhile_id) (simp add: t_def)
  moreover have "dropWhile is_js_space (rev t) = rev t"
    using js_trim_last[OF False] False by (intro dropWhile_id) (simp add: t_def hd_rev)
  ultimately have "js_trim t = t" by (simp add: js_trim_def)
  then show ?thesis by (simp add: t_def)
qed

lemma set_js_trim: "set (js_trim s) \<subseteq> set s"
  by (auto simp: js_trim_def dest!: set_dropWhileD)

text \<open>\<open>s.slice(0, n)\<close> for \<open>n\<close> not negative.\<close>

definition js_slice0 :: "nat \<Rightarrow> jsstr \<Rightarrow> jsstr" where
  "js_slice0 n s = take n s"

text \<open>\<open>toLowerCase\<close> on ASCII, which is all that a validated username holds.\<close>

definition lower_unit :: "code_unit \<Rightarrow> code_unit" where
  "lower_unit c = (if 65 \<le> c \<and> c \<le> 90 then c + 32 else c)"

definition to_lower :: "jsstr \<Rightarrow> jsstr" where
  "to_lower s = map lower_unit s"

lemma lower_unit_idem [simp]: "lower_unit (lower_unit c) = lower_unit c"
proof (cases "65 \<le> c \<and> c \<le> 90")
  case True
  then have "unat (c + 32) = unat c + 32"
    by (simp add: word_le_nat_alt unat_word_ariths)
  then have "\<not> c + 32 \<le> 90"
    using True by (simp add: word_le_nat_alt)
  with True show ?thesis by (simp add: lower_unit_def)
qed (simp add: lower_unit_def)

lemma to_lower_idem [simp]: "to_lower (to_lower s) = to_lower s"
  by (simp add: to_lower_def)

fun js_includes :: "'a list \<Rightarrow> 'a list \<Rightarrow> bool" where
  "js_includes pat [] = (pat = [])"
| "js_includes pat (x # xs) = (prefix pat (x # xs) \<or> js_includes pat xs)"

lemma js_includes_iff: "js_includes pat s \<longleftrightarrow> (\<exists>a b. s = a @ pat @ b)"
proof
  show "js_includes pat s \<Longrightarrow> \<exists>a b. s = a @ pat @ b"
  proof (induction s)
    case (Cons x xs)
    then show ?case
      by (metis append_Cons append_Nil js_includes.simps(2) prefix_def)
  qed simp
next
  assume "\<exists>a b. s = a @ pat @ b"
  then obtain a b where "s = a @ pat @ b" by blast
  then show "js_includes pat s"
  proof (induction a arbitrary: s)
    case Nil
    then have "prefix pat s" by simp
    then show ?case by (cases s) auto
  qed auto
qed

fun last_index_of :: "'a list \<Rightarrow> 'a list \<Rightarrow> nat option" where
  "last_index_of pat [] = (if pat = [] then Some 0 else None)"
| "last_index_of pat (x # xs) =
     (case last_index_of pat xs of
        Some i \<Rightarrow> Some (Suc i)
      | None \<Rightarrow> if prefix pat (x # xs) then Some 0 else None)"

lemma last_index_of_None: "last_index_of pat s = None \<longleftrightarrow> \<not> js_includes pat s"
  by (induction s) (auto split: option.splits)

lemma last_index_of_last:
  assumes "pat \<noteq> []" and "\<not> js_includes pat (tl pat @ r)"
  shows "last_index_of pat (a @ pat @ r) = Some (length a)"
proof (induction a)
  case Nil
  obtain p ps where "pat = p # ps" using assms(1) by (cases pat) auto
  with assms show ?case by (auto simp: last_index_of_None[THEN iffD2] split: option.splits)
qed auto

section \<open>Integers and strings\<close>

fun dec_digits :: "nat \<Rightarrow> jsstr" where
  "dec_digits n = (if n < 10 then [of_nat (48 + n)] else dec_digits (n div 10) @ [of_nat (48 + n mod 10)])"

declare dec_digits.simps [simp del]

text \<open>The decimal form of an integral number (exact below \<open>10^21\<close>, where JavaScript starts
  to print exponents).\<close>

definition num_str :: "int \<Rightarrow> jsstr" where
  "num_str i = (if i < 0 then 45 # dec_digits (nat (- i)) else dec_digits (nat i))"

definition is_digit :: "code_unit \<Rightarrow> bool" where
  "is_digit c \<longleftrightarrow> 48 \<le> c \<and> c \<le> 57"

definition digits_val :: "jsstr \<Rightarrow> nat" where
  "digits_val ds = foldl (\<lambda>v d. v * 10 + (unat d - 48)) 0 ds"

text \<open>\<open>Number.parseInt(s, 10)\<close>: leading white space, an optional sign, the longest run of
  digits; \<open>None\<close> is \<open>NaN\<close>.\<close>

definition parse_int :: "jsstr \<Rightarrow> int option" where
  "parse_int s0 =
     (let s = dropWhile is_js_space s0;
          (neg, t) = (case s of [] \<Rightarrow> (False, s)
                       | c # r \<Rightarrow> if c = 45 then (True, r) else if c = 43 then (False, r) else (False, s));
          ds = takeWhile is_digit t
      in if ds = [] then None
         else Some (if neg then - int (digits_val ds) else int (digits_val ds)))"

lemma unat_digit [simp]: "d < 10 \<Longrightarrow> unat (of_nat (48 + d) :: code_unit) = 48 + d"
  unfolding unsigned_of_nat by (simp add: take_bit_nat_eq_self)

lemma is_digit_of_nat: "d < 10 \<Longrightarrow> is_digit (of_nat (48 + d))"
  unfolding is_digit_def word_le_nat_alt by (simp only: unat_digit) simp

lemma dec_digits_all: "list_all is_digit (dec_digits n)"
proof (induction n rule: dec_digits.induct)
  case (1 n)
  then show ?case
    by (subst dec_digits.simps) (auto simp del: of_nat_add of_nat_Suc intro: is_digit_of_nat)
qed

lemma dec_digits_nonempty [simp]: "dec_digits n \<noteq> []"
  by (subst dec_digits.simps) simp

lemma digits_val_snoc: "digits_val (ds @ [d]) = digits_val ds * 10 + (unat d - 48)"
  by (simp add: digits_val_def)

lemma digits_val_dec [simp]: "digits_val (dec_digits n) = n"
proof (induction n rule: dec_digits.induct)
  case (1 n)
  show ?case
  proof (cases "n < 10")
    case True
    then show ?thesis
      by (subst dec_digits.simps) (simp add: digits_val_def del: of_nat_add)
  next
    case False
    with "1.IH" have "digits_val (dec_digits (n div 10)) = n div 10" by simp
    with False show ?thesis
      by (subst dec_digits.simps) (simp add: digits_val_snoc del: of_nat_add)
  qed
qed

lemma digit_not_space: "is_digit c \<Longrightarrow> \<not> is_js_space c"
  by (auto simp: is_digit_def is_js_space_def word_le_nat_alt word_unat_eq_iff)

lemma takeWhile_all_append:
  "list_all P xs \<Longrightarrow> r = [] \<or> \<not> P (hd r) \<Longrightarrow> takeWhile P (xs @ r) = xs"
  by (induction xs) (cases r; auto)+

lemma parse_int_num_str:
  assumes "r = [] \<or> \<not> is_digit (hd r)"
  shows "parse_int (num_str i @ r) = Some i"
proof (cases "i < 0")
  case True
  have "\<not> is_js_space 45" by (simp add: is_js_space_def)
  then show ?thesis
    using True takeWhile_all_append[OF dec_digits_all assms, of "nat (- i)"]
    by (simp add: parse_int_def num_str_def)
next
  case False
  obtain c cs where c: "dec_digits (nat i) = c # cs"
    by (cases "dec_digits (nat i)") auto
  then have d: "is_digit c" using dec_digits_all[of "nat i"] by simp
  then have "c \<noteq> 45" "c \<noteq> 43" by (auto simp: is_digit_def)
  moreover have "takeWhile is_digit ((c # cs) @ r) = c # cs"
    using takeWhile_all_append[OF dec_digits_all assms, of "nat i"] c by simp
  ultimately show ?thesis
    using False c d digit_not_space[OF d] digits_val_dec[of "nat i"]
    by (simp add: parse_int_def num_str_def)
qed

lemma num_str_inject: "num_str i = num_str j \<Longrightarrow> i = j"
  using parse_int_num_str[of "[]" i] parse_int_num_str[of "[]" j] by simp

lemma num_str_units: "c \<in> set (num_str i) \<Longrightarrow> c = 45 \<or> is_digit c"
  using dec_digits_all by (auto simp: num_str_def list_all_iff split: if_splits)

end
