(* ===== verification/Utf8.thy ===== *)
theory Utf8
  imports Js_Strings
begin

text \<open>
  \<open>Buffer.from(s, 'utf8')\<close> and \<open>buffer.toString('utf8')\<close>. The encoder reads surrogate
  pairs as one code point and writes the replacement character for a lone surrogate; the
  decoder is the WHATWG one, which replaces each maximal ill-formed part. The laws: encoding
  distributes over concatenation unless it would cut a pair in two, and decoding what was
  encoded gives the string back with its lone surrogates replaced.
\<close>

section \<open>Code points of a string\<close>

definition is_high :: "code_unit \<Rightarrow> bool" where
  "is_high c \<longleftrightarrow> 0xD800 \<le> unat c \<and> unat c < 0xDC00"

definition is_low :: "code_unit \<Rightarrow> bool" where
  "is_low c \<longleftrightarrow> 0xDC00 \<le> unat c \<and> unat c < 0xE000"

definition single_point :: "code_unit \<Rightarrow> nat" where
  "single_point c = (if is_high c \<or> is_low c then 0xFFFD else unat c)"

definition pair_point :: "code_unit \<Rightarrow> code_unit \<Rightarrow> nat" where
  "pair_point c d = 0x10000 + (unat c - 0xD800) * 0x400 + (unat d - 0xDC00)"

fun code_points :: "jsstr \<Rightarrow> nat list" where
  "code_points [] = []"
| "code_points [c] = [single_point c]"
| "code_points (c # d # cs) =
     (if is_high c \<and> is_low d then pair_point c d # code_points cs
      else single_point c # code_points (d # cs))"

fun well_formed :: "jsstr \<Rightarrow> bool" where
  "well_formed [] = True"
| "well_formed [c] = (\<not> is_high c \<and> \<not> is_low c)"
| "well_formed (c # d # cs) =
     (if is_high c \<and> is_low d then well_formed cs
      else \<not> is_high c \<and> \<not> is_low c \<and> well_formed (d # cs))"

definition scalar :: "nat \<Rightarrow> bool" where
  "scalar n \<longleftrightarrow> n < 0xD800 \<or> (0xE000 \<le> n \<and> n < 0x110000)"

lemma high_not_low: "is_high c \<Longrightarrow> \<not> is_low c"
  by (simp add: is_high_def is_low_def)

lemma unat_unit_less: "unat (c :: code_unit) < 0x10000"
  using unsigned_less[of c] by simp

lemma scalar_single: "scalar (single_point c)"
  using unat_unit_less[of c] by (auto simp: single_point_def scalar_def is_high_def is_low_def)

lemma pair_point_bounds:
  "is_high c \<Longrightarrow> is_low d \<Longrightarrow> 0x10000 \<le> pair_point c d \<and> pair_point c d < 0x110000"
  by (auto simp: pair_point_def is_high_def is_low_def)

lemma scalar_code_points: "n \<in> set (code_points s) \<Longrightarrow> scalar n"
proof (induction s rule: code_points.induct)
  case (3 c d cs)
  then show ?case
    using pair_point_bounds[of c d] scalar_single[of c]
    by (auto simp: scalar_def split: if_splits)
qed (auto simp: scalar_single)

lemma code_points_append:
  "\<not> (a \<noteq> [] \<and> b \<noteq> [] \<and> is_high (last a) \<and> is_low (hd b)) \<Longrightarrow>
   code_points (a @ b) = code_points a @ code_points b"
proof (induction a rule: code_points.induct)
  case (2 c)
  then show ?case by (cases b) auto
next
  case (3 c d cs)
  show ?case
  proof (cases "is_high c \<and> is_low d")
    case True
    have "code_points (cs @ b) = code_points cs @ code_points b"
      using "3.IH"(1)[OF True] "3.prems" high_not_low True by (auto split: if_splits)
    with True show ?thesis by simp
  next
    case False
    with "3.IH"(2)[OF False] "3.prems" show ?thesis by auto
  qed
qed simp

section \<open>Encoding\<close>

definition utf8_point :: "nat \<Rightarrow> nat list" where
  "utf8_point n =
     (if n < 0x80 then [n]
      else if n < 0x800 then [0xC0 + n div 64, 0x80 + n mod 64]
      else if n < 0x10000 then [0xE0 + n div 4096, 0x80 + n div 64 mod 64, 0x80 + n mod 64]
      else [0xF0 + n div 262144, 0x80 + n div 4096 mod 64, 0x80 + n div 64 mod 64, 0x80 + n mod 64])"

definition utf8_nats :: "jsstr \<Rightarrow> nat list" where
  "utf8_nats s = concat (map utf8_point (code_points s))"

definition utf8 :: "jsstr \<Rightarrow> byte list" where
  "utf8 s = map of_nat (utf8_nats s)"

lemma utf8_Nil [simp]: "utf8 [] = []"
  by (simp add: utf8_def utf8_nats_def)

lemma utf8_append:
  "\<not> (a \<noteq> [] \<and> b \<noteq> [] \<and> is_high (last a) \<and> is_low (hd b)) \<Longrightarrow> utf8 (a @ b) = utf8 a @ utf8 b"
  by (simp add: utf8_def utf8_nats_def code_points_append)

lemma utf8_append_hd: "b = [] \<or> \<not> is_low (hd b) \<Longrightarrow> utf8 (a @ b) = utf8 a @ utf8 b"
  by (rule utf8_append) auto

lemma utf8_append_last: "a = [] \<or> \<not> is_high (last a) \<Longrightarrow> utf8 (a @ b) = utf8 a @ utf8 b"
  by (rule utf8_append) auto

lemma utf8_point_byte: "scalar n \<Longrightarrow> b \<in> set (utf8_point n) \<Longrightarrow> b < 256"
  by (auto simp: utf8_point_def scalar_def less_mult_imp_div_less split: if_splits)

lemma unat_utf8: "map unat (utf8 s) = utf8_nats s"
proof -
  have "unat (of_nat b :: byte) = b" if "b \<in> set (utf8_nats s)" for b
  proof -
    from that have "b < 256"
      by (auto simp: utf8_nats_def intro: utf8_point_byte scalar_code_points)
    then show ?thesis unfolding unsigned_of_nat by (simp add: take_bit_nat_eq_self)
  qed
  then show ?thesis by (auto simp: utf8_def intro: map_idI)
qed

section \<open>Decoding\<close>

definition cont :: "nat \<Rightarrow> bool" where
  "cont b \<longleftrightarrow> 0x80 \<le> b \<and> b \<le> 0xBF"

text \<open>The code point that starts with byte \<open>b\<close>, and how many of the following bytes it takes.\<close>

definition utf8_next :: "nat \<Rightarrow> nat list \<Rightarrow> nat \<times> nat" where
  "utf8_next b bs =
     (let c1 = (if 0 < length bs then bs ! 0 else 0);
          c2 = (if 1 < length bs then bs ! 1 else 0);
          c3 = (if 2 < length bs then bs ! 2 else 0)
      in if b < 0x80 then (b, 0)
         else if 0xC2 \<le> b \<and> b \<le> 0xDF then
           (if cont c1 then ((b - 0xC0) * 64 + (c1 - 0x80), 1) else (0xFFFD, 0))
         else if 0xE0 \<le> b \<and> b \<le> 0xEF then
           (if (if b = 0xE0 then 0xA0 else 0x80) \<le> c1 \<and> c1 \<le> (if b = 0xED then 0x9F else 0xBF) then
              (if cont c2 then ((b - 0xE0) * 4096 + (c1 - 0x80) * 64 + (c2 - 0x80), 2) else (0xFFFD, 1))
            else (0xFFFD, 0))
         else if 0xF0 \<le> b \<and> b \<le> 0xF4 then
           (if (if b = 0xF0 then 0x90 else 0x80) \<le> c1 \<and> c1 \<le> (if b = 0xF4 then 0x8F else 0xBF) then
              (if cont c2 then
                 (if cont c3
                  then ((b - 0xF0) * 262144 + (c1 - 0x80) * 4096 + (c2 - 0x80) * 64 + (c3 - 0x80), 3)
                  else (0xFFFD, 2))
               else (0xFFFD, 1))
            else (0xFFFD, 0))
         else (0xFFFD, 0))"

function utf8_decode :: "nat list \<Rightarrow> nat list" where
  "utf8_decode [] = []"
| "utf8_decode (b # bs) = fst (utf8_next b bs) # utf8_decode (drop (snd (utf8_next b bs)) bs)"
  by pat_completeness auto
termination
  by (relation "measure length") auto

definition utf16_point :: "nat \<Rightarrow> jsstr" where
  "utf16_point n =
     (if n < 0x10000 then [of_nat n]
      else [of_nat (0xD800 + (n - 0x10000) div 0x400), of_nat (0xDC00 + (n - 0x10000) mod 0x400)])"

definition from_utf8 :: "byte list \<Rightarrow> jsstr" where
  "from_utf8 bs = concat (map utf16_point (utf8_decode (map unat bs)))"

definition to_well_formed :: "jsstr \<Rightarrow> jsstr" where
  "to_well_formed s = concat (map utf16_point (code_points s))"

lemma utf8_next_point:
  assumes "scalar n"
  shows "\<exists>b bs. utf8_point n = b # bs \<and> utf8_next b (bs @ rest) = (n, length bs)"
proof -
  consider "n < 0x80" | "0x80 \<le> n" "n < 0x800" | "0x800 \<le> n" "n < 0x10000" | "0x10000 \<le> n"
    by linarith
  then show ?thesis
  proof cases
    case 1
    then show ?thesis by (simp add: utf8_point_def utf8_next_def)
  next
    case 2
    then have "2 \<le> n div 64" "n div 64 < 32" by (auto simp: less_mult_imp_div_less)
    moreover have "n div 64 * 64 + n mod 64 = n" by simp
    moreover have "n mod 64 < 64" by simp
    ultimately show ?thesis
      using 2 by (auto simp: utf8_point_def utf8_next_def cont_def Let_def)
  next
    case 3
    define x y z where "x = n div 4096" and "y = n div 64 mod 64" and "z = n mod 64"
    have "n div 4096 = n div 64 div 64" by (simp add: div_mult2_eq[symmetric])
    then have n: "n = x * 4096 + y * 64 + z"
      using div_mult_mod_eq[of n 64] div_mult_mod_eq[of "n div 64" 64]
      unfolding x_def y_def z_def by linarith
    have b: "x < 16" "y < 64" "z < 64"
      using 3 by (auto simp: x_def y_def z_def less_mult_imp_div_less)
    have s: "n < 0xD800 \<or> 0xE000 \<le> n" using assms by (auto simp: scalar_def)
    have x0: "x = 0 \<Longrightarrow> 32 \<le> y" using 3 n b by linarith
    have xD: "x = 13 \<Longrightarrow> y < 32" using s n b by linarith
    have "utf8_point n = [0xE0 + x, 0x80 + y, 0x80 + z]"
      using 3 by (simp add: utf8_point_def x_def y_def z_def)
    then show ?thesis
      using b x0 xD n[symmetric] by (auto simp: utf8_next_def cont_def Let_def)
  next
    case 4
    define w x y z where "w = n div 262144" and "x = n div 4096 mod 64" and "y = n div 64 mod 64"
      and "z = n mod 64"
    have "n div 4096 = n div 64 div 64" "n div 262144 = n div 4096 div 64"
      by (simp_all add: div_mult2_eq[symmetric])
    then have n: "n = w * 262144 + x * 4096 + y * 64 + z"
      using div_mult_mod_eq[of n 64] div_mult_mod_eq[of "n div 64" 64] div_mult_mod_eq[of "n div 4096" 64]
      unfolding w_def x_def y_def z_def by linarith
    have b: "w < 5" "x < 64" "y < 64" "z < 64"
      using assms 4 by (auto simp: w_def x_def y_def z_def scalar_def less_mult_imp_div_less)
    have w0: "w = 0 \<Longrightarrow> 16 \<le> x" using 4 n b by linarith
    have w4: "w = 4 \<Longrightarrow> x < 16" using assms 4 n b unfolding scalar_def by linarith
    have "utf8_point n = [0xF0 + w, 0x80 + x, 0x80 + y, 0x80 + z]"
      using 4 by (simp add: utf8_point_def w_def x_def y_def z_def)
    then show ?thesis
      using b w0 w4 n[symmetric] by (auto simp: utf8_next_def cont_def Let_def)
  qed
qed

lemma utf8_decode_point:
  assumes "scalar n"
  shows "utf8_decode (utf8_point n @ rest) = n # utf8_decode rest"
proof -
  obtain b bs where "utf8_point n = b # bs" "utf8_next b (bs @ rest) = (n, length bs)"
    using utf8_next_point[OF assms] by blast
  then show ?thesis by simp
qed

lemma utf8_decode_points:
  "\<forall>n \<in> set ns. scalar n \<Longrightarrow> utf8_decode (concat (map utf8_point ns)) = ns"
  by (induction ns) (auto simp: utf8_decode_point)

lemma utf8_decode_nats: "utf8_decode (utf8_nats s) = code_points s"
  by (simp add: utf8_nats_def utf8_decode_points scalar_code_points)

lemma from_utf8_utf8: "from_utf8 (utf8 s) = to_well_formed s"
  by (simp add: from_utf8_def unat_utf8 utf8_decode_nats to_well_formed_def)

lemma utf16_pair: "is_high c \<Longrightarrow> is_low d \<Longrightarrow> utf16_point (pair_point c d) = [c, d]"
proof -
  assume h: "is_high c" and l: "is_low d"
  have m: "pair_point c d - 0x10000 = (unat c - 0xD800) * 0x400 + (unat d - 0xDC00)"
    by (simp add: pair_point_def)
  have "unat d - 0xDC00 < 0x400" using l by (auto simp: is_low_def)
  then have "((unat c - 0xD800) * 0x400 + (unat d - 0xDC00)) div 0x400 = unat c - 0xD800"
    and "((unat c - 0xD800) * 0x400 + (unat d - 0xDC00)) mod 0x400 = unat d - 0xDC00"
    by (simp_all)
  moreover have "0xD800 + (unat c - 0xD800) = unat c" "0xDC00 + (unat d - 0xDC00) = unat d"
    using h l by (auto simp: is_high_def is_low_def)
  ultimately show ?thesis
    using pair_point_bounds[OF h l] unfolding utf16_point_def m by (simp add: of_nat_unat del: of_nat_add)
qed

lemma utf16_single: "\<not> is_high c \<Longrightarrow> \<not> is_low c \<Longrightarrow> utf16_point (single_point c) = [c]"
  using unat_unit_less[of c] by (simp add: utf16_point_def single_point_def of_nat_unat)

lemma to_well_formed_id: "well_formed s \<Longrightarrow> to_well_formed s = s"
  by (induction s rule: well_formed.induct)
     (auto simp: to_well_formed_def utf16_pair utf16_single split: if_splits)

lemma from_utf8_utf8_id: "well_formed s \<Longrightarrow> from_utf8 (utf8 s) = s"
  by (simp add: from_utf8_utf8 to_well_formed_id)

lemma utf8_inject: "well_formed s \<Longrightarrow> well_formed t \<Longrightarrow> utf8 s = utf8 t \<Longrightarrow> s = t"
  by (metis from_utf8_utf8_id)

text \<open>A literal of the source is Latin-1, and so has no surrogates.\<close>

lemma js_unit: "\<not> is_high (of_char c) \<and> \<not> is_low (of_char c)"
proof -
  have "(of_char c :: nat) < 256" by (metis of_char_mod_256 mod_less_divisor zero_less_numeral)
  moreover have "unat (of_nat n :: code_unit) < 256" if "n < 256" for n
    unfolding unsigned_of_nat using that by (simp add: take_bit_nat_eq_self)
  ultimately have "unat (of_nat (of_char c) :: code_unit) < 256" by blast
  then have "unat (of_char c :: code_unit) < 256" by (simp only: of_nat_of_char)
  then show ?thesis by (simp add: is_high_def is_low_def)
qed

lemma well_formed_js: "well_formed (js s)"
proof (induction s)
  case (Cons c s)
  then show ?case using js_unit[of c] by (cases "js s") auto
qed simp

end
