(* ===== verification/Json.thy ===== *)
theory Json
  imports Utf8
begin

text \<open>
  JSON text as \<open>JSON.stringify\<close> writes it: the quoting of strings (control characters,
  quotes and backslashes escaped, lone surrogates written as escapes) and, as the
  specification the feed is checked against, a reader of quoted strings. The round trip
  \<open>json_body_quote\<close> is what makes the feed of \<open>FeedStore\<close> parse back to its messages.
\<close>

section \<open>Quoting\<close>

definition hex_digit :: "nat \<Rightarrow> code_unit" where
  "hex_digit d = (if d < 10 then of_nat (48 + d) else of_nat (87 + d))"

definition hex4 :: "code_unit \<Rightarrow> jsstr" where
  "hex4 c = [hex_digit (unat c div 4096), hex_digit (unat c div 256 mod 16),
             hex_digit (unat c div 16 mod 16), hex_digit (unat c mod 16)]"

definition esc_unit :: "code_unit \<Rightarrow> jsstr" where
  "esc_unit c =
     (if c = 0x22 then [0x5C, 0x22]
      else if c = 0x5C then [0x5C, 0x5C]
      else if c = 8 then [0x5C, 0x62]
      else if c = 9 then [0x5C, 0x74]
      else if c = 10 then [0x5C, 0x6E]
      else if c = 12 then [0x5C, 0x66]
      else if c = 13 then [0x5C, 0x72]
      else if c < 0x20 \<or> is_high c \<or> is_low c then 0x5C # 0x75 # hex4 c
      else [c])"

fun json_esc :: "jsstr \<Rightarrow> jsstr" where
  "json_esc [] = []"
| "json_esc [c] = esc_unit c"
| "json_esc (c # d # cs) =
     (if is_high c \<and> is_low d then c # d # json_esc cs else esc_unit c @ json_esc (d # cs))"

definition json_quote :: "jsstr \<Rightarrow> jsstr" where
  "json_quote s = 0x22 # json_esc s @ [0x22]"

section \<open>Reading\<close>

definition hex_val :: "code_unit \<Rightarrow> nat option" where
  "hex_val c =
     (if 48 \<le> unat c \<and> unat c < 58 then Some (unat c - 48)
      else if 97 \<le> unat c \<and> unat c < 103 then Some (unat c - 87)
      else if 65 \<le> unat c \<and> unat c < 71 then Some (unat c - 55)
      else None)"

definition hex4_val :: "code_unit \<Rightarrow> code_unit \<Rightarrow> code_unit \<Rightarrow> code_unit \<Rightarrow> code_unit option" where
  "hex4_val a b c d =
     (case (hex_val a, hex_val b, hex_val c, hex_val d) of
        (Some w, Some x, Some y, Some z) \<Rightarrow> Some (of_nat (w * 4096 + x * 256 + y * 16 + z))
      | _ \<Rightarrow> None)"

definition unesc :: "code_unit \<Rightarrow> code_unit option" where
  "unesc e =
     (if e = 0x22 then Some 0x22 else if e = 0x5C then Some 0x5C else if e = 0x2F then Some 0x2F
      else if e = 0x62 then Some 8 else if e = 0x74 then Some 9 else if e = 0x6E then Some 10
      else if e = 0x66 then Some 12 else if e = 0x72 then Some 13 else None)"

text \<open>What follows an opening quote: the string up to the closing quote, and the rest.\<close>

fun json_body :: "jsstr \<Rightarrow> (jsstr \<times> jsstr) option" where
  "json_body [] = None"
| "json_body (c # r) =
     (if c = 0x22 then Some ([], r)
      else if c = 0x5C then
        (case r of
           [] \<Rightarrow> None
         | e # r1 \<Rightarrow>
             if e = 0x75 then
               (case r1 of
                  h1 # h2 # h3 # h4 # r2 \<Rightarrow>
                    (case hex4_val h1 h2 h3 h4 of
                       None \<Rightarrow> None
                     | Some v \<Rightarrow> map_option (apfst ((#) v)) (json_body r2))
                | _ \<Rightarrow> None)
             else
               (case unesc e of
                  None \<Rightarrow> None
                | Some v \<Rightarrow> map_option (apfst ((#) v)) (json_body r1)))
      else if c < 0x20 then None
      else map_option (apfst ((#) c)) (json_body r))"

definition json_string :: "jsstr \<Rightarrow> (jsstr \<times> jsstr) option" where
  "json_string s = (case s of [] \<Rightarrow> None | c # r \<Rightarrow> if c = 0x22 then json_body r else None)"

lemma hex_val_digit: "d < 16 \<Longrightarrow> hex_val (hex_digit d) = Some d"
proof -
  assume d: "d < 16"
  have "unat (of_nat (48 + d) :: code_unit) = 48 + d" and "unat (of_nat (87 + d) :: code_unit) = 87 + d"
    unfolding unsigned_of_nat using d by (simp_all add: take_bit_nat_eq_self)
  with d show ?thesis by (simp add: hex_val_def hex_digit_def del: of_nat_add)
qed

lemma hex4_val_hex4:
  "hex4_val (hex_digit (unat c div 4096)) (hex_digit (unat c div 256 mod 16))
     (hex_digit (unat c div 16 mod 16)) (hex_digit (unat c mod 16)) = Some c"
proof -
  have "unat c div 4096 < 16" using unat_unit_less[of c] by (simp add: less_mult_imp_div_less)
  moreover have "unat c div 256 = unat c div 16 div 16" "unat c div 4096 = unat c div 256 div 16"
    by (simp_all add: div_mult2_eq[symmetric])
  then have "unat c div 4096 * 4096 + unat c div 256 mod 16 * 256 + unat c div 16 mod 16 * 16
      + unat c mod 16 = unat c"
    using div_mult_mod_eq[of "unat c" 16] div_mult_mod_eq[of "unat c div 16" 16]
      div_mult_mod_eq[of "unat c div 256" 16]
    by linarith
  ultimately show ?thesis
    by (simp add: hex4_val_def hex_val_digit of_nat_unat del: of_nat_add of_nat_mult)
qed

lemma json_body_esc_unit: "json_body (esc_unit c @ r) = map_option (apfst ((#) c)) (json_body r)"
  using hex4_val_hex4[of c]
  by (auto simp: esc_unit_def hex4_def unesc_def not_less)

lemma high_ge: "is_high c \<Longrightarrow> \<not> c < 0x20 \<and> c \<noteq> 0x22 \<and> c \<noteq> 0x5C"
  by (auto simp: is_high_def word_less_nat_alt)

lemma low_ge: "is_low c \<Longrightarrow> \<not> c < 0x20 \<and> c \<noteq> 0x22 \<and> c \<noteq> 0x5C"
  by (auto simp: is_low_def word_less_nat_alt)

lemma map_option_apfst_Cons:
  "map_option (apfst ((#) c)) (Some (s, r)) = Some (c # s, r)"
  by simp

lemma json_body_quote: "json_body (json_esc s @ 0x22 # r) = Some (s, r)"
proof (induction s rule: json_esc.induct)
  case (2 c)
  then show ?case by (simp add: json_body_esc_unit)
next
  case (3 c d cs)
  then show ?case
    using high_ge[of c] low_ge[of d] by (cases "is_high c \<and> is_low d") (auto simp: json_body_esc_unit)
qed simp

lemma json_string_quote: "json_string (json_quote s @ r) = Some (s, r)"
  by (simp add: json_string_def json_quote_def json_body_quote)

lemma json_quote_hd [simp]: "hd (json_quote s) = 0x22" "json_quote s \<noteq> []"
  by (simp_all add: json_quote_def)

lemma json_quote_last [simp]: "last (json_quote s) = 0x22"
  by (simp add: json_quote_def)

text \<open>Quoting leaves nothing ill-formed: what \<open>JSON.stringify\<close> writes survives UTF-8.\<close>

lemma not_surrogate_hex: "d < 16 \<Longrightarrow> \<not> is_high (hex_digit d) \<and> \<not> is_low (hex_digit d)"
proof -
  assume d: "d < 16"
  have "unat (of_nat (48 + d) :: code_unit) = 48 + d" and "unat (of_nat (87 + d) :: code_unit) = 87 + d"
    unfolding unsigned_of_nat using d by (simp_all add: take_bit_nat_eq_self)
  with d show ?thesis by (simp add: is_high_def is_low_def hex_digit_def del: of_nat_add)
qed

lemma well_formed_append:
  "well_formed a \<Longrightarrow> well_formed b \<Longrightarrow> well_formed (a @ b)"
proof (induction a rule: well_formed.induct)
  case (2 c)
  then show ?case by (cases b) auto
next
  case (3 c d cs)
  then show ?case by (cases "is_high c \<and> is_low d") auto
qed simp

lemma well_formed_plain: "\<forall>c \<in> set s. \<not> is_high c \<and> \<not> is_low c \<Longrightarrow> well_formed s"
  by (induction s rule: well_formed.induct) auto

lemma esc_unit_plain: "\<forall>e \<in> set (esc_unit c). \<not> is_high e \<and> \<not> is_low e"
proof -
  have "unat c div 4096 < 16" using unat_unit_less[of c] by (simp add: less_mult_imp_div_less)
  then have "\<forall>e \<in> set (hex4 c). \<not> is_high e \<and> \<not> is_low e"
    by (simp add: hex4_def not_surrogate_hex)
  moreover have "\<forall>e \<in> set [0x5C, 0x22, 0x62, 0x74, 0x6E, 0x66, 0x72, 0x75 :: code_unit].
      \<not> is_high e \<and> \<not> is_low e"
    by (simp add: is_high_def is_low_def)
  ultimately show ?thesis by (simp add: esc_unit_def)
qed

lemma well_formed_esc: "well_formed (json_esc s)"
proof (induction s rule: json_esc.induct)
  case (2 c)
  then show ?case by (simp add: esc_unit_plain well_formed_plain)
next
  case (3 c d cs)
  then show ?case
    using well_formed_append[OF well_formed_plain[OF esc_unit_plain[of c]], of "json_esc (d # cs)"]
    by (cases "is_high c \<and> is_low d") auto
qed simp

lemma well_formed_quote: "well_formed (json_quote s)"
proof -
  have q: "well_formed [0x22 :: code_unit]" by (simp add: is_high_def is_low_def)
  have "json_quote s = [0x22] @ json_esc s @ [0x22]" by (simp add: json_quote_def)
  then show ?thesis using q well_formed_esc by (metis well_formed_append)
qed

end
