(* ===== verification/Base64.thy ===== *)
theory Base64
  imports Js_Strings
begin

text \<open>
  \<open>buffer.toString('base64')\<close> and \<open>Buffer.from(s, 'base64')\<close>: keys, nonces, ciphertexts and
  signatures travel in this form. The decoder takes both alphabets, skips what is in neither
  and stops at the padding, as Node's does.
\<close>

definition b64_char :: "nat \<Rightarrow> code_unit" where
  "b64_char v =
     (if v < 26 then of_nat (65 + v) else if v < 52 then of_nat (71 + v)
      else if v < 62 then of_nat (v - 4) else if v = 62 then 43 else 47)"

definition b64_val :: "code_unit \<Rightarrow> nat option" where
  "b64_val c =
     (let n = unat c
      in if 65 \<le> n \<and> n \<le> 90 then Some (n - 65)
         else if 97 \<le> n \<and> n \<le> 122 then Some (n - 71)
         else if 48 \<le> n \<and> n \<le> 57 then Some (n + 4)
         else if n = 43 \<or> n = 45 then Some 62
         else if n = 47 \<or> n = 95 then Some 63
         else None)"

fun to_sextets :: "nat list \<Rightarrow> nat list" where
  "to_sextets (a # b # c # r) =
     a div 4 # (a mod 4 * 16 + b div 16) # (b mod 16 * 4 + c div 64) # c mod 64 # to_sextets r"
| "to_sextets [a, b] = [a div 4, a mod 4 * 16 + b div 16, b mod 16 * 4]"
| "to_sextets [a] = [a div 4, a mod 4 * 16]"
| "to_sextets [] = []"

fun from_sextets :: "nat list \<Rightarrow> nat list" where
  "from_sextets (w # x # y # z # r) =
     (w * 4 + x div 16) # (x mod 16 * 16 + y div 4) # (y mod 4 * 64 + z) # from_sextets r"
| "from_sextets [w, x, y] = [w * 4 + x div 16, x mod 16 * 16 + y div 4]"
| "from_sextets [w, x] = [w * 4 + x div 16]"
| "from_sextets _ = []"

definition b64_padding :: "nat \<Rightarrow> jsstr" where
  "b64_padding n = (if n mod 3 = 1 then [61, 61] else if n mod 3 = 2 then [61] else [])"

definition to_base64 :: "byte list \<Rightarrow> jsstr" where
  "to_base64 bs = map b64_char (to_sextets (map unat bs)) @ b64_padding (length bs)"

definition from_base64 :: "jsstr \<Rightarrow> byte list" where
  "from_base64 s =
     map of_nat (from_sextets (map the (filter (\<lambda>v. v \<noteq> None) (map b64_val (takeWhile (\<lambda>c. c \<noteq> 61) s)))))"

lemma b64_val_char: "v < 64 \<Longrightarrow> b64_val (b64_char v) = Some v"
proof -
  assume v: "v < 64"
  have u: "unat (of_nat n :: code_unit) = n" if "n < 65536" for n
    unfolding unsigned_of_nat using that by (simp add: take_bit_nat_eq_self)
  show ?thesis
    using v by (auto simp: b64_val_def b64_char_def Let_def u simp del: of_nat_add of_nat_diff)
qed

lemma b64_char_not_pad: "v < 64 \<Longrightarrow> b64_char v \<noteq> 61"
  using b64_val_char[of v] by (auto simp: b64_val_def Let_def)

lemma to_sextets_small: "\<forall>b \<in> set bs. b < 256 \<Longrightarrow> \<forall>v \<in> set (to_sextets bs). v < 64"
  by (induction bs rule: to_sextets.induct) (auto simp: less_mult_imp_div_less intro: mod_less_divisor)

lemma shift_div_mod: "y < k \<Longrightarrow> (x * k + y) div k = (x :: nat)" "y < k \<Longrightarrow> (x * k + y) mod k = y"
  by simp_all

lemma from_to_sextets: "\<forall>b \<in> set bs. b < 256 \<Longrightarrow> from_sextets (to_sextets bs) = bs"
proof (induction bs rule: to_sextets.induct)
  case (1 a b c r)
  then have "b div 16 < 16" "c div 64 < 4" by (auto simp: less_mult_imp_div_less)
  with 1 show ?case by (simp add: shift_div_mod)
next
  case (2 a b)
  then have "b div 16 < 16" by (auto simp: less_mult_imp_div_less)
  then show ?case by (simp add: shift_div_mod)
qed auto

lemma takeWhile_pad:
  "\<forall>x \<in> set xs. x \<noteq> 61 \<Longrightarrow> takeWhile (\<lambda>c. c \<noteq> 61) (xs @ b64_padding n) = xs"
  by (induction xs) (auto simp: b64_padding_def)

lemma from_to_base64: "from_base64 (to_base64 bs) = bs"
proof -
  let ?vs = "to_sextets (map unat bs)"
  have b: "\<forall>b \<in> set (map unat bs). b < 256"
    using unsigned_less[of "_ :: byte"] by auto
  have small: "\<forall>v \<in> set ?vs. v < 64" using b by (rule to_sextets_small)
  then have "takeWhile (\<lambda>c. c \<noteq> 61) (to_base64 bs) = map b64_char ?vs"
    unfolding to_base64_def by (intro takeWhile_pad) (auto dest: b64_char_not_pad)
  moreover have "map b64_val (map b64_char ?vs) = map Some ?vs"
    using small by (simp add: b64_val_char)
  moreover have "filter (\<lambda>v. v \<noteq> None) (map Some ?vs) = map Some ?vs"
    by (simp add: filter_map o_def)
  ultimately have "from_base64 (to_base64 bs) = map of_nat (from_sextets (map the (map Some ?vs)))"
    unfolding from_base64_def by metis
  then show ?thesis by (simp add: from_to_sextets[OF b] o_def of_nat_unat)
qed

lemma to_base64_inject: "to_base64 a = to_base64 b \<Longrightarrow> a = b"
  by (metis from_to_base64)

end
