(* ===== verification/WriteQueue.thy ===== *)
theory WriteQueue
  imports Js_Strings
begin

text \<open>
  \<open>src/api/writeQueue.js\<close>: concurrent inserts grouped into unordered bulk writes. The class
  is the record \<open>write_queue\<close>; what lives outside it while its methods wait (callbacks given
  to \<open>setImmediate\<close>, bulk writes the database has not answered, promises already settled) is
  kept in \<open>wq_machine\<close>. One transition per callback: an insert, an immediate that runs
  \<open>flush\<close>, a bulk write that is answered. A promise is named by its number, so that
  "settled exactly once" is a statement about the log of settlements.
\<close>

section \<open>The driver's errors\<close>

definition DUPLICATE_KEY :: int where
  "DUPLICATE_KEY = 11000"

record write_error =
  we_index :: "nat option"
  we_code :: "int option"
  we_errmsg :: "jsstr option"

text \<open>A reported entry carries its fields itself or in a member \<open>err\<close>; \<open>writeErrors\<close> is
  absent, a single entry or an array of them.\<close>

datatype raw_entry = Flat write_error | Nested write_error

datatype raw_errors = NoWriteErrors | SingleError raw_entry | ErrorArray "raw_entry list"

record driver_error =
  de_writeErrors :: raw_errors
  de_message :: jsstr

fun inner_of :: "raw_entry \<Rightarrow> write_error" where
  "inner_of (Flat e) = e"
| "inner_of (Nested e) = e"

fun normaliseWriteErrors :: "raw_errors \<Rightarrow> write_error list" where
  "normaliseWriteErrors NoWriteErrors = []"
| "normaliseWriteErrors (SingleError e) = [inner_of e]"
| "normaliseWriteErrors (ErrorArray es) = map inner_of es"

datatype bulk_result = BulkOk | BulkFailed driver_error

datatype reject_reason = DriverError driver_error | WriteFailed jsstr

datatype outcome = Resolved bool | Rejected reject_reason

section \<open>The class and its surroundings\<close>

type_synonym promise = nat
type_synonym 'd item = "'d \<times> promise"

record 'd write_queue =
  wq_maxBatch :: nat
  wq_maxInFlight :: int
  wq_inFlight :: int
  wq_pending :: "'d item list"
  wq_scheduled :: bool
  wq_depth :: nat
  wq_batches :: nat
  wq_documents :: nat
  wq_duplicates :: nat

definition new_WriteQueue :: "nat \<Rightarrow> int \<Rightarrow> 'd write_queue" where
  "new_WriteQueue maxBatch maxInFlight =
     \<lparr>wq_maxBatch = maxBatch, wq_maxInFlight = maxInFlight, wq_inFlight = 0, wq_pending = [],
      wq_scheduled = False, wq_depth = 0, wq_batches = 0, wq_documents = 0, wq_duplicates = 0\<rparr>"

record 'd wq_machine =
  wm_q :: "'d write_queue"
  wm_immediates :: nat
  wm_bulks :: "'d item list list"
  wm_settled :: "(promise \<times> outcome) list"
  wm_next :: promise

definition wq_start :: "nat \<Rightarrow> int \<Rightarrow> 'd wq_machine" where
  "wq_start maxBatch maxInFlight =
     \<lparr>wm_q = new_WriteQueue maxBatch maxInFlight, wm_immediates = 0, wm_bulks = [],
      wm_settled = [], wm_next = 0\<rparr>"

text \<open>\<open>flush\<close> up to its \<open>await\<close>: the batch it hands to \<open>bulkWrite\<close> joins \<open>wm_bulks\<close>.\<close>

definition flush :: "'d wq_machine \<Rightarrow> 'd wq_machine" where
  "flush m =
     (let q = (wm_q m)\<lparr>wq_scheduled := False\<rparr>
      in if wq_pending q = [] then m\<lparr>wm_q := q\<rparr>
         else if wq_maxInFlight q \<le> wq_inFlight q then m\<lparr>wm_q := q\<rparr>
         else
           let (batch, rest) =
                 (if wq_maxBatch q < length (wq_pending q)
                  then (take (wq_maxBatch q) (wq_pending q), drop (wq_maxBatch q) (wq_pending q))
                  else (wq_pending q, []))
           in m\<lparr>wm_q := q\<lparr>wq_pending := rest, wq_depth := length rest, wq_inFlight := wq_inFlight q + 1\<rparr>,
                wm_bulks := wm_bulks m @ [batch]\<rparr>)"

definition schedule :: "'d wq_machine \<Rightarrow> 'd wq_machine" where
  "schedule m = m\<lparr>wm_q := (wm_q m)\<lparr>wq_scheduled := True\<rparr>, wm_immediates := Suc (wm_immediates m)\<rparr>"

definition insert_doc :: "'d \<Rightarrow> 'd wq_machine \<Rightarrow> 'd wq_machine" where
  "insert_doc document m =
     (let pending = wq_pending (wm_q m) @ [(document, wm_next m)];
          m1 = m\<lparr>wm_q := (wm_q m)\<lparr>wq_pending := pending, wq_depth := length pending\<rparr>,
                 wm_next := Suc (wm_next m)\<rparr>
      in if wq_maxBatch (wm_q m1) \<le> length pending then flush m1
         else if \<not> wq_scheduled (wm_q m1) then schedule m1
         else m1)"

definition drain :: "'d wq_machine \<Rightarrow> 'd wq_machine" where
  "drain m =
     (if wq_pending (wm_q m) = [] \<or> wq_scheduled (wm_q m) then m
      else if wq_maxInFlight (wm_q m) \<le> wq_inFlight (wm_q m) then m
      else schedule m)"

section \<open>Settling a batch\<close>

text \<open>The \<open>Map\<close> from index to error; a later error of the same index replaces an earlier one.\<close>

definition failedAt :: "write_error list \<Rightarrow> nat \<Rightarrow> write_error option" where
  "failedAt errors index = map_of (rev (map (\<lambda>e. (we_index e, e)) errors)) (Some index)"

definition item_outcome :: "write_error list \<Rightarrow> nat \<Rightarrow> outcome" where
  "item_outcome errors index =
     (case failedAt errors index of
        None \<Rightarrow> Resolved False
      | Some error \<Rightarrow>
          if we_code error = Some DUPLICATE_KEY then Resolved True
          else Rejected (WriteFailed
                 (case we_errmsg error of
                    None \<Rightarrow> js ''write failed''
                  | Some msg \<Rightarrow> if msg = [] then js ''write failed'' else msg)))"

definition settle_batch :: "write_error list \<Rightarrow> 'd item list \<Rightarrow> (promise \<times> outcome) list" where
  "settle_batch errors batch =
     map (\<lambda>(index, item). (snd item, item_outcome errors index)) (enumerate 0 batch)"

definition count_duplicates :: "(promise \<times> outcome) list \<Rightarrow> nat" where
  "count_duplicates settlements = length (filter (\<lambda>(p, r). r = Resolved True) settlements)"

text \<open>\<open>flush\<close> after its \<open>await\<close>: the \<open>i\<close>-th outstanding bulk write is answered.\<close>

definition bulk_answered :: "nat \<Rightarrow> bulk_result \<Rightarrow> 'd wq_machine \<Rightarrow> 'd wq_machine" where
  "bulk_answered i result m =
     (let batch = wm_bulks m ! i;
          q = wm_q m;
          m1 = m\<lparr>wm_bulks := take i (wm_bulks m) @ drop (Suc i) (wm_bulks m)\<rparr>;
          writeErrors = (case result of BulkOk \<Rightarrow> [] | BulkFailed err \<Rightarrow> normaliseWriteErrors (de_writeErrors err))
      in case result of
           BulkFailed err \<Rightarrow>
             if writeErrors = [] then
               drain (m1\<lparr>wm_q := q\<lparr>wq_inFlight := wq_inFlight q - 1\<rparr>,
                         wm_settled := wm_settled m @ map (\<lambda>item. (snd item, Rejected (DriverError err))) batch\<rparr>)
             else
               drain (m1\<lparr>wm_q := q\<lparr>wq_inFlight := wq_inFlight q - 1, wq_batches := Suc (wq_batches q),
                             wq_documents := wq_documents q + length batch,
                             wq_duplicates := wq_duplicates q + count_duplicates (settle_batch writeErrors batch)\<rparr>,
                         wm_settled := wm_settled m @ settle_batch writeErrors batch\<rparr>)
         | BulkOk \<Rightarrow>
             drain (m1\<lparr>wm_q := q\<lparr>wq_inFlight := wq_inFlight q - 1, wq_batches := Suc (wq_batches q),
                           wq_documents := wq_documents q + length batch,
                           wq_duplicates := wq_duplicates q + count_duplicates (settle_batch [] batch)\<rparr>,
                       wm_settled := wm_settled m @ settle_batch [] batch\<rparr>))"

record wq_stats =
  st_queueDepth :: nat
  st_batches :: nat
  st_documentsWritten :: nat
  st_duplicatesRejected :: nat
  st_averageBatch :: rat
  st_writesInFlight :: int

definition stats :: "'d write_queue \<Rightarrow> wq_stats" where
  "stats q =
     \<lparr>st_queueDepth = wq_depth q, st_batches = wq_batches q, st_documentsWritten = wq_documents q,
      st_duplicatesRejected = wq_duplicates q,
      st_averageBatch = (if wq_batches q \<noteq> 0
                         then of_int (js_round (of_nat (wq_documents q) / of_nat (wq_batches q) * 10)) / 10
                         else 0),
      st_writesInFlight = wq_inFlight q\<rparr>"

section \<open>Steps\<close>

inductive internal_step :: "'d wq_machine \<Rightarrow> 'd wq_machine \<Rightarrow> bool" where
  immediate: "0 < wm_immediates m \<Longrightarrow>
     internal_step m (flush (m\<lparr>wm_immediates := wm_immediates m - 1\<rparr>))"
| answered: "i < length (wm_bulks m) \<Longrightarrow> internal_step m (bulk_answered i result m)"

inductive wq_step :: "'d wq_machine \<Rightarrow> 'd wq_machine \<Rightarrow> bool" where
  insert_call: "wq_step m (insert_doc document m)"
| internal: "internal_step m m' \<Longrightarrow> wq_step m m'"

inductive_cases internal_stepE: "internal_step m m'"
inductive_cases wq_stepE: "wq_step m m'"

section \<open>The invariant\<close>

definition wq_promises :: "'d wq_machine \<Rightarrow> promise multiset" where
  "wq_promises m = mset (map snd (wq_pending (wm_q m))) + mset (map snd (concat (wm_bulks m)))
     + mset (map fst (wm_settled m))"

definition wq_bounds :: "'d wq_machine \<Rightarrow> bool" where
  "wq_bounds m \<longleftrightarrow>
     1 \<le> wq_maxBatch (wm_q m) \<and> 1 \<le> wq_maxInFlight (wm_q m)
     \<and> wq_depth (wm_q m) = length (wq_pending (wm_q m))
     \<and> wq_inFlight (wm_q m) = int (length (wm_bulks m))
     \<and> wq_inFlight (wm_q m) \<le> wq_maxInFlight (wm_q m)
     \<and> (\<forall>b \<in> set (wm_bulks m). b \<noteq> [] \<and> length b \<le> wq_maxBatch (wm_q m))
     \<and> wq_duplicates (wm_q m) = count_duplicates (wm_settled m)"

definition wq_awake :: "'d wq_machine \<Rightarrow> bool" where
  "wq_awake m \<longleftrightarrow>
     (wq_scheduled (wm_q m) \<longrightarrow> 0 < wm_immediates m)
     \<and> (wq_pending (wm_q m) \<noteq> [] \<longrightarrow> 0 < wm_immediates m \<or> wm_bulks m \<noteq> [])"

definition wq_inv :: "'d wq_machine \<Rightarrow> bool" where
  "wq_inv m \<longleftrightarrow> wq_bounds m \<and> wq_awake m \<and> wq_promises m = mset [0..<wm_next m]"

lemmas wq_inv_defs = wq_inv_def wq_bounds_def wq_awake_def wq_promises_def

lemma wq_inv_start: "1 \<le> b \<Longrightarrow> 1 \<le> k \<Longrightarrow> wq_inv (wq_start b k)"
  by (simp add: wq_inv_defs wq_start_def new_WriteQueue_def count_duplicates_def)

lemma flush_bounds: "wq_bounds m \<Longrightarrow> wq_bounds (flush m)"
  by (auto simp: wq_bounds_def flush_def Let_def)

lemma image_take_drop:
  "image_mset f (mset (drop n xs)) + (A + image_mset f (mset (take n xs))) = A + image_mset f (mset xs)"
  by (metis add.commute add.left_commute append_take_drop_id image_mset_union mset_append)

lemma flush_promises: "wq_promises (flush m) = wq_promises m"
  by (auto simp: wq_promises_def flush_def Let_def image_take_drop)

lemma flush_awake: "wq_bounds m \<Longrightarrow> wq_awake (flush m)"
  by (auto simp: wq_bounds_def wq_awake_def flush_def Let_def)

lemma flush_frame [frame_simps]:
  "wm_settled (flush m) = wm_settled m" "wm_next (flush m) = wm_next m"
  "wm_immediates (flush m) = wm_immediates m"
  by (auto simp: flush_def Let_def)

text \<open>Batches leave the queue in the order their documents came.\<close>

lemma flush_fifo:
  "concat (wm_bulks (flush m)) @ wq_pending (wm_q (flush m)) = concat (wm_bulks m) @ wq_pending (wm_q m)"
  by (auto simp: flush_def Let_def)

lemma flush_inv [inv_intros]: "wq_inv m \<Longrightarrow> wq_inv (flush (m\<lparr>wm_immediates := n\<rparr>))"
proof -
  assume "wq_inv m"
  then have "wq_bounds (m\<lparr>wm_immediates := n\<rparr>)"
    "wq_promises (m\<lparr>wm_immediates := n\<rparr>) = mset [0..<wm_next m]"
    by (auto simp: wq_inv_def wq_bounds_def wq_promises_def)
  then show ?thesis
    by (simp add: wq_inv_def flush_bounds flush_awake flush_promises flush_frame)
qed

lemma wq_bounds_pending:
  "wq_bounds m \<Longrightarrow>
   wq_bounds (m\<lparr>wm_q := (wm_q m)\<lparr>wq_pending := p, wq_depth := length p\<rparr>, wm_next := n\<rparr>)"
  by (simp add: wq_bounds_def)

lemma insert_inv [inv_intros]:
  assumes "wq_inv m"
  shows "wq_inv (insert_doc document m)"
proof -
  define p where "p = wq_pending (wm_q m) @ [(document, wm_next m)]"
  define m1 where "m1 = m\<lparr>wm_q := (wm_q m)\<lparr>wq_pending := p, wq_depth := length p\<rparr>, wm_next := Suc (wm_next m)\<rparr>"
  have b: "wq_bounds m1"
    using assms by (simp add: m1_def wq_inv_def wq_bounds_pending)
  have pr: "wq_promises m1 = mset [0..<wm_next m1]"
    using assms by (simp add: m1_def p_def wq_inv_def wq_promises_def)
  have eq: "insert_doc document m =
      (if wq_maxBatch (wm_q m1) \<le> length p then flush m1
       else if \<not> wq_scheduled (wm_q m1) then schedule m1 else m1)"
    by (simp add: insert_doc_def Let_def m1_def p_def)
  have "wq_inv (flush m1)"
    using b pr by (simp add: wq_inv_def flush_bounds flush_awake flush_promises flush_frame)
  moreover have "wq_inv (schedule m1)"
    using b pr by (auto simp: wq_inv_defs schedule_def)
  moreover have "wq_inv m1" if "wq_scheduled (wm_q m1)"
    using b pr that assms by (auto simp: wq_inv_def wq_awake_def m1_def)
  ultimately show ?thesis by (simp add: eq)
qed

lemma concat_remove_nth:
  "i < length xs \<Longrightarrow>
   mset (xs ! i) + mset (concat (take i xs @ drop (Suc i) xs)) = mset (concat xs)"
  by (subst (4) id_take_nth_drop[of i xs]) auto

lemma settle_promises [simp]: "map fst (settle_batch errors batch) = map snd batch"
proof -
  have "map fst (settle_batch errors batch) = map snd (map snd (enumerate 0 batch))"
    by (simp add: settle_batch_def o_def case_prod_beta del: map_snd_enumerate)
  then show ?thesis by simp
qed

lemma count_duplicates_append [simp]:
  "count_duplicates (a @ b) = count_duplicates a + count_duplicates b"
  by (simp add: count_duplicates_def)

lemma count_duplicates_rejected [simp]:
  "count_duplicates (map (\<lambda>item. (g item, Rejected r)) batch) = 0"
  by (simp add: count_duplicates_def)

lemma drain_frame [frame_simps]:
  "wm_settled (drain m) = wm_settled m" "wm_next (drain m) = wm_next m"
  "wm_bulks (drain m) = wm_bulks m" "wq_pending (wm_q (drain m)) = wq_pending (wm_q m)"
  "wq_bounds (drain m) = wq_bounds m" "wq_promises (drain m) = wq_promises m"
  by (auto simp: drain_def schedule_def wq_bounds_def wq_promises_def)

lemma drain_awake:
  "wq_bounds m \<Longrightarrow> (wq_scheduled (wm_q m) \<Longrightarrow> 0 < wm_immediates m) \<Longrightarrow> wq_awake (drain m)"
  by (auto simp: drain_def schedule_def wq_awake_def wq_bounds_def)

text \<open>What answering a bulk write does, seen through one set of equations.\<close>

lemma bulk_answered_drain:
  assumes "i < length (wm_bulks m)" and "wq_bounds m"
  obtains m' log where
    "bulk_answered i result m = drain m'" "wq_bounds m'"
    "wm_bulks m' = take i (wm_bulks m) @ drop (Suc i) (wm_bulks m)"
    "wm_settled m' = wm_settled m @ log" "map fst log = map snd (wm_bulks m ! i)"
    "wq_pending (wm_q m') = wq_pending (wm_q m)" "wq_scheduled (wm_q m') = wq_scheduled (wm_q m)"
    "wm_immediates m' = wm_immediates m" "wm_next m' = wm_next m"
proof -
  note found = that
  have b: "set (take i (wm_bulks m) @ drop (Suc i) (wm_bulks m)) \<subseteq> set (wm_bulks m)"
    by (auto dest: in_set_takeD in_set_dropD)
  have l: "int (length (take i (wm_bulks m) @ drop (Suc i) (wm_bulks m))) = int (length (wm_bulks m)) - 1"
    using assms(1) by auto
  define q where "q = wm_q m"
  define m1 where "m1 = m\<lparr>wm_bulks := take i (wm_bulks m) @ drop (Suc i) (wm_bulks m)\<rparr>"
  define failed where "failed = (\<lambda>err. m1\<lparr>wm_q := q\<lparr>wq_inFlight := wq_inFlight q - 1\<rparr>,
      wm_settled := wm_settled m @ map (\<lambda>item. (snd item, Rejected (DriverError err))) (wm_bulks m ! i)\<rparr>)"
  define settled where "settled = (\<lambda>errors. m1\<lparr>wm_q := q\<lparr>wq_inFlight := wq_inFlight q - 1,
      wq_batches := Suc (wq_batches q), wq_documents := wq_documents q + length (wm_bulks m ! i),
      wq_duplicates := wq_duplicates q + count_duplicates (settle_batch errors (wm_bulks m ! i))\<rparr>,
      wm_settled := wm_settled m @ settle_batch errors (wm_bulks m ! i)\<rparr>)"
  have bf: "wq_bounds (failed err)" for err
    using assms(2) b l by (auto simp: failed_def m1_def q_def wq_bounds_def)
  have bs: "wq_bounds (settled errors)" for errors
    using assms(2) b l by (auto simp: settled_def m1_def q_def wq_bounds_def)
  have pf: "map fst (map (\<lambda>item. (snd item, Rejected (DriverError err))) (wm_bulks m ! i)) = map snd (wm_bulks m ! i)" for err
    by simp
  let ?keeps = "\<lambda>x. wm_bulks x = take i (wm_bulks m) @ drop (Suc i) (wm_bulks m)
      \<and> wq_pending (wm_q x) = wq_pending (wm_q m) \<and> wq_scheduled (wm_q x) = wq_scheduled (wm_q m)
      \<and> wm_immediates x = wm_immediates m \<and> wm_next x = wm_next m"
  have kf: "?keeps (failed err)" for err
    by (simp add: failed_def m1_def q_def)
  have ks: "?keeps (settled errors)" for errors
    by (simp add: settled_def m1_def q_def)
  have lf: "wm_settled (failed err) = wm_settled m
      @ map (\<lambda>item. (snd item, Rejected (DriverError err))) (wm_bulks m ! i)" for err
    by (simp add: failed_def)
  have ls: "wm_settled (settled errors) = wm_settled m @ settle_batch errors (wm_bulks m ! i)" for errors
    by (simp add: settled_def)
  have use_settled: thesis if eq: "bulk_answered i result m = drain (settled errors)" for errors
    by (rule found[OF eq bs _ ls settle_promises]) (simp_all only: ks)
  show thesis
  proof (cases result)
    case BulkOk
    then have "bulk_answered i result m = drain (settled [])"
      by (simp add: bulk_answered_def Let_def settled_def m1_def q_def)
    then show thesis by (rule use_settled)
  next
    case (BulkFailed err)
    let ?errors = "normaliseWriteErrors (de_writeErrors err)"
    show thesis
    proof (cases "?errors = []")
      case True
      then have "bulk_answered i result m = drain (failed err)"
        by (simp add: BulkFailed bulk_answered_def Let_def failed_def m1_def q_def)
      then show thesis
        by (rule found[OF _ bf _ lf pf]) (simp_all only: kf)
    next
      case False
      then have "bulk_answered i result m = drain (settled ?errors)"
        by (simp add: BulkFailed bulk_answered_def Let_def settled_def m1_def q_def)
      then show thesis by (rule use_settled)
    qed
  qed
qed

lemma answered_inv [inv_intros]:
  assumes "wq_inv m" and i: "i < length (wm_bulks m)"
  shows "wq_inv (bulk_answered i result m)"
proof -
  have b: "wq_bounds m" using assms(1) by (simp add: wq_inv_def)
  obtain m' log where m': "bulk_answered i result m = drain m'" "wq_bounds m'"
    "wm_bulks m' = take i (wm_bulks m) @ drop (Suc i) (wm_bulks m)"
    "wm_settled m' = wm_settled m @ log" "map fst log = map snd (wm_bulks m ! i)"
    "wq_pending (wm_q m') = wq_pending (wm_q m)" "wq_scheduled (wm_q m') = wq_scheduled (wm_q m)"
    "wm_immediates m' = wm_immediates m" "wm_next m' = wm_next m"
    by (rule bulk_answered_drain[OF i b])
  let ?rest = "take i (wm_bulks m) @ drop (Suc i) (wm_bulks m)"
  have e: "image_mset snd (mset (concat (wm_bulks m)))
      = image_mset snd (mset (wm_bulks m ! i)) + image_mset snd (mset (concat ?rest))"
    by (metis concat_remove_nth[OF i] image_mset_union)
  have "mset (map fst (wm_settled m')) = mset (map fst (wm_settled m)) + image_mset snd (mset (wm_bulks m ! i))"
    unfolding m'(4) map_append m'(5) mset_append by simp
  then have "wq_promises m' = wq_promises m"
    unfolding wq_promises_def m'(3) m'(6) by (simp only: mset_map e) (simp only: ac_simps)
  moreover have "wq_awake (drain m')"
    using assms(1) by (intro drain_awake[OF m'(2)]) (simp add: m'(7,8) wq_inv_def wq_awake_def)
  ultimately show ?thesis
    unfolding m'(1) using assms(1) m'(2,9) by (simp add: wq_inv_def frame_simps)
qed

lemma internal_inv: "wq_inv m \<Longrightarrow> internal_step m m' \<Longrightarrow> wq_inv m'"
  by (auto elim!: internal_stepE intro: inv_intros)

definition wq_initial :: "'d wq_machine \<Rightarrow> bool" where
  "wq_initial m \<longleftrightarrow> (\<exists>b k. 1 \<le> b \<and> 1 \<le> k \<and> m = wq_start b k)"

interpretation wq: machine_invariant wq_initial wq_step wq_inv
proof
  show "wq_initial s \<Longrightarrow> wq_inv s" for s :: "'d wq_machine"
    by (auto simp: wq_initial_def wq_inv_start)
  show "wq_inv s \<Longrightarrow> wq_step s t \<Longrightarrow> wq_inv t" for s t :: "'d wq_machine"
    by (auto elim!: wq_stepE intro: insert_inv internal_inv)
qed

section \<open>Progress\<close>

definition wq_measure :: "'d wq_machine \<Rightarrow> nat" where
  "wq_measure m = 3 * length (wq_pending (wm_q m)) + 2 * length (wm_bulks m) + wm_immediates m"

lemma flush_measure: "wq_bounds m \<Longrightarrow> wq_measure (flush m) \<le> wq_measure m"
proof -
  assume "wq_bounds m"
  then have "1 \<le> wq_maxBatch (wm_q m)" by (simp add: wq_bounds_def)
  then show ?thesis
    by (auto simp: wq_measure_def flush_def Let_def neq_Nil_conv)
qed

lemma drain_measure: "wq_measure (drain m) \<le> Suc (wq_measure m)"
  by (auto simp: wq_measure_def drain_def schedule_def)

lemma internal_measure:
  assumes inv: "wq_inv m" and "internal_step m m'"
  shows "wq_measure m' < wq_measure m"
  using assms(2)
proof cases
  case immediate
  let ?m = "m\<lparr>wm_immediates := wm_immediates m - 1\<rparr>"
  have "wq_bounds ?m" using inv by (simp add: wq_inv_def wq_bounds_def)
  then have "wq_measure m' \<le> wq_measure ?m" using immediate by (simp add: flush_measure)
  also have "\<dots> < wq_measure m" using immediate by (simp add: wq_measure_def)
  finally show ?thesis .
next
  case (answered i result)
  have b: "wq_bounds m" using inv by (simp add: wq_inv_def)
  obtain n log where n: "m' = drain n" "wm_bulks n = take i (wm_bulks m) @ drop (Suc i) (wm_bulks m)"
    "wq_pending (wm_q n) = wq_pending (wm_q m)" "wm_immediates n = wm_immediates m"
    using bulk_answered_drain[OF answered(2) b, of result] answered(1) by metis
  have "Suc (length (wm_bulks n)) = length (wm_bulks m)" using n answered(2) by auto
  then have "Suc (Suc (wq_measure n)) = wq_measure m" by (simp add: wq_measure_def n)
  then show ?thesis using drain_measure[of n] n by simp
qed

definition wq_quiescent :: "'d wq_machine \<Rightarrow> bool" where
  "wq_quiescent m \<longleftrightarrow> wm_immediates m = 0 \<and> wm_bulks m = []"

lemma stuck_iff_quiescent: "(\<exists>m'. internal_step m m') \<longleftrightarrow> \<not> wq_quiescent m"
  by (auto simp: wq_quiescent_def elim!: internal_stepE intro: internal_step.intros)

lemma quiescent_settled:
  "wq_inv m \<Longrightarrow> wq_quiescent m \<Longrightarrow>
   wq_pending (wm_q m) = [] \<and> mset (map fst (wm_settled m)) = mset [0..<wm_next m]"
  by (auto simp: wq_inv_defs wq_quiescent_def)

lemma internal_next: "internal_step m m' \<Longrightarrow> wq_inv m \<Longrightarrow> wm_next m' = wm_next m"
proof (induction rule: internal_step.induct)
  case (answered i m result)
  then show ?case
    by (metis bulk_answered_drain drain_frame(2) wq_inv_def)
qed (simp add: frame_simps)

section \<open>What an unordered bulk write reports\<close>

text \<open>
  The documented answer of MongoDB to an unordered bulk insert under a unique index on
  \<open>key\<close>: every document is tried, and exactly those whose key is already stored, or was
  inserted by an earlier document of the same batch, are reported with error 11000 under
  their index.
\<close>

definition key_taken :: "('d \<Rightarrow> 'k) \<Rightarrow> 'k set \<Rightarrow> 'd list \<Rightarrow> nat \<Rightarrow> bool" where
  "key_taken key stored docs i \<longleftrightarrow> key (docs ! i) \<in> stored \<or> key (docs ! i) \<in> key ` set (take i docs)"

definition reports_duplicates :: "('d \<Rightarrow> 'k) \<Rightarrow> 'k set \<Rightarrow> 'd list \<Rightarrow> write_error list \<Rightarrow> bool" where
  "reports_duplicates key stored docs errors \<longleftrightarrow>
     list_all (\<lambda>e. we_code e = Some DUPLICATE_KEY
        \<and> list_ex (\<lambda>i. we_index e = Some i \<and> key_taken key stored docs i) [0..<length docs]) errors
     \<and> list_all (\<lambda>i. key_taken key stored docs i \<longrightarrow> Some i \<in> we_index ` set errors) [0..<length docs]"

lemma failedAt_None: "failedAt errors i = None \<longleftrightarrow> Some i \<notin> we_index ` set errors"
  by (force simp: failedAt_def map_of_eq_None_iff image_iff)

lemma failedAt_Some: "failedAt errors i = Some e \<Longrightarrow> e \<in> set errors \<and> we_index e = Some i"
  by (auto simp: failedAt_def dest!: map_of_SomeD)

lemma item_outcome_duplicates:
  assumes "reports_duplicates key stored docs errors" and "i < length docs"
  shows "item_outcome errors i = Resolved (key_taken key stored docs i)"
proof (cases "failedAt errors i")
  case None
  then have "\<not> key_taken key stored docs i"
    using assms by (auto simp: failedAt_None reports_duplicates_def list_all_iff)
  with None show ?thesis by (simp add: item_outcome_def)
next
  case (Some e)
  then have "we_code e = Some DUPLICATE_KEY" "key_taken key stored docs i"
    using assms failedAt_Some[OF Some]
    by (auto simp: reports_duplicates_def list_all_iff list_ex_iff)
  with Some show ?thesis by (simp add: item_outcome_def)
qed

section \<open>Properties\<close>

text \<open>
  C3: in every state the queue can reach, each promise that \<open>insert\<close> has returned is in exactly
  one place: still pending, in exactly one outstanding bulk write, or settled exactly once. No
  document is lost, sent twice or answered twice, whatever the interleaving of inserts,
  immediates and (successful or failed) bulk writes.
\<close>

theorem wq_promise_in_one_place:
  assumes "reachable wq_initial wq_step m"
  shows "distinct (map snd (wq_pending (wm_q m)) @ map snd (concat (wm_bulks m)) @ map fst (wm_settled m))
    \<and> set (map snd (wq_pending (wm_q m)) @ map snd (concat (wm_bulks m)) @ map fst (wm_settled m)) = {..<wm_next m}"
proof -
  have "mset (map snd (wq_pending (wm_q m)) @ map snd (concat (wm_bulks m)) @ map fst (wm_settled m))
      = mset [0..<wm_next m]"
    using wq.reachable_inv[OF assms] by (simp add: wq_inv_def wq_promises_def add.assoc)
  then show ?thesis
    by (metis distinct_upt mset_eq_imp_distinct_iff mset_eq_setD atLeast0LessThan set_upt)
qed

lemma reach_insert: "reachable wq_initial wq_step m \<Longrightarrow> reachable wq_initial wq_step (insert_doc d m)"
  by (erule reach_step) (rule insert_call)

lemma reach_wq_start: "1 \<le> b \<Longrightarrow> 1 \<le> k \<Longrightarrow> reachable wq_initial wq_step (wq_start b k)"
  by (rule reach_init) (auto simp: wq_initial_def)

theorem wq_promise_in_one_place_witness:
  "distinct (map snd (wq_pending (wm_q (insert_doc (7::nat) (wq_start 2 1))))
      @ map snd (concat (wm_bulks (insert_doc (7::nat) (wq_start 2 1))))
      @ map fst (wm_settled (insert_doc (7::nat) (wq_start 2 1))))"
  using wq_promise_in_one_place[OF reach_insert[OF reach_wq_start[of 2 1]], of "7::nat"] by simp

text \<open>
  The bounds the constructor sets hold in every reachable state: at most \<open>maxInFlight\<close> bulk
  writes wait on the database, none of them holds more than \<open>maxBatch\<close> documents or none at all,
  and the two figures reported to the balancer, \<open>queueDepth\<close> and \<open>writesInFlight\<close>, are the
  true ones.
\<close>

theorem wq_within_bounds:
  assumes "reachable wq_initial wq_step m"
  shows "int (length (wm_bulks m)) \<le> wq_maxInFlight (wm_q m)
    \<and> (\<forall>b \<in> set (wm_bulks m). 1 \<le> length b \<and> length b \<le> wq_maxBatch (wm_q m))
    \<and> st_queueDepth (stats (wm_q m)) = length (wq_pending (wm_q m))
    \<and> st_writesInFlight (stats (wm_q m)) = int (length (wm_bulks m))
    \<and> st_duplicatesRejected (stats (wm_q m)) = count_duplicates (wm_settled m)"
  using wq.reachable_inv[OF assms]
  by (auto simp: wq_inv_def wq_bounds_def stats_def Suc_le_eq)

theorem wq_within_bounds_witness:
  "st_queueDepth (stats (wm_q (insert_doc (7::nat) (wq_start 2 1)))) = 1"
  using wq_within_bounds[OF reach_insert[OF reach_wq_start[of 2 1]], of "7::nat"]
  by (simp add: insert_doc_def wq_start_def new_WriteQueue_def schedule_def Let_def)

lemma internal_steps_inv:
  "internal_step\<^sup>*\<^sup>* m m' \<Longrightarrow> wq_inv m \<Longrightarrow> wq_inv m' \<and> wm_next m' = wm_next m"
  by (induction rule: rtranclp_induct) (auto intro: internal_inv dest: internal_next)

lemma no_infinite_internal_run:
  assumes inv: "wq_inv (f 0)" and f: "\<And>n. internal_step (f n) (f (Suc n))"
  shows False
proof -
  have i: "wq_inv (f n)" for n by (induction n) (use inv f in \<open>auto intro: internal_inv\<close>)
  have "wq_measure (f n) + n \<le> wq_measure (f 0)" for n
  proof (induction n)
    case (Suc n)
    then show ?case using internal_measure[OF i f, of n] by simp
  qed simp
  from this[of "Suc (wq_measure (f 0))"] show False by simp
qed

text \<open>
  C11: the queue never stalls. From any reachable state, once no more inserts arrive, there is no
  infinite run of immediates and bulk answers, and where such a run ends nothing is pending and
  every promise ever returned has been settled exactly once: a caller of \<open>insert\<close> always gets
  its answer, provided the database answers each bulk write with success or failure.
\<close>

theorem wq_always_drains:
  assumes "reachable wq_initial wq_step m"
  shows "\<not> (\<exists>f. f 0 = m \<and> (\<forall>n. internal_step (f n) (f (Suc n))))
    \<and> (\<forall>m'. internal_step\<^sup>*\<^sup>* m m' \<and> \<not> (\<exists>m''. internal_step m' m'') \<longrightarrow>
         wq_pending (wm_q m') = [] \<and> mset (map fst (wm_settled m')) = mset [0..<wm_next m])"
proof (intro conjI allI impI)
  have inv: "wq_inv m" using assms by (rule wq.reachable_inv)
  then show "\<not> (\<exists>f. f 0 = m \<and> (\<forall>n. internal_step (f n) (f (Suc n))))"
    using no_infinite_internal_run by blast
  fix m' assume m': "internal_step\<^sup>*\<^sup>* m m' \<and> \<not> (\<exists>m''. internal_step m' m'')"
  then have "wq_inv m' \<and> wm_next m' = wm_next m" using internal_steps_inv inv by blast
  with m' show "wq_pending (wm_q m') = []" "mset (map fst (wm_settled m')) = mset [0..<wm_next m]"
    using quiescent_settled[of m'] by (simp_all add: stuck_iff_quiescent)
qed

theorem wq_always_drains_witness:
  "\<not> (\<exists>f. f 0 = insert_doc (7::nat) (wq_start 2 1) \<and> (\<forall>n. internal_step (f n) (f (Suc n))))"
  using wq_always_drains[OF reach_insert[OF reach_wq_start[of 2 1]], of "7::nat"] by simp

text \<open>
  The answers of one batch agree with the unique index. When the database reports duplicate
  keys as documented, the promise of the \<open>i\<close>-th document of the batch resolves with
  \<open>duplicate: true\<close> exactly when its key was stored before the batch or occurs earlier in it,
  with \<open>duplicate: false\<close> otherwise, and is never rejected.
\<close>

theorem settle_batch_duplicates:
  assumes "reports_duplicates key stored (map fst batch) errors"
  shows "settle_batch errors batch =
    map (\<lambda>i. (snd (batch ! i), Resolved (key_taken key stored (map fst batch) i))) [0..<length batch]"
proof (rule nth_equalityI)
  show "length (settle_batch errors batch) = length (map (\<lambda>i. (snd (batch ! i),
      Resolved (key_taken key stored (map fst batch) i))) [0..<length batch])"
    by (simp add: settle_batch_def)
  fix i assume "i < length (settle_batch errors batch)"
  then have i: "i < length batch" by (simp add: settle_batch_def)
  then show "settle_batch errors batch ! i = map (\<lambda>i. (snd (batch ! i),
      Resolved (key_taken key stored (map fst batch) i))) [0..<length batch] ! i"
    using item_outcome_duplicates[OF assms, of i] by (simp add: settle_batch_def nth_enumerate_eq)
qed

theorem settle_batch_duplicates_witness:
  "settle_batch [\<lparr>we_index = Some 0, we_code = Some 11000, we_errmsg = None\<rparr>,
                 \<lparr>we_index = Some 2, we_code = Some 11000, we_errmsg = None\<rparr>]
     [(5 :: nat, 0), (6, 1), (6, 2)] = [(0, Resolved True), (1, Resolved False), (2, Resolved True)]"
proof -
  let ?errors = "[\<lparr>we_index = Some 0, we_code = Some 11000, we_errmsg = None\<rparr>,
                 \<lparr>we_index = Some 2, we_code = Some 11000, we_errmsg = None\<rparr>]"
  let ?batch = "[(5, 0), (6, 1), (6, 2)] :: (nat \<times> promise) list"
  have "reports_duplicates id {5} (map fst ?batch) ?errors"
    by (simp add: reports_duplicates_def key_taken_def DUPLICATE_KEY_def upt_rec[of 0] upt_rec[of 1] upt_rec[of 2])
  from settle_batch_duplicates[OF this] show ?thesis
    by (simp add: key_taken_def upt_rec[of 0] upt_rec[of 1] upt_rec[of 2])
qed

end
