(* ===== verification/Gzip_Format.thy ===== *)
theory Gzip_Format
  imports Utf8
begin

text \<open>
  The wire format of \<open>src/api/gzipFeed.js\<close>: CRC-32 as \<open>zlib.crc32\<close> computes it, the
  constant header and closing block, and, as the specification, a reader of one gzip member.
  The deflate compressor itself is zlib's and a parameter: a state, and an operation that
  writes a chunk and flushes to a byte boundary (\<open>Z_SYNC_FLUSH\<close>), or fails.
\<close>

unbundle bit_operations_syntax

section \<open>CRC-32\<close>

definition crc_bit :: "32 word \<Rightarrow> 32 word" where
  "crc_bit c = (if bit c 0 then drop_bit 1 c XOR 0xEDB88320 else drop_bit 1 c)"

definition crc_byte :: "32 word \<Rightarrow> byte \<Rightarrow> 32 word" where
  "crc_byte c b = (crc_bit ^^ 8) (c XOR ucast b)"

text \<open>\<open>zlib.crc32(data, value)\<close>.\<close>

definition crc32 :: "byte list \<Rightarrow> 32 word \<Rightarrow> 32 word" where
  "crc32 data value = NOT (foldl crc_byte (NOT value) data)"

lemma crc32_Nil [simp]: "crc32 [] v = v"
  by (simp add: crc32_def)

text \<open>The checksum of a concatenation, taken piece by piece.\<close>

lemma crc32_append: "crc32 (a @ b) v = crc32 b (crc32 a v)"
  by (simp add: crc32_def)

definition le32 :: "32 word \<Rightarrow> byte list" where
  "le32 w = [ucast w, ucast (drop_bit 8 w), ucast (drop_bit 16 w), ucast (drop_bit 24 w)]"

lemma length_le32 [simp]: "length (le32 w) = 4"
  by (simp add: le32_def)

lemma le32_inject: "le32 v = le32 w \<Longrightarrow> v = w"
proof (rule bit_word_eqI)
  fix n assume eq: "le32 v = le32 w" and n: "n < LENGTH(32)"
  have "bit (ucast (drop_bit k v) :: byte) m = bit (ucast (drop_bit k w) :: byte) m"
    if "k \<in> {0, 8, 16, 24}" for k m
    using eq that by (auto simp: le32_def)
  then have b: "bit v (k + m) = bit w (k + m)" if "k \<in> {0, 8, 16, 24}" "m < 8" for k m
    using that by (auto simp: bit_ucast_iff bit_drop_bit_eq)
  have "n = (n div 8) * 8 + n mod 8" by simp
  moreover have "n div 8 < 4" using n by simp
  then have "(n div 8) * 8 \<in> {0, 8, 16, 24}" by auto
  ultimately show "bit v n = bit w n" using b[of "(n div 8) * 8" "n mod 8"] by simp
qed

section \<open>The constant parts\<close>

definition GZIP_HEADER :: "byte list" where
  "GZIP_HEADER = [0x1f, 0x8b, 0x08, 0x00, 0, 0, 0, 0, 0x00, 0xff]"

definition CLOSING_BLOCK :: "byte list" where
  "CLOSING_BLOCK = [0x01, 0x01, 0x00, 0xfe, 0xff, 0x5d]"

definition CLOSING_BYTE :: "byte list" where
  "CLOSING_BYTE = utf8 (js '']'')"

definition GZIP_TRAILER_BYTES :: nat where
  "GZIP_TRAILER_BYTES = 8"

definition DEFAULT_LEVEL :: nat where
  "DEFAULT_LEVEL = 6"

definition INITIAL_OUTPUT_BYTES :: nat where
  "INITIAL_OUTPUT_BYTES = 65536"

definition REBUILD_CHUNK :: nat where
  "REBUILD_CHUNK = 256"

lemma CLOSING_BYTE_eq: "CLOSING_BYTE = [0x5d]"
  by (simp add: CLOSING_BYTE_def utf8_def utf8_nats_def single_point_def is_high_def is_low_def
      utf8_point_def of_char_Char)

text \<open>A stored block of deflate (RFC 1951, 3.2.4) that starts on a byte boundary.\<close>

definition stored_block :: "bool \<Rightarrow> byte list \<Rightarrow> byte list" where
  "stored_block final data =
     (let n = of_nat (length data) :: 16 word
      in (if final then 1 else 0) # ucast n # ucast (drop_bit 8 n)
           # ucast (NOT n) # ucast (drop_bit 8 (NOT n)) # data)"

lemma closing_is_stored: "CLOSING_BLOCK = stored_block True CLOSING_BYTE"
  by (simp add: CLOSING_BLOCK_def stored_block_def CLOSING_BYTE_eq)

section \<open>The compressor, a parameter\<close>

record 'z deflater =
  df_start :: 'z
  df_flush :: "'z \<Rightarrow> byte list \<Rightarrow> ('z \<times> byte list list) option"

fun df_run :: "'z deflater \<Rightarrow> 'z \<Rightarrow> byte list list \<Rightarrow> ('z \<times> byte list list) option" where
  "df_run df z [] = Some (z, [])"
| "df_run df z (c # cs) =
     (case df_flush df z c of
        None \<Rightarrow> None
      | Some (z', out) \<Rightarrow>
          (case df_run df z' cs of None \<Rightarrow> None | Some (z'', outs) \<Rightarrow> Some (z'', out @ outs)))"

text \<open>
  What zlib documents of it: after flushing, the emitted bytes are whole non-final blocks up to
  a byte boundary, so that a stored final block can follow, and inflating them gives the chunks
  written so far followed by the data of that block.
\<close>

definition deflate_law :: "'z deflater \<Rightarrow> (byte list \<Rightarrow> (byte list \<times> byte list) option) \<Rightarrow> bool" where
  "deflate_law df inflate \<longleftrightarrow>
     (\<forall>cs z outs data rest. df_run df (df_start df) cs = Some (z, outs) \<longrightarrow> length data < 65536 \<longrightarrow>
        inflate (concat outs @ stored_block True data @ rest) = Some (concat cs @ data, rest))"

lemma df_run_snoc:
  "df_run df z cs = Some (z1, outs) \<Longrightarrow> df_flush df z1 c = Some (z2, out) \<Longrightarrow>
   df_run df z (cs @ [c]) = Some (z2, outs @ out)"
  by (induction df z cs arbitrary: outs rule: df_run.induct) (auto split: option.splits)

text \<open>A reader of one gzip member without optional fields (RFC 1952).\<close>

definition gunzip :: "(byte list \<Rightarrow> (byte list \<times> byte list) option) \<Rightarrow> byte list \<Rightarrow> byte list option" where
  "gunzip inflate bs =
     (if take 4 bs = [0x1f, 0x8b, 0x08, 0x00] \<and> 10 \<le> length bs then
        (case inflate (drop 10 bs) of
           None \<Rightarrow> None
         | Some (plain, trailer) \<Rightarrow>
             if trailer = le32 (crc32 plain 0) @ le32 (of_nat (length plain)) then Some plain else None)
      else None)"

section \<open>A compressor that only stores\<close>

text \<open>One stored block per byte: an instance of the law, for closed examples.\<close>

definition storing_df :: "unit deflater" where
  "storing_df = \<lparr>df_start = (), df_flush = (\<lambda>_ c. Some ((), [concat (map (\<lambda>b. stored_block False [b]) c)]))\<rparr>"

fun storing_inflate :: "byte list \<Rightarrow> (byte list \<times> byte list) option" where
  "storing_inflate (h # l0 # l1 # n0 # n1 # bs) =
     (let n = unat l0 + 256 * unat l1
      in if n0 \<noteq> NOT l0 \<or> n1 \<noteq> NOT l1 \<or> length bs < n then None
         else if h = 1 then Some (take n bs, drop n bs)
         else if h = 0 then map_option (apfst ((@) (take n bs))) (storing_inflate (drop n bs))
         else None)"
| "storing_inflate _ = None"

lemma storing_inflate_bytes:
  "storing_inflate (concat (map (\<lambda>b. stored_block False [b]) c) @ r)
     = map_option (apfst ((@) c)) (storing_inflate r)"
proof (induction c)
  case Nil
  then show ?case by (cases "storing_inflate r") auto
next
  case (Cons b c)
  then show ?case
    by (cases "storing_inflate r") (auto simp: stored_block_def)
qed

lemma storing_inflate_final:
  assumes "length data < 65536"
  shows "storing_inflate (stored_block True data @ r) = Some (data, r)"
proof -
  define n :: "16 word" where "n = of_nat (length data)"
  have "unat (ucast n :: byte) + 256 * unat (ucast (drop_bit 8 n) :: byte) = unat n"
  proof -
    have "unat (ucast n :: byte) = unat n mod 256"
      by (simp add: unsigned_ucast_eq take_bit_eq_mod)
    moreover have "unat (ucast (drop_bit 8 n) :: byte) = unat n div 256"
      using unat_unit_less[of n]
      by (simp add: unsigned_ucast_eq take_bit_eq_mod unsigned_drop_bit_eq drop_bit_eq_div
          less_mult_imp_div_less unat_div)
    ultimately show ?thesis by simp
  qed
  moreover have "unat n = length data"
    using assms unfolding n_def unsigned_of_nat by (simp add: take_bit_nat_eq_self)
  moreover have "(ucast (NOT n) :: byte) = NOT (ucast n)"
    "(ucast (drop_bit 8 (NOT n)) :: byte) = NOT (ucast (drop_bit 8 n))"
    by (rule bit_word_eqI, simp add: bit_ucast_iff bit_not_iff bit_drop_bit_eq)+
  ultimately show ?thesis
    by (simp add: stored_block_def Let_def n_def[symmetric])
qed

lemma storing_law: "deflate_law storing_df storing_inflate"
proof -
  have "storing_inflate (concat outs @ r) = map_option (apfst ((@) (concat cs))) (storing_inflate r)"
    if "df_run storing_df z cs = Some (z', outs)" for z cs z' outs r
    using that
  proof (induction cs arbitrary: z outs)
    case Nil
    then show ?case by (cases "storing_inflate r") auto
  next
    case (Cons c cs)
    from Cons.prems obtain outs' where o: "df_run storing_df () cs = Some (z', outs')"
      "outs = concat (map (\<lambda>b. stored_block False [b]) c) # outs'"
      by (auto simp: storing_df_def split: option.splits)
    show ?case
      unfolding o(2) using Cons.IH[OF o(1)]
      by (cases "storing_inflate r") (auto simp: storing_inflate_bytes apfst_def map_prod_def case_prod_beta)
  qed
  then show ?thesis
    by (auto simp: deflate_law_def storing_inflate_final)
qed

end
