(* ===== verification/Room_Compressor.thy ===== *)
theory Room_Compressor
  imports Js_Strings
begin

text \<open>
  The interface between the store of the room (\<open>feedStore.js\<close>) and the compressor it feeds
  (\<open>gzipFeed.js\<close>), as a locale. The store tells the compressor of every new entry and hands it
  the whole retained room when it has dropped the oldest entries; the compressor works through
  a replacement in its own turns of the event loop. \<open>holds s live target\<close>: readers are
  answered from \<open>live\<close> now, and from \<open>target\<close> (with later arrivals) once the replacement is
  complete. The client's lemmas say that the texts stay the entries of a JSON array whose
  suffix is the room.
\<close>

section \<open>The room as texts\<close>

text \<open>\<open>entries.map((entry, i) => (i === 0 ? `[${entry}` : `,${entry}`))\<close>.\<close>

definition framed :: "bool \<Rightarrow> jsstr \<Rightarrow> jsstr" where
  "framed first json = (if first then 0x5B # json else 0x2C # json)"

fun frame :: "jsstr list \<Rightarrow> jsstr list" where
  "frame [] = []"
| "frame (e # es) = framed True e # map (framed False) es"

lemma frame_snoc: "frame (es @ [e]) = frame es @ [framed (es = []) e]"
  by (cases es) auto

lemma length_frame [simp]: "length (frame es) = length es"
  by (cases es) auto

text \<open>The texts of a room that is not empty, joined, are the array without its closing bracket.\<close>

lemma concat_frame: "es \<noteq> [] \<Longrightarrow> concat (frame es) = 0x5B # join [0x2C] es"
proof (cases es)
  case (Cons e es')
  have "framed False = (\<lambda>y. [0x2C] @ y)"
    by (rule ext) (simp add: framed_def)
  then show ?thesis using Cons by (simp add: framed_def join_Cons)
qed simp

section \<open>The contract\<close>

locale room_compressor =
  fixes append :: "jsstr \<Rightarrow> 's \<Rightarrow> 's"
    and rebuild :: "jsstr list \<Rightarrow> 's \<Rightarrow> 's"
    and turn :: "'s \<Rightarrow> 's"
    and holds :: "'s \<Rightarrow> jsstr list \<Rightarrow> jsstr list \<Rightarrow> bool"
  assumes append_holds: "holds s live target \<Longrightarrow> holds (append t s) (live @ [t]) (target @ [t])"
    and rebuild_holds: "holds s live target \<Longrightarrow> holds (rebuild ts s) live ts"
    and turn_holds: "holds s live target \<Longrightarrow> holds (turn s) live target \<or> holds (turn s) target target"
begin

text \<open>An entry added to the room: \<open>old\<close> are dropped entries that the live stream still shows.\<close>

lemma window_push:
  assumes "holds s (frame (old @ es)) (frame es)" and "es = [] \<Longrightarrow> old = []"
  shows "holds (append (framed (es = []) e) s) (frame (old @ es @ [e])) (frame (es @ [e]))"
proof -
  have "frame ((old @ es) @ [e]) = frame (old @ es) @ [framed (es = []) e]"
    using assms(2) by (subst frame_snoc) (cases "es = []"; simp)
  then show ?thesis
    using append_holds[OF assms(1), of "framed (es = []) e"] by (simp add: frame_snoc)
qed

lemma window_trim:
  assumes "holds s (frame (old @ es)) (frame es)"
  shows "holds (rebuild (frame (drop k es)) s) (frame ((old @ take k es) @ drop k es)) (frame (drop k es))"
  using rebuild_holds[OF assms] by simp

lemma window_turn:
  assumes "holds s (frame (old @ es)) (frame es)"
  shows "\<exists>old'. holds (turn s) (frame (old' @ es)) (frame es) \<and> (old' = old \<or> old' = [])"
  using turn_holds[OF assms] by (metis append_Nil)

end

end
