(* ===== verification/GzipFeed.thy ===== *)
theory GzipFeed
  imports Gzip_Format Room_Compressor
begin

text \<open>
  \<open>src/api/gzipFeed.js\<close>: the room compressed as it is written. \<open>generation\<close> is the class
  \<open>Generation\<close> (one deflate stream and what describes its input), \<open>gzip_feed\<close> the class
  \<open>GzipFeed\<close> with its incremental rebuild. A generation's output buffer keeps its capacity
  and the bytes written so far; the bytes behind them are uninitialised and never read. The
  two halves of an asynchronous flush are two operations, so that everything the event loop
  may run in between is a sequence of operations.
\<close>

section \<open>Generation\<close>

record buffer =
  buf_size :: nat
  buf_bytes :: "byte list"

record 'z generation =
  g_stream :: "'z option"
  g_output :: "buffer option"
  g_compressedBytes :: nat
  g_crc :: "32 word"
  g_plainBytes :: nat
  g_count :: nat
  g_pending :: "byte list list"
  g_flushing :: "byte list option"
  g_failed :: bool

definition new_Generation :: "'z deflater \<Rightarrow> 'z generation" where
  "new_Generation df =
     \<lparr>g_stream = Some (df_start df), g_output = Some \<lparr>buf_size = INITIAL_OUTPUT_BYTES, buf_bytes = []\<rparr>,
      g_compressedBytes = 0, g_crc = 0, g_plainBytes = 0, g_count = 0,
      g_pending = [], g_flushing = None, g_failed = False\<rparr>"

text \<open>\<open>while (size < needed) size *= 2\<close>. A size of zero would never get there; the constructor
  starts from 64 KiB, and \<open>collect_capacity\<close> below keeps the size positive.\<close>

function grow_size :: "nat \<Rightarrow> nat \<Rightarrow> nat" where
  "grow_size sz needed = (if sz < needed \<and> 0 < sz then grow_size (sz * 2) needed else sz)"
  by pat_completeness auto
termination
  by (relation "measure (\<lambda>(sz, needed). needed - sz)") auto

declare grow_size.simps [simp del]

text \<open>\<open>chunk.copy(target, start)\<close> stops at the end of the target.\<close>

definition buf_copy :: "byte list \<Rightarrow> nat \<Rightarrow> buffer \<Rightarrow> buffer" where
  "buf_copy chunk start buf =
     buf\<lparr>buf_bytes := take (buf_size buf) (take start (buf_bytes buf) @ chunk)\<rparr>"

definition collect :: "byte list \<Rightarrow> 'z generation \<Rightarrow> 'z generation" where
  "collect chunk g =
     (case g_output g of
        None \<Rightarrow> g
      | Some out \<Rightarrow>
          (let needed = g_compressedBytes g + length chunk;
               out1 = (if buf_size out < needed
                       then buf_copy (take (g_compressedBytes g) (buf_bytes out)) 0
                              \<lparr>buf_size = grow_size (buf_size out * 2) needed, buf_bytes = []\<rparr>
                       else out)
           in g\<lparr>g_output := Some (buf_copy chunk (g_compressedBytes g) out1),
                g_compressedBytes := needed\<rparr>))"

definition g_append :: "jsstr \<Rightarrow> 'z generation \<Rightarrow> 'z generation" where
  "g_append text g =
     (let buffer = utf8 text
      in g\<lparr>g_pending := g_pending g @ [buffer], g_crc := crc32 buffer (g_crc g),
           g_plainBytes := g_plainBytes g + length buffer, g_count := Suc (g_count g)\<rparr>)"

text \<open>One turn of the loop of \<open>flush\<close>: what it does before it waits, and what the compressor
  has done when it goes on. A destroyed stream emits nothing.\<close>

definition flush_begin :: "'z generation \<Rightarrow> 'z generation" where
  "flush_begin g =
     (if g_failed g \<or> g_flushing g \<noteq> None \<or> g_pending g = [] then g
      else g\<lparr>g_pending := [], g_flushing := Some (concat (g_pending g))\<rparr>)"

definition flush_end :: "'z deflater \<Rightarrow> 'z generation \<Rightarrow> 'z generation" where
  "flush_end df g =
     (case g_flushing g of
        None \<Rightarrow> g
      | Some chunk \<Rightarrow>
          (case g_stream g of
             None \<Rightarrow> g\<lparr>g_flushing := None\<rparr>
           | Some z \<Rightarrow>
               (case df_flush df z chunk of
                  None \<Rightarrow> g\<lparr>g_failed := True, g_flushing := None\<rparr>
                | Some (z', out) \<Rightarrow> fold collect out (g\<lparr>g_stream := Some z', g_flushing := None\<rparr>))))"

lemma collect_frame [frame_simps, simp]:
  "g_pending (collect c g) = g_pending g" "g_flushing (collect c g) = g_flushing g"
  "g_failed (collect c g) = g_failed g" "g_stream (collect c g) = g_stream g"
  "g_crc (collect c g) = g_crc g" "g_plainBytes (collect c g) = g_plainBytes g"
  "g_count (collect c g) = g_count g"
  by (auto simp: collect_def Let_def split: option.splits)

lemma fold_collect_frame [frame_simps, simp]:
  "g_pending (fold collect cs g) = g_pending g" "g_flushing (fold collect cs g) = g_flushing g"
  "g_failed (fold collect cs g) = g_failed g" "g_stream (fold collect cs g) = g_stream g"
  "g_crc (fold collect cs g) = g_crc g" "g_plainBytes (fold collect cs g) = g_plainBytes g"
  "g_count (fold collect cs g) = g_count g"
  by (induction cs arbitrary: g) auto

lemma flush_end_frame [frame_simps, simp]:
  "g_pending (flush_end df g) = g_pending g" "g_flushing (flush_end df g) = None"
  "g_crc (flush_end df g) = g_crc g" "g_plainBytes (flush_end df g) = g_plainBytes g"
  "g_count (flush_end df g) = g_count g"
  by (auto simp: flush_end_def split: option.splits)

text \<open>\<open>flush\<close> when no other callback runs while it waits.\<close>

function flush_loop :: "'z deflater \<Rightarrow> 'z generation \<Rightarrow> 'z generation" where
  "flush_loop df g =
     (if \<not> g_failed g \<and> (g_pending g \<noteq> [] \<or> g_flushing g \<noteq> None)
      then flush_loop df (if g_flushing g \<noteq> None then flush_end df g else flush_end df (flush_begin g))
      else g)"
  by pat_completeness auto
termination
  by (relation "measure (\<lambda>(df, g). (if g_pending g \<noteq> [] then 1 else 0) + (if g_flushing g \<noteq> None then 1 else 0))")
     (auto simp: flush_begin_def)

declare flush_loop.simps [simp del]

record body_chunks =
  bc_chunks :: "byte list list"
  bc_length :: nat

definition g_body :: "'z generation \<Rightarrow> js_error + body_chunks" where
  "g_body g =
     (case g_output g of
        None \<Rightarrow> Inl TypeError
      | Some out \<Rightarrow>
          (let trailer = le32 (crc32 CLOSING_BYTE (g_crc g))
                          @ le32 (of_nat (g_plainBytes g + length CLOSING_BYTE))
           in Inr \<lparr>bc_chunks = [GZIP_HEADER, take (g_compressedBytes g) (buf_bytes out), CLOSING_BLOCK, trailer],
                   bc_length = length GZIP_HEADER + g_compressedBytes g + length CLOSING_BLOCK
                                + GZIP_TRAILER_BYTES\<rparr>))"

definition g_destroy :: "'z generation \<Rightarrow> 'z generation" where
  "g_destroy g = (if g_stream g = None then g else g\<lparr>g_stream := None, g_output := None\<rparr>)"

section \<open>The output buffer\<close>

lemma grow_size_ge: "0 < sz \<Longrightarrow> needed \<le> grow_size sz needed \<and> sz \<le> grow_size sz needed"
proof (induction sz needed rule: grow_size.induct)
  case (1 sz needed)
  show ?case
  proof (cases "sz < needed")
    case True
    with 1 show ?thesis by (subst (1 2) grow_size.simps) auto
  next
    case False
    then show ?thesis by (subst (1 2) grow_size.simps) auto
  qed
qed

text \<open>The buffer holds exactly the emitted bytes, and has room for them.\<close>

definition holds_output :: "byte list \<Rightarrow> 'z generation \<Rightarrow> bool" where
  "holds_output bs g \<longleftrightarrow>
     (\<exists>out. g_output g = Some out \<and> buf_bytes out = bs \<and> length bs = g_compressedBytes g
        \<and> length bs \<le> buf_size out \<and> 0 < buf_size out)"

lemma collect_capacity:
  assumes "holds_output bs g"
  shows "holds_output (bs @ chunk) (collect chunk g)"
proof -
  obtain out where o: "g_output g = Some out" "buf_bytes out = bs" "length bs = g_compressedBytes g"
    "length bs \<le> buf_size out" "0 < buf_size out"
    using assms by (auto simp: holds_output_def)
  let ?needed = "g_compressedBytes g + length chunk"
  have "?needed \<le> grow_size (buf_size out * 2) ?needed" "buf_size out * 2 \<le> grow_size (buf_size out * 2) ?needed"
    using grow_size_ge[of "buf_size out * 2" ?needed] o by auto
  with o show ?thesis
    by (auto simp: holds_output_def collect_def Let_def buf_copy_def)
qed

lemma fold_collect_output:
  "holds_output bs g \<Longrightarrow> holds_output (bs @ concat cs) (fold collect cs g)"
proof (induction cs arbitrary: bs g)
  case (Cons c cs)
  then show ?case using collect_capacity[of bs g c] by fastforce
qed simp

section \<open>What a generation represents\<close>

text \<open>
  \<open>gen_rep df g ts\<close>: the generation has taken in exactly the texts \<open>ts\<close>. What the
  compressor has consumed, what it is consuming and what is still queued make up their bytes;
  checksum, length and count describe all of them.
\<close>

definition gen_rep :: "'z deflater \<Rightarrow> 'z generation \<Rightarrow> jsstr list \<Rightarrow> bool" where
  "gen_rep df g ts \<longleftrightarrow>
     (\<exists>cs z outs. df_run df (df_start df) cs = Some (z, outs) \<and> g_stream g = Some z
        \<and> holds_output (concat outs) g
        \<and> concat cs @ (case g_flushing g of None \<Rightarrow> [] | Some c \<Rightarrow> c) @ concat (g_pending g)
            = concat (map utf8 ts))
     \<and> g_crc g = crc32 (concat (map utf8 ts)) 0
     \<and> g_plainBytes g = length (concat (map utf8 ts))
     \<and> g_count g = length ts \<and> \<not> g_failed g"

lemma gen_rep_new: "gen_rep df (new_Generation df) []"
  by (auto simp: gen_rep_def new_Generation_def holds_output_def INITIAL_OUTPUT_BYTES_def
      intro: exI[of _ "[]"])

lemma holds_output_cong:
  "g_output g' = g_output g \<Longrightarrow> g_compressedBytes g' = g_compressedBytes g \<Longrightarrow>
   holds_output bs g' = holds_output bs g"
  by (simp add: holds_output_def)

lemma gen_rep_append: "gen_rep df g ts \<Longrightarrow> gen_rep df (g_append t g) (ts @ [t])"
proof -
  assume a: "gen_rep df g ts"
  have o: "holds_output bs (g_append t g) = holds_output bs g" for bs
    by (rule holds_output_cong) (simp_all add: g_append_def Let_def)
  obtain cs z outs where c: "df_run df (df_start df) cs = Some (z, outs)" "g_stream g = Some z"
    "holds_output (concat outs) g"
    "concat cs @ (case g_flushing g of None \<Rightarrow> [] | Some c \<Rightarrow> c) @ concat (g_pending g) = concat (map utf8 ts)"
    using a by (auto simp: gen_rep_def)
  have e: "concat cs @ (case g_flushing g of None \<Rightarrow> [] | Some c \<Rightarrow> c) @ concat (g_pending g @ [utf8 t])
      = concat (map utf8 (ts @ [t]))"
    using c(4) by simp
  show ?thesis
    unfolding gen_rep_def o
    by (intro conjI exI[of _ cs] exI[of _ z] exI[of _ outs])
       (use a c e in \<open>auto simp: g_append_def Let_def gen_rep_def crc32_append\<close>)
qed

lemma gen_rep_flush_begin:
  assumes a: "gen_rep df g ts"
  shows "gen_rep df (flush_begin g) ts"
proof (cases "g_failed g \<or> g_flushing g \<noteq> None \<or> g_pending g = []")
  case True
  then show ?thesis using a by (simp add: flush_begin_def)
next
  case False
  have o: "holds_output bs (flush_begin g) = holds_output bs g" for bs
    by (rule holds_output_cong) (simp_all add: flush_begin_def)
  obtain cs z outs where c: "df_run df (df_start df) cs = Some (z, outs)" "g_stream g = Some z"
    "holds_output (concat outs) g" "concat cs @ concat (g_pending g) = concat (map utf8 ts)"
    using a False by (auto simp: gen_rep_def)
  show ?thesis
    unfolding gen_rep_def o
    by (intro conjI exI[of _ cs] exI[of _ z] exI[of _ outs])
       (use a c False in \<open>auto simp: flush_begin_def gen_rep_def\<close>)
qed

lemma gen_rep_flush_end:
  assumes "gen_rep df g ts" and "\<not> g_failed (flush_end df g)"
  shows "gen_rep df (flush_end df g) ts"
proof (cases "g_flushing g")
  case None
  then show ?thesis using assms by (simp add: flush_end_def)
next
  case (Some chunk)
  obtain cs z outs where c: "df_run df (df_start df) cs = Some (z, outs)" "g_stream g = Some z"
    "holds_output (concat outs) g" "concat cs @ chunk @ concat (g_pending g) = concat (map utf8 ts)"
    using assms(1) Some by (auto simp: gen_rep_def)
  obtain z' out where f: "df_flush df z chunk = Some (z', out)"
    using assms(2) Some c(2) by (cases "df_flush df z chunk") (auto simp: flush_end_def)
  let ?g1 = "g\<lparr>g_stream := Some z', g_flushing := None\<rparr>"
  have g': "flush_end df g = fold collect out ?g1"
    using Some c(2) f by (simp add: flush_end_def)
  have "holds_output (concat outs) ?g1" using c(3) by (simp add: holds_output_def)
  then have h: "holds_output (concat (outs @ out)) (flush_end df g)"
    unfolding g' using fold_collect_output by fastforce
  have e: "concat (cs @ [chunk]) @ concat (g_pending g) = concat (map utf8 ts)"
    using c(4) by simp
  have s: "g_stream (flush_end df g) = Some z'" unfolding g' by simp
  show ?thesis
    unfolding gen_rep_def
    by (intro conjI exI[of _ "cs @ [chunk]"] exI[of _ z'] exI[of _ "outs @ out"])
       (use df_run_snoc[OF c(1) f] h e s assms in \<open>auto simp: gen_rep_def\<close>)
qed

lemma flush_loop_done:
  "g_failed (flush_loop df g) \<or> (g_pending (flush_loop df g) = [] \<and> g_flushing (flush_loop df g) = None)"
proof (induction df g rule: flush_loop.induct)
  case (1 df g)
  show ?case
  proof (cases "\<not> g_failed g \<and> (g_pending g \<noteq> [] \<or> g_flushing g \<noteq> None)")
    case True
    with 1 show ?thesis by (subst (1 2 3) flush_loop.simps) simp
  next
    case False
    then show ?thesis by (subst (1 2 3) flush_loop.simps) auto
  qed
qed

lemma gen_rep_flush_loop:
  "gen_rep df g ts \<Longrightarrow> \<not> g_failed (flush_loop df g) \<Longrightarrow> gen_rep df (flush_loop df g) ts"
proof (induction df g rule: flush_loop.induct)
  case (1 df g)
  show ?case
  proof (cases "\<not> g_failed g \<and> (g_pending g \<noteq> [] \<or> g_flushing g \<noteq> None)")
    case True
    define g1 where "g1 = (if g_flushing g \<noteq> None then flush_end df g else flush_end df (flush_begin g))"
    have l: "flush_loop df g = flush_loop df g1"
      using True by (subst flush_loop.simps) (simp add: g1_def)
    have "g_failed x \<Longrightarrow> flush_loop df x = x" for x :: "'a generation"
      by (subst flush_loop.simps) simp
    then have nf: "\<not> g_failed g1" using "1.prems"(2) l by metis
    then have "gen_rep df g1 ts"
      using "1.prems"(1) by (auto simp: g1_def intro: gen_rep_flush_end gen_rep_flush_begin split: if_splits)
    with "1.IH"[OF True] "1.prems"(2) l show ?thesis by (simp add: g1_def)
  next
    case False
    then have "flush_loop df g = g" by (subst flush_loop.simps) auto
    then show ?thesis using "1.prems" by simp
  qed
qed

lemma flush_loop_frame [frame_simps, simp]:
  "g_count (flush_loop df g) = g_count g \<and> g_plainBytes (flush_loop df g) = g_plainBytes g"
proof (induction df g rule: flush_loop.induct)
  case (1 df g)
  have "g_count (flush_begin g) = g_count g" "g_plainBytes (flush_begin g) = g_plainBytes g"
    by (simp_all add: flush_begin_def)
  with 1 show ?case by (subst (1 2) flush_loop.simps) auto
qed

text \<open>A generation with nothing queued answers with a gzip member of exactly its texts and "]".\<close>

lemma gen_rep_body:
  assumes law: "deflate_law df inflate" and rep: "gen_rep df g ts"
    and flushed: "g_pending g = []" "g_flushing g = None"
  shows "\<exists>b. g_body g = Inr b \<and> bc_length b = length (concat (bc_chunks b))
    \<and> gunzip inflate (concat (bc_chunks b)) = Some (concat (map utf8 ts) @ CLOSING_BYTE)"
proof -
  let ?p = "concat (map utf8 ts)"
  obtain cs z outs where c: "df_run df (df_start df) cs = Some (z, outs)"
    "holds_output (concat outs) g" "concat cs = ?p"
    using rep flushed by (auto simp: gen_rep_def)
  obtain out where o: "g_output g = Some out" "buf_bytes out = concat outs"
    "length (concat outs) = g_compressedBytes g"
    using c(2) by (auto simp: holds_output_def)
  define trailer where "trailer = le32 (crc32 (?p @ CLOSING_BYTE) 0) @ le32 (of_nat (length (?p @ CLOSING_BYTE)))"
  let ?b = "\<lparr>bc_chunks = [GZIP_HEADER, concat outs, CLOSING_BLOCK, trailer],
      bc_length = length GZIP_HEADER + g_compressedBytes g + length CLOSING_BLOCK + GZIP_TRAILER_BYTES\<rparr>"
  have body: "g_body g = Inr ?b"
    using rep by (simp add: g_body_def o gen_rep_def trailer_def crc32_append flip: o(3))
  have len: "bc_length ?b = length (concat (bc_chunks ?b))"
    using o(3) by (simp add: trailer_def GZIP_TRAILER_BYTES_def length_concat)
  have "inflate (concat outs @ stored_block True CLOSING_BYTE @ trailer) = Some (concat cs @ CLOSING_BYTE, trailer)"
    using law c(1) by (simp add: deflate_law_def CLOSING_BYTE_eq)
  then have "gunzip inflate (concat (bc_chunks ?b)) = Some (?p @ CLOSING_BYTE)"
    by (simp add: gunzip_def GZIP_HEADER_def closing_is_stored c(3) trailer_def)
  with body len show ?thesis by blast
qed

section \<open>GzipFeed\<close>

text \<open>The class, and \<open>gz_immediates\<close>: how many callbacks given to \<open>setImmediate\<close> to run
  \<open>step\<close> are outstanding.\<close>

record 'z gzip_feed =
  gz_level :: nat
  gz_chunkSize :: nat
  gz_enabled :: bool
  gz_rebuilds :: nat
  gz_live :: "'z generation"
  gz_building :: "'z generation option"
  gz_carry :: "jsstr list option"
  gz_snapshot :: "jsstr list"
  gz_cursor :: nat
  gz_immediates :: nat

definition new_GzipFeed :: "'z deflater \<Rightarrow> nat \<Rightarrow> nat \<Rightarrow> 'z gzip_feed" where
  "new_GzipFeed df level chunkSize =
     \<lparr>gz_level = level, gz_chunkSize = chunkSize, gz_enabled = True, gz_rebuilds = 0,
      gz_live = new_Generation df, gz_building = None, gz_carry = None, gz_snapshot = [],
      gz_cursor = 0, gz_immediates = 0\<rparr>"

definition gz_count :: "'z gzip_feed \<Rightarrow> nat" where
  "gz_count s = g_count (gz_live s)"

definition gz_disable :: "'z gzip_feed \<Rightarrow> 'z gzip_feed" where
  "gz_disable s =
     s\<lparr>gz_enabled := False, gz_building := None, gz_snapshot := [], gz_carry := None\<rparr>"

definition gz_append :: "jsstr \<Rightarrow> 'z gzip_feed \<Rightarrow> 'z gzip_feed" where
  "gz_append text s =
     (if \<not> gz_enabled s then s
      else
        let s1 = s\<lparr>gz_live := g_append text (gz_live s),
                   gz_carry := map_option (\<lambda>c. c @ [text]) (gz_carry s)\<rparr>
        in if g_failed (gz_live s1) then gz_disable s1 else s1)"

definition gz_rebuild :: "'z deflater \<Rightarrow> jsstr list \<Rightarrow> 'z gzip_feed \<Rightarrow> 'z gzip_feed" where
  "gz_rebuild df texts s =
     (if \<not> gz_enabled s then s
      else s\<lparr>gz_rebuilds := Suc (gz_rebuilds s), gz_building := Some (new_Generation df),
             gz_snapshot := texts, gz_cursor := 0, gz_carry := Some [],
             gz_immediates := Suc (gz_immediates s)\<rparr>)"

text \<open>The generation that \<open>step\<close> has replaced is destroyed; readers that still wait on it hold
  \<open>g_destroy\<close> of it.\<close>

definition gz_step :: "'z gzip_feed \<Rightarrow> 'z gzip_feed" where
  "gz_step s =
     (case gz_building s of
        None \<Rightarrow> s
      | Some b \<Rightarrow>
          if \<not> gz_enabled s then s
          else
            let last = min (gz_cursor s + gz_chunkSize s) (length (gz_snapshot s));
                b1 = fold g_append (take (last - gz_cursor s) (drop (gz_cursor s) (gz_snapshot s))) b;
                s1 = s\<lparr>gz_building := Some b1, gz_cursor := last\<rparr>
            in if g_failed b1 then gz_disable s1
               else if last < length (gz_snapshot s) then s1\<lparr>gz_immediates := Suc (gz_immediates s1)\<rparr>
               else s1\<lparr>gz_live := fold g_append (case gz_carry s of None \<Rightarrow> [] | Some c \<Rightarrow> c) b1,
                       gz_building := None, gz_snapshot := [], gz_carry := None, gz_cursor := 0\<rparr>)"

text \<open>One outstanding immediate runs.\<close>

definition gz_turn :: "'z gzip_feed \<Rightarrow> 'z gzip_feed" where
  "gz_turn s =
     (if gz_immediates s = 0 then s else gz_step (s\<lparr>gz_immediates := gz_immediates s - 1\<rparr>))"

text \<open>\<open>body\<close>: the part before the flush is awaited picks the live generation; \<open>gz_body_resume\<close> is
  what follows, on the generation \<open>g\<close> picked then, as it is by now. \<open>gz_body\<close> is the whole call
  when no other callback runs in between.\<close>

definition gz_body_resume :: "'z generation \<Rightarrow> 'z gzip_feed \<Rightarrow> (js_error + body_chunks option) \<times> 'z gzip_feed" where
  "gz_body_resume g s =
     (if g_failed g then (Inr None, gz_disable s)
      else (case g_body g of Inl e \<Rightarrow> (Inl e, s) | Inr b \<Rightarrow> (Inr (Some b), s)))"

definition gz_body :: "'z deflater \<Rightarrow> 'z gzip_feed \<Rightarrow> (js_error + body_chunks option) \<times> 'z gzip_feed" where
  "gz_body df s =
     (if \<not> gz_enabled s then (Inr None, s)
      else let g = flush_loop df (gz_live s) in gz_body_resume g (s\<lparr>gz_live := g\<rparr>))"

record gz_stats =
  gs_enabled :: bool
  gs_entries :: nat
  gs_plainBytes :: nat
  gs_compressedBytes :: nat
  gs_ratio :: rat
  gs_rebuilds :: nat
  gs_rebuilding :: bool

definition gz_stats_of :: "'z gzip_feed \<Rightarrow> gz_stats" where
  "gz_stats_of s =
     \<lparr>gs_enabled = gz_enabled s, gs_entries = g_count (gz_live s), gs_plainBytes = g_plainBytes (gz_live s),
      gs_compressedBytes = g_compressedBytes (gz_live s),
      gs_ratio = (if g_compressedBytes (gz_live s) \<noteq> 0
                  then round_to (of_nat (g_plainBytes (gz_live s)) / of_nat (g_compressedBytes (gz_live s))) 2
                  else 0),
      gs_rebuilds = gz_rebuilds s, gs_rebuilding = (gz_building s \<noteq> None)\<rparr>"

definition gz_destroy :: "'z gzip_feed \<Rightarrow> 'z gzip_feed" where
  "gz_destroy s =
     s\<lparr>gz_enabled := False, gz_live := g_destroy (gz_live s), gz_building := None,
       gz_snapshot := [], gz_carry := None\<rparr>"

section \<open>What the feed holds\<close>

definition gen_ok :: "'z deflater \<Rightarrow> 'z generation \<Rightarrow> jsstr list \<Rightarrow> bool" where
  "gen_ok df g ts \<longleftrightarrow> g_failed g \<or> gen_rep df g ts"

definition gz_holds :: "'z deflater \<Rightarrow> 'z gzip_feed \<Rightarrow> jsstr list \<Rightarrow> jsstr list \<Rightarrow> bool" where
  "gz_holds df s live target \<longleftrightarrow>
     0 < gz_chunkSize s \<and>
     (gz_enabled s \<longrightarrow>
       gen_ok df (gz_live s) live \<and>
       (case gz_building s of
          None \<Rightarrow> gz_carry s = None \<and> target = live
        | Some b \<Rightarrow> 0 < gz_immediates s \<and> gz_cursor s \<le> length (gz_snapshot s)
            \<and> gen_ok df b (take (gz_cursor s) (gz_snapshot s))
            \<and> (\<exists>carry. gz_carry s = Some carry \<and> target = gz_snapshot s @ carry)))"

lemma gen_ok_append: "gen_ok df g ts \<Longrightarrow> gen_ok df (g_append t g) (ts @ [t])"
  by (auto simp: gen_ok_def gen_rep_append) (simp add: g_append_def Let_def)

lemma gen_ok_appends: "gen_ok df g ts \<Longrightarrow> gen_ok df (fold g_append us g) (ts @ us)"
proof (induction us arbitrary: g ts)
  case (Cons u us)
  from Cons.IH[OF gen_ok_append[OF Cons.prems]] show ?case by simp
qed simp

lemma gz_holds_new: "0 < c \<Longrightarrow> gz_holds df (new_GzipFeed df l c) [] []"
  by (simp add: gz_holds_def new_GzipFeed_def gen_ok_def gen_rep_new)

lemma gz_holds_disabled: "0 < gz_chunkSize s \<Longrightarrow> gz_holds df (gz_disable s) live target"
  by (simp add: gz_holds_def gz_disable_def)

lemma gz_holds_append:
  assumes "gz_holds df s live target"
  shows "gz_holds df (gz_append t s) (live @ [t]) (target @ [t])"
proof (cases "gz_enabled s")
  case False
  then show ?thesis using assms by (simp add: gz_holds_def gz_append_def)
next
  case True
  have c: "0 < gz_chunkSize s" using assms by (simp add: gz_holds_def)
  let ?s1 = "s\<lparr>gz_live := g_append t (gz_live s), gz_carry := map_option (\<lambda>c. c @ [t]) (gz_carry s)\<rparr>"
  have "gz_holds df ?s1 (live @ [t]) (target @ [t])"
    using assms True by (auto simp: gz_holds_def gen_ok_append split: option.splits)
  then show ?thesis
    using True c gz_holds_disabled[of ?s1] by (auto simp: gz_append_def Let_def)
qed

lemma gz_holds_rebuild:
  "gz_holds df s live target \<Longrightarrow> gz_holds df (gz_rebuild df ts s) live ts"
  by (auto simp: gz_holds_def gz_rebuild_def gen_ok_def gen_rep_new)

lemma gz_holds_turn:
  assumes h: "gz_holds df s live target"
  shows "gz_holds df (gz_turn s) live target \<or> gz_holds df (gz_turn s) target target"
proof (cases "gz_enabled s \<and> gz_immediates s \<noteq> 0 \<and> gz_building s \<noteq> None")
  case False
  then have "gz_turn s = s \<or> (gz_turn s = s\<lparr>gz_immediates := gz_immediates s - 1\<rparr>
      \<and> (\<not> gz_enabled s \<or> gz_building s = None))"
    by (auto simp: gz_turn_def gz_step_def split: option.splits)
  then show ?thesis using h by (auto simp: gz_holds_def split: option.splits)
next
  case True
  obtain b carry where b: "gz_building s = Some b" "gz_carry s = Some carry"
    "target = gz_snapshot s @ carry" "gz_cursor s \<le> length (gz_snapshot s)"
    "gen_ok df b (take (gz_cursor s) (gz_snapshot s))" "gen_ok df (gz_live s) live"
    using h True by (auto simp: gz_holds_def split: option.splits)
  have c: "0 < gz_chunkSize s" using h by (simp add: gz_holds_def)
  define last where "last = min (gz_cursor s + gz_chunkSize s) (length (gz_snapshot s))"
  define b1 where "b1 = fold g_append (take (last - gz_cursor s) (drop (gz_cursor s) (gz_snapshot s))) b"
  have "take (gz_cursor s) (gz_snapshot s) @ take (last - gz_cursor s) (drop (gz_cursor s) (gz_snapshot s))
      = take last (gz_snapshot s)"
    using b(4) by (simp add: last_def take_add[symmetric] min_def)
  then have b1: "gen_ok df b1 (take last (gz_snapshot s))"
    using gen_ok_appends[OF b(5)] unfolding b1_def by metis
  have b2: "gen_ok df (fold g_append carry b1) (take last (gz_snapshot s) @ carry)"
    using b1 by (rule gen_ok_appends)
  let ?s0 = "s\<lparr>gz_immediates := gz_immediates s - 1, gz_building := Some b1, gz_cursor := last\<rparr>"
  have turn: "gz_turn s =
      (if g_failed b1 then gz_disable ?s0
       else if last < length (gz_snapshot s) then ?s0\<lparr>gz_immediates := gz_immediates s\<rparr>
       else ?s0\<lparr>gz_live := fold g_append carry b1, gz_building := None, gz_snapshot := [],
                gz_carry := None, gz_cursor := 0\<rparr>)"
    using True b(1,2) unfolding last_def b1_def by (simp add: gz_turn_def gz_step_def Let_def)
  consider "g_failed b1" | "\<not> g_failed b1" "last < length (gz_snapshot s)"
    | "\<not> g_failed b1" "take last (gz_snapshot s) = gz_snapshot s" "\<not> last < length (gz_snapshot s)"
    by (cases "g_failed b1"; cases "last < length (gz_snapshot s)") auto
  then show ?thesis
  proof cases
    case 1
    then show ?thesis using turn c by (simp add: gz_holds_disabled)
  next
    case 2
    then have "gz_holds df (gz_turn s) live target"
      using turn True b b1 c by (simp add: gz_holds_def)
    then show ?thesis ..
  next
    case 3
    then have "gz_holds df (gz_turn s) target target"
      using turn b b2 c by (simp add: gz_holds_def)
    then show ?thesis ..
  qed
qed

interpretation gz: room_compressor gz_append "gz_rebuild df" gz_turn "gz_holds df" for df
  by unfold_locales (auto intro: gz_holds_append gz_holds_rebuild dest: gz_holds_turn)

text \<open>Flushing the live generation, in whole or in halves, changes nothing the feed holds.\<close>

definition gz_flush_begin :: "'z gzip_feed \<Rightarrow> 'z gzip_feed" where
  "gz_flush_begin s = s\<lparr>gz_live := flush_begin (gz_live s)\<rparr>"

definition gz_flush_end :: "'z deflater \<Rightarrow> 'z gzip_feed \<Rightarrow> 'z gzip_feed" where
  "gz_flush_end df s = s\<lparr>gz_live := flush_end df (gz_live s)\<rparr>"

lemma flush_end_failed: "g_failed g \<Longrightarrow> g_failed (flush_end df g)"
  by (auto simp: flush_end_def split: option.splits)

lemma gen_ok_flush_begin: "gen_ok df g ts \<Longrightarrow> gen_ok df (flush_begin g) ts"
  by (auto simp: gen_ok_def gen_rep_flush_begin) (simp add: flush_begin_def)

lemma gen_ok_flush_end: "gen_ok df g ts \<Longrightarrow> gen_ok df (flush_end df g) ts"
  using gen_rep_flush_end flush_end_failed by (auto simp: gen_ok_def)

lemma flush_loop_failed: "g_failed g \<Longrightarrow> flush_loop df g = g"
  by (subst flush_loop.simps) simp

lemma gen_ok_flush_loop: "gen_ok df g ts \<Longrightarrow> gen_ok df (flush_loop df g) ts"
  using gen_rep_flush_loop by (auto simp: gen_ok_def flush_loop_failed)

lemma gz_holds_live:
  "gz_holds df s live target \<Longrightarrow> (\<And>ts. gen_ok df (gz_live s) ts \<Longrightarrow> gen_ok df g ts) \<Longrightarrow>
   gz_holds df (s\<lparr>gz_live := g\<rparr>) live target"
  by (auto simp: gz_holds_def split: option.splits)

lemma gz_holds_flush:
  "gz_holds df s live target \<Longrightarrow> gz_holds df (gz_flush_begin s) live target"
  "gz_holds df s live target \<Longrightarrow> gz_holds df (gz_flush_end df s) live target"
  unfolding gz_flush_begin_def gz_flush_end_def
  by (auto intro!: gz_holds_live gen_ok_flush_begin gen_ok_flush_end)

lemma gz_holds_body: "gz_holds df s live target \<Longrightarrow> gz_holds df (snd (gz_body df s)) live target"
proof -
  assume h: "gz_holds df s live target"
  let ?g = "flush_loop df (gz_live s)"
  have "gz_holds df (s\<lparr>gz_live := ?g\<rparr>) live target"
    using h by (rule gz_holds_live) (rule gen_ok_flush_loop)
  moreover have "0 < gz_chunkSize s" using h by (simp add: gz_holds_def)
  ultimately show ?thesis
    using h by (auto simp: gz_body_def Let_def gz_body_resume_def gz_holds_disabled split: sum.splits)
qed

lemma gz_body_gunzip:
  assumes law: "deflate_law df inflate" and h: "gz_holds df s live target"
  shows "fst (gz_body df s) = Inr None
    \<or> (\<exists>b. fst (gz_body df s) = Inr (Some b) \<and> bc_length b = length (concat (bc_chunks b))
         \<and> gunzip inflate (concat (bc_chunks b)) = Some (concat (map utf8 live) @ CLOSING_BYTE))"
proof (cases "gz_enabled s \<and> \<not> g_failed (flush_loop df (gz_live s))")
  case False
  then show ?thesis by (auto simp: gz_body_def Let_def gz_body_resume_def)
next
  case True
  let ?g = "flush_loop df (gz_live s)"
  have "gen_ok df ?g live" using h True by (simp add: gz_holds_def gen_ok_flush_loop)
  then have r: "gen_rep df ?g live" using True by (simp add: gen_ok_def)
  have "g_pending ?g = []" "g_flushing ?g = None" using flush_loop_done[of df "gz_live s"] True by auto
  from gen_rep_body[OF law r this] show ?thesis
    using True by (auto simp: gz_body_def Let_def gz_body_resume_def)
qed

section \<open>Runs of the feed\<close>

datatype gz_event = GAppend jsstr | GRebuild "jsstr list" | GTurn | GFlushBegin | GFlushEnd | GRead

fun gz_apply :: "'z deflater \<Rightarrow> 'z gzip_feed \<Rightarrow> gz_event \<Rightarrow> 'z gzip_feed" where
  "gz_apply df s (GAppend t) = gz_append t s"
| "gz_apply df s (GRebuild ts) = gz_rebuild df ts s"
| "gz_apply df s GTurn = gz_turn s"
| "gz_apply df s GFlushBegin = gz_flush_begin s"
| "gz_apply df s GFlushEnd = gz_flush_end df s"
| "gz_apply df s GRead = snd (gz_body df s)"

text \<open>
  The specification of a run, without streams, buffers, snapshots or cursors: what readers
  see, and what the room retains. An append reaches both; a rebuild names a new retained room;
  at some turn of the event loop the readers' view becomes the retained room. The events come
  latest first.
\<close>

inductive shows_room :: "gz_event list \<Rightarrow> jsstr list \<Rightarrow> jsstr list \<Rightarrow> bool" where
  sr_start: "shows_room [] [] []"
| sr_append: "shows_room es live target \<Longrightarrow> shows_room (GAppend t # es) (live @ [t]) (target @ [t])"
| sr_rebuild: "shows_room es live target \<Longrightarrow> shows_room (GRebuild ts # es) live ts"
| sr_swap: "shows_room es live target \<Longrightarrow> shows_room (GTurn # es) target target"
| sr_idle: "shows_room es live target \<Longrightarrow> e \<in> {GTurn, GFlushBegin, GFlushEnd, GRead} \<Longrightarrow>
     shows_room (e # es) live target"

lemma gz_apply_refines:
  assumes "shows_room es live target" and h: "gz_holds df s live target"
  shows "\<exists>live' target'. shows_room (e # es) live' target' \<and> gz_holds df (gz_apply df s e) live' target'"
proof (cases e)
  case (GAppend t)
  then show ?thesis using sr_append[OF assms(1)] gz_holds_append[OF h] by auto
next
  case (GRebuild ts)
  then show ?thesis using sr_rebuild[OF assms(1)] gz_holds_rebuild[OF h] by auto
next
  case GTurn
  then show ?thesis using sr_swap[OF assms(1)] sr_idle[OF assms(1), of GTurn] gz_holds_turn[OF h] by auto
next
  case GFlushBegin
  then show ?thesis using sr_idle[OF assms(1), of GFlushBegin] gz_holds_flush(1)[OF h] by auto
next
  case GFlushEnd
  then show ?thesis using sr_idle[OF assms(1), of GFlushEnd] gz_holds_flush(2)[OF h] by auto
next
  case GRead
  then show ?thesis using sr_idle[OF assms(1), of GRead] gz_holds_body[OF h] by auto
qed

lemma gz_run_refines:
  "shows_room ds live target \<Longrightarrow> gz_holds df s live target \<Longrightarrow>
   \<exists>live' target'. shows_room (rev es @ ds) live' target' \<and> gz_holds df (run_events (gz_apply df) s es) live' target'"
proof (induction es arbitrary: s ds live target)
  case (Cons e es)
  obtain live' target' where "shows_room (e # ds) live' target'" "gz_holds df (gz_apply df s e) live' target'"
    using gz_apply_refines[OF Cons.prems] by blast
  from Cons.IH[OF this] show ?case by simp
qed auto

lemma gz_turn_progress:
  assumes "gz_holds df s live target" "gz_enabled s" "gz_building s \<noteq> None"
  shows "gz_building (gz_turn s) = None
    \<or> (gz_building (gz_turn s) \<noteq> None \<and> gz_enabled (gz_turn s) \<and> gz_snapshot (gz_turn s) = gz_snapshot s
       \<and> gz_cursor s < gz_cursor (gz_turn s) \<and> gz_cursor (gz_turn s) < length (gz_snapshot s))"
proof -
  obtain b where "gz_building s = Some b" "0 < gz_immediates s" "0 < gz_chunkSize s"
    using assms by (auto simp: gz_holds_def split: option.splits)
  then show ?thesis
    using assms(2) by (auto simp: gz_turn_def gz_step_def gz_disable_def Let_def min_def)
qed

lemma gz_turns_complete:
  assumes "gz_holds df s live target" "gz_enabled s" "length (gz_snapshot s) - gz_cursor s \<le> n"
  shows "gz_building ((gz_turn ^^ Suc n) s) = None"
  using assms
proof (induction n arbitrary: s live)
  case 0
  show ?case
  proof (cases "gz_building s = None")
    case True
    then show ?thesis by (simp add: gz_turn_def gz_step_def)
  next
    case False
    then show ?thesis using gz_turn_progress[OF "0.prems"(1,2)] "0.prems"(3) by auto
  qed
next
  case (Suc n)
  have none: "gz_building s = None \<Longrightarrow> gz_building ((gz_turn ^^ k) s) = None" for s :: "'a gzip_feed" and k
    by (induction k arbitrary: s) (auto simp: gz_turn_def gz_step_def)
  have turns: "(gz_turn ^^ Suc (Suc n)) s = (gz_turn ^^ Suc n) (gz_turn s)"
    by (simp add: funpow_swap1)
  show ?case
  proof (cases "gz_building s = None \<or> gz_building (gz_turn s) = None")
    case True
    then show ?thesis
      using none[of s "Suc (Suc n)"] none[of "gz_turn s" "Suc n"] unfolding turns[symmetric] by blast
  next
    case False
    then have p: "gz_enabled (gz_turn s)" "gz_snapshot (gz_turn s) = gz_snapshot s"
      "gz_cursor s < gz_cursor (gz_turn s)" "gz_cursor (gz_turn s) < length (gz_snapshot s)"
      using gz_turn_progress[OF Suc.prems(1,2)] by auto
    then have "length (gz_snapshot (gz_turn s)) - gz_cursor (gz_turn s) \<le> n" using Suc.prems(3) by simp
    with p(1) Suc.IH[of "gz_turn s"] gz_holds_turn[OF Suc.prems(1)] show ?thesis unfolding turns by blast
  qed
qed

section \<open>Properties\<close>



text \<open>
  A rebuild finishes. From any state a run can reach, once no further rebuild starts, at most
  one turn more than there are texts left to take in completes the replacement (or gives the
  compressor up), however many rebuilds were abandoned before: no reader is left with the stale
  stream for ever.
\<close>

theorem gzip_rebuild_completes:
  assumes "0 < chunkSize"
    and "s = run_events (gz_apply df) (new_GzipFeed df level chunkSize) es"
    and "gz_enabled s"
  shows "gz_building ((gz_turn ^^ Suc (length (gz_snapshot s) - gz_cursor s)) s) = None"
proof -
  obtain live target where "gz_holds df s live target"
    using gz_run_refines[OF sr_start gz_holds_new[OF assms(1)]] assms(2) by metis
  then show ?thesis by (rule gz_turns_complete[OF _ assms(3) order_refl])
qed

theorem gzip_rebuild_completes_witness:
  "gz_building ((gz_turn ^^ 3) (run_events (gz_apply storing_df) (new_GzipFeed storing_df 6 256)
     [GRebuild [[91, 49], [44, 50]]])) = None"
  using gzip_rebuild_completes[of 256 _ storing_df 6 "[GRebuild [[91, 49], [44, 50]]]", OF _ refl]
  by (simp add: gz_rebuild_def new_GzipFeed_def numeral_eq_Suc)

text \<open>
  The output accumulator loses nothing. Whatever chunks the compressor emits, however large,
  the buffer afterwards holds exactly the bytes emitted before followed by the new ones, has room
  for all of them, and \<open>compressedBytes\<close> is their number: doubling the buffer and copying it
  over never cuts a byte off.
\<close>

theorem collect_keeps_output:
  assumes "holds_output bs g"
  shows "\<exists>out. g_output (fold collect chunks g) = Some out
    \<and> take (g_compressedBytes (fold collect chunks g)) (buf_bytes out) = bs @ concat chunks
    \<and> g_compressedBytes (fold collect chunks g) = length (bs @ concat chunks)
    \<and> length (bs @ concat chunks) \<le> buf_size out"
  using fold_collect_output[OF assms, of chunks] by (auto simp: holds_output_def)

theorem collect_keeps_output_witness:
  "g_compressedBytes (fold collect [[1, 2], [3]] (new_Generation storing_df)) = 3"
proof -
  have "holds_output [] (new_Generation storing_df)"
    by (simp add: holds_output_def new_Generation_def INITIAL_OUTPUT_BYTES_def)
  from collect_keeps_output[OF this, of "[[1, 2], [3]]"] show ?thesis by auto
qed

text \<open>
  A reader whose generation was replaced while it waited for the flush does not get that
  generation's body. \<open>step\<close> has destroyed it, its output is gone, and building the body raises a
  \<open>TypeError\<close> that \<open>body\<close> passes on to its caller: the comment in \<open>body\<close> says the flushed
  generation is "still complete and consistent" and is answered from.
\<close>

theorem replaced_generation_has_no_body:
  assumes "gen_rep df g ts"
  shows "fst (gz_body_resume (g_destroy g) s) = Inl TypeError"
  using assms by (auto simp: gen_rep_def gz_body_resume_def g_destroy_def g_body_def)

theorem replaced_generation_has_no_body_witness:
  "fst (gz_body_resume (g_destroy (new_Generation storing_df)) (new_GzipFeed storing_df 6 256)) = Inl TypeError"
  by (rule replaced_generation_has_no_body[OF gen_rep_new])

text \<open>
  A rebuild compresses nothing in its turns. Feeding any part of the snapshot to the
  replacement only queues its bytes: no output is produced until the first reader after the
  swap flushes the whole queue as one chunk, where the comment on \<open>REBUILD_CHUNK\<close> says that a
  rebuild compresses that many messages per turn.
\<close>

theorem rebuild_only_queues:
  "g_compressedBytes (fold g_append texts (new_Generation df)) = 0
    \<and> g_flushing (flush_begin (fold g_append (t # texts) (new_Generation df)))
        = Some (concat (map utf8 (t # texts)))"
proof -
  have c: "g_compressedBytes (fold g_append ts g) = g_compressedBytes g" for ts and g :: "'a generation"
    by (induction ts arbitrary: g) (auto simp: g_append_def Let_def)
  have p: "g_pending (fold g_append ts g) = g_pending g @ map utf8 ts"
    "g_failed (fold g_append ts g) = g_failed g" "g_flushing (fold g_append ts g) = g_flushing g"
    for ts and g :: "'a generation"
    by (induction ts arbitrary: g) (auto simp: g_append_def Let_def)
  show ?thesis
    using c[of texts "new_Generation df"] p[of "t # texts" "new_Generation df"]
    by (simp only: flush_begin_def) (simp add: new_Generation_def)
qed

end
