(* ===== verification/Cipher.thy ===== *)
theory Cipher
  imports Utf8 Base64
begin

text \<open>
  \<open>src/crypto/messageCipher.js\<close>: the key read once from the environment, and AES-256-GCM
  encryption and decryption of message texts. AES-GCM itself is node:crypto's and a parameter:
  \<open>gcm_seal\<close> is cipher plus tag, \<open>gcm_open\<close> is decryption with its tag check.
\<close>

section \<open>The primitive\<close>

record gcm =
  gcm_seal :: "byte list \<Rightarrow> byte list \<Rightarrow> byte list \<Rightarrow> byte list \<times> byte list"
  gcm_open :: "byte list \<Rightarrow> byte list \<Rightarrow> byte list \<Rightarrow> byte list \<Rightarrow> byte list option"

text \<open>
  The documented contract of an authenticated cipher with a 16-byte tag: for a key and a nonce
  of the right length, opening succeeds with \<open>p\<close> exactly for the pair that sealing \<open>p\<close> gives.
\<close>

definition gcm_law :: "gcm \<Rightarrow> bool" where
  "gcm_law g \<longleftrightarrow>
     (\<forall>key nonce p. length key = 32 \<longrightarrow> length nonce = 12 \<longrightarrow>
        length (snd (gcm_seal g key nonce p)) = 16
        \<and> (\<forall>c t. gcm_open g key nonce c t = Some p \<longleftrightarrow> gcm_seal g key nonce p = (c, t)))"

section \<open>The key\<close>

definition KEY_BYTES :: nat where
  "KEY_BYTES = 32"

definition NONCE_BYTES :: nat where
  "NONCE_BYTES = 12"

definition TAG_BYTES :: nat where
  "TAG_BYTES = 16"

datatype cipher_error =
    KeyNotSet
  | KeyWrongSize nat
  | MissingBuffers
  | WrongNonce nat
  | TooShort
  | AuthenticationFailed

text \<open>The module variable \<open>cachedKey\<close> and the environment variable are passed along.\<close>

definition loadKey :: "jsstr option \<Rightarrow> byte list option \<Rightarrow> (cipher_error + byte list) \<times> byte list option" where
  "loadKey env cachedKey =
     (case cachedKey of
        Some key \<Rightarrow> (Inr key, cachedKey)
      | None \<Rightarrow>
          (let configured = js_trim (case env of None \<Rightarrow> [] | Some v \<Rightarrow> v)
           in if configured = [] then (Inl KeyNotSet, None)
              else let key = from_base64 configured
                   in if length key \<noteq> KEY_BYTES then (Inl (KeyWrongSize (length key)), None)
                      else (Inr key, Some key)))"

section \<open>Encryption and decryption\<close>

record sealed =
  sl_ciphertext :: "byte list"
  sl_nonce :: "byte list"

text \<open>\<open>nonce\<close> is what \<open>randomBytes(NONCE_BYTES)\<close> returned.\<close>

definition encrypt :: "gcm \<Rightarrow> byte list \<Rightarrow> byte list \<Rightarrow> jsstr \<Rightarrow> sealed" where
  "encrypt g key nonce plaintext =
     (let (encrypted, tag) = gcm_seal g key nonce (utf8 plaintext)
      in \<lparr>sl_ciphertext = encrypted @ tag, sl_nonce = nonce\<rparr>)"

text \<open>A field that is not a \<open>Buffer\<close> is \<open>None\<close>.\<close>

definition decrypt :: "gcm \<Rightarrow> byte list \<Rightarrow> byte list option \<Rightarrow> byte list option \<Rightarrow> cipher_error + jsstr" where
  "decrypt g key ciphertext nonce =
     (case (ciphertext, nonce) of
        (Some c, Some n) \<Rightarrow>
          if length n \<noteq> NONCE_BYTES then Inl (WrongNonce (length n))
          else if length c < TAG_BYTES then Inl TooShort
          else
            let tagAt = length c - TAG_BYTES
            in (case gcm_open g key n (take tagAt c) (drop tagAt c) of
                  None \<Rightarrow> Inl AuthenticationFailed
                | Some plaintext \<Rightarrow> Inr (from_utf8 plaintext))
      | _ \<Rightarrow> Inl MissingBuffers)"

lemma loadKey_length:
  assumes "\<And>k. cachedKey = Some k \<Longrightarrow> length k = KEY_BYTES"
    and "loadKey env cachedKey = (Inr key, cachedKey')"
  shows "length key = KEY_BYTES \<and> cachedKey' = Some key"
  using assms by (auto simp: loadKey_def Let_def split: option.splits if_splits)

lemma loadKey_stable: "loadKey env cachedKey = (Inr key, cachedKey') \<Longrightarrow> loadKey env' cachedKey' = (Inr key, cachedKey')"
  by (auto simp: loadKey_def Let_def split: option.splits if_splits)

lemma decrypt_encrypt:
  assumes law: "gcm_law g" and "length key = KEY_BYTES" "length nonce = NONCE_BYTES"
  shows "decrypt g key (Some (sl_ciphertext (encrypt g key nonce s))) (Some (sl_nonce (encrypt g key nonce s)))
    = Inr (to_well_formed s)"
proof -
  obtain c t where ct: "gcm_seal g key nonce (utf8 s) = (c, t)" by fastforce
  have "length t = 16"
    using law assms(2,3) ct unfolding gcm_law_def KEY_BYTES_def NONCE_BYTES_def by (metis snd_conv)
  moreover have "gcm_open g key nonce c t = Some (utf8 s)"
    using law assms(2,3) ct unfolding gcm_law_def KEY_BYTES_def NONCE_BYTES_def by blast
  ultimately show ?thesis
    using assms(3) by (simp add: encrypt_def decrypt_def ct TAG_BYTES_def from_utf8_utf8)
qed

text \<open>A toy cipher that satisfies the contract, for closed examples: the tag repeats the key and
  nonce lengths' worth of a checksum-free constant, so that only the constant tag opens.\<close>

definition plain_gcm :: gcm where
  "plain_gcm = \<lparr>gcm_seal = (\<lambda>key nonce p. (p, replicate 16 0)),
     gcm_open = (\<lambda>key nonce c t. if t = replicate 16 0 then Some c else None)\<rparr>"

lemma plain_gcm_law: "gcm_law plain_gcm"
  by (auto simp: gcm_law_def plain_gcm_def)

section \<open>Properties\<close>

text \<open>
  C10: what is stored decrypts to what was sent. For a 32-byte key and a 12-byte nonce,
  decrypting the stored pair gives back the text, with lone surrogates (which UTF-8 cannot
  carry) replaced; a well-formed text comes back unchanged.
\<close>

theorem decrypt_encrypt_roundtrip:
  assumes "gcm_law g" "length key = KEY_BYTES" "length nonce = NONCE_BYTES"
  shows "decrypt g key (Some (sl_ciphertext (encrypt g key nonce s))) (Some (sl_nonce (encrypt g key nonce s)))
      = Inr (to_well_formed s)
    \<and> (well_formed s \<longrightarrow> to_well_formed s = s)"
  using decrypt_encrypt[OF assms] by (simp add: to_well_formed_id)

theorem decrypt_encrypt_roundtrip_witness:
  "decrypt plain_gcm (replicate 32 7) (Some (sl_ciphertext (encrypt plain_gcm (replicate 32 7) (replicate 12 1) (js ''hi''))))
     (Some (sl_nonce (encrypt plain_gcm (replicate 32 7) (replicate 12 1) (js ''hi'')))) = Inr (to_well_formed (js ''hi''))"
  using decrypt_encrypt_roundtrip[OF plain_gcm_law, of "replicate 32 7" "replicate 12 1" "js ''hi''"]
  by (simp add: KEY_BYTES_def NONCE_BYTES_def)

text \<open>
  Tampering is detected. Decryption accepts a stored pair only if its bytes are exactly the
  sealing, under this key and this nonce, of a plaintext that reads as the returned text, tag
  included at the end; every other change of ciphertext, tag or nonce, and every field of the
  wrong kind or size, is an error.
\<close>

theorem decrypt_accepts_only_sealed:
  assumes "gcm_law g" "length key = KEY_BYTES" "decrypt g key ciphertext nonce = Inr text"
  shows "\<exists>c n p. ciphertext = Some c \<and> nonce = Some n \<and> length n = NONCE_BYTES
    \<and> c = fst (gcm_seal g key n p) @ snd (gcm_seal g key n p) \<and> text = from_utf8 p"
proof -
  obtain c n where cn: "ciphertext = Some c" "nonce = Some n" "length n = NONCE_BYTES"
    "\<not> length c < TAG_BYTES"
    using assms(3) by (auto simp: decrypt_def split: option.splits if_splits)
  let ?at = "length c - TAG_BYTES"
  obtain p where p: "gcm_open g key n (take ?at c) (drop ?at c) = Some p" "text = from_utf8 p"
    using assms(3) cn by (auto simp: decrypt_def Let_def split: option.splits)
  then have "gcm_seal g key n p = (take ?at c, drop ?at c)"
    using assms(1,2) cn(3) unfolding gcm_law_def KEY_BYTES_def NONCE_BYTES_def by blast
  then have "c = fst (gcm_seal g key n p) @ snd (gcm_seal g key n p)" by simp
  with cn p show ?thesis by blast
qed

theorem decrypt_accepts_only_sealed_witness:
  "\<exists>c n p. Some (104 # replicate 16 0) = Some c \<and> Some (replicate 12 1) = Some n \<and> length n = NONCE_BYTES
    \<and> c = fst (gcm_seal plain_gcm (replicate 32 7) n p) @ snd (gcm_seal plain_gcm (replicate 32 7) n p)
    \<and> from_utf8 [104] = from_utf8 p"
  by (rule decrypt_accepts_only_sealed[OF plain_gcm_law])
     (simp_all add: KEY_BYTES_def decrypt_def NONCE_BYTES_def TAG_BYTES_def plain_gcm_def numeral_eq_Suc)

text \<open>
  The key is checked once, before anything else. A key that \<open>loadKey\<close> returns is 32 bytes
  long and is the one every later call returns, whatever the environment says by then; a missing,
  blank or wrongly sized setting is an error and leaves nothing cached.
\<close>

theorem loadKey_checked_once:
  "(case loadKey env None of
      (Inr key, cached) \<Rightarrow> length key = KEY_BYTES \<and> cached = Some key
        \<and> (\<forall>env'. loadKey env' cached = (Inr key, cached))
    | (Inl e, cached) \<Rightarrow> cached = None)"
  by (auto simp: loadKey_def Let_def split: option.splits)

end
