(* ===== verification/Js_Values.thy ===== *)
theory Js_Values
  imports Js_Strings
begin

text \<open>
  The values that reach the program from outside: parsed JSON bodies, query strings and socket
  payloads. \<open>String(value)\<close> is modelled with the exception it raises, because the handlers call
  it on whatever a client sent.
\<close>

section \<open>Values\<close>

text \<open>A number carries its value and the text \<open>Number.prototype.toString\<close> prints for it; the
  printing of non-integral doubles is not modelled further.\<close>

datatype number = Finite rat jsstr | NotFinite jsstr

fun number_text :: "number \<Rightarrow> jsstr" where
  "number_text (Finite _ t) = t"
| "number_text (NotFinite t) = t"

definition int_number :: "int \<Rightarrow> number" where
  "int_number i = Finite (of_int i) (num_str i)"

datatype jsval =
    Undefined
  | Null
  | Bool bool
  | Number number
  | String jsstr
  | Array "jsval list"
  | Object "(jsstr \<times> jsval) list"

definition absent :: "jsval \<Rightarrow> bool" where
  "absent v \<longleftrightarrow> v = Undefined \<or> v = Null"

section \<open>String(value)\<close>

text \<open>
  An array joins its elements with commas, writing nothing for \<open>null\<close> and \<open>undefined\<close>. An
  object prints as a constant, unless it has a member \<open>toString\<close> of its own: parsed JSON never
  holds a function, so the conversion then falls through to the inherited \<open>valueOf\<close>, which
  returns the object, and raises a \<open>TypeError\<close>.
\<close>

fun to_string :: "jsval \<Rightarrow> js_error + jsstr"
  and elements :: "jsval list \<Rightarrow> js_error + jsstr list" where
  "to_string Undefined = Inr (js ''undefined'')"
| "to_string Null = Inr (js ''null'')"
| "to_string (Bool b) = Inr (if b then js ''true'' else js ''false'')"
| "to_string (Number n) = Inr (number_text n)"
| "to_string (String s) = Inr s"
| "to_string (Array vs) = map_sum id (join (js '','')) (elements vs)"
| "to_string (Object kvs) =
     (if js ''toString'' \<in> fst ` set kvs then Inl TypeError else Inr (js ''[object Object]''))"
| "elements [] = Inr []"
| "elements (v # vs) =
     (case (if absent v then Inr [] else to_string v) of
        Inl e \<Rightarrow> Inl e
      | Inr s \<Rightarrow> map_sum id ((#) s) (elements vs))"

text \<open>\<open>String(raw ?? '')\<close>.\<close>

definition string_or_empty :: "jsval \<Rightarrow> js_error + jsstr" where
  "string_or_empty v = (if absent v then Inr [] else to_string v)"

text \<open>\<open>Number.parseInt(value, 10) || 0\<close>.\<close>

definition parse_int_or_0 :: "jsval \<Rightarrow> js_error + int" where
  "parse_int_or_0 v =
     map_sum id (\<lambda>s. case parse_int s of None \<Rightarrow> 0 | Some i \<Rightarrow> i) (to_string v)"

definition get_field :: "jsval \<Rightarrow> jsstr \<Rightarrow> jsval" where
  "get_field v k =
     (case v of Object kvs \<Rightarrow> (case map_of kvs k of None \<Rightarrow> Undefined | Some x \<Rightarrow> x) | _ \<Rightarrow> Undefined)"

definition is_object :: "jsval \<Rightarrow> bool" where
  "is_object v \<longleftrightarrow> (case v of Object _ \<Rightarrow> True | Array _ \<Rightarrow> True | _ \<Rightarrow> False)"

lemma to_string_String [simp]: "to_string (String s) = Inr s"
  by simp

lemma to_string_total:
  "(\<And>kvs. v \<noteq> Object kvs) \<Longrightarrow> (\<And>vs. v \<noteq> Array vs) \<Longrightarrow> \<exists>s. to_string v = Inr s"
  by (cases v) auto

end
