(* ===== verification/Validation.thy ===== *)
theory Validation
  imports Js_Values
begin

text \<open>\<open>src/validation.js\<close>: the rules for usernames and message texts.\<close>

definition MAX_MESSAGE_LENGTH :: nat where
  "MAX_MESSAGE_LENGTH = 500"

text \<open>\<open>/^[A-Za-z0-9 _-]{1,20}$/\<close>.\<close>

definition username_unit :: "code_unit \<Rightarrow> bool" where
  "username_unit c \<longleftrightarrow>
     (65 \<le> c \<and> c \<le> 90) \<or> (97 \<le> c \<and> c \<le> 122) \<or> (48 \<le> c \<and> c \<le> 57) \<or> c = 32 \<or> c = 95 \<or> c = 45"

definition matches_USERNAME_PATTERN :: "jsstr \<Rightarrow> bool" where
  "matches_USERNAME_PATTERN s \<longleftrightarrow> 1 \<le> length s \<and> length s \<le> 20 \<and> list_all username_unit s"

datatype username_reason = UsernameEmpty | UsernamePattern
datatype message_reason = MessageNotText | MessageEmpty

text \<open>The outer sum is the exception of \<open>String\<close>, the inner one \<open>{ valid: false, reason }\<close>.\<close>

definition validateUsername :: "jsval \<Rightarrow> js_error + (username_reason + jsstr)" where
  "validateUsername raw =
     map_sum id
       (\<lambda>s. let username = js_trim s
            in if username = [] then Inl UsernameEmpty
               else if \<not> matches_USERNAME_PATTERN username then Inl UsernamePattern
               else Inr username)
       (string_or_empty raw)"

definition validateMessage :: "jsval \<Rightarrow> message_reason + jsstr" where
  "validateMessage raw =
     (case raw of
        String s \<Rightarrow>
          (let text = js_slice0 MAX_MESSAGE_LENGTH (js_trim s)
           in if text = [] then Inl MessageEmpty else Inr text)
      | _ \<Rightarrow> Inl MessageNotText)"

lemma username_unit_ascii: "username_unit c \<Longrightarrow> unat c < 128 \<and> c \<noteq> 10"
  by (auto simp: username_unit_def word_le_nat_alt)

lemma validateUsername_Inr:
  "validateUsername raw = Inr (Inr u) \<Longrightarrow> matches_USERNAME_PATTERN u \<and> js_trim u = u"
  by (auto simp: validateUsername_def Let_def map_sum_def split: sum.splits if_splits)

section \<open>Properties\<close>



text \<open>
  An accepted message text is 1 to 500 code units long and starts with no white space, and is
  the trimmed input cut after 500; an input of any other type than string is
  refused as not text, and one that is only white space as empty.
\<close>

theorem validateMessage_spec:
  "(case validateMessage raw of
      Inr t \<Rightarrow> (\<exists>s. raw = String s \<and> 1 \<le> length t \<and> length t \<le> 500 \<and> \<not> is_js_space (hd t)
                  \<and> t = take 500 (js_trim s))
    | Inl MessageEmpty \<Rightarrow> (\<exists>s. raw = String s \<and> js_trim s = [])
    | Inl MessageNotText \<Rightarrow> (\<forall>s. raw \<noteq> String s))"
proof (cases raw)
  case (String s)
  show ?thesis
  proof (cases "js_trim s = []")
    case True
    then show ?thesis by (simp add: String validateMessage_def js_slice0_def)
  next
    case False
    then have h: "hd (take 500 (js_trim s)) = hd (js_trim s)" "take 500 (js_trim s) \<noteq> []" by auto
    with False js_trim_hd[OF False] show ?thesis
      by (simp add: String validateMessage_def js_slice0_def MAX_MESSAGE_LENGTH_def Suc_le_eq)
  qed
qed (simp_all add: validateMessage_def)

end
