(* ===== verification/RateLimiter.thy ===== *)
theory RateLimiter
  imports Js_Strings
begin

text \<open>\<open>src/rateLimiter.js\<close>: at most five events per socket in any three seconds. \<open>hits\<close> is
  the \<open>Map\<close> from socket id to the times of its allowed events; \<open>now\<close> is what \<open>Date.now()\<close>
  returned.\<close>

definition WINDOW_MS :: millis where
  "WINDOW_MS = 3000"

definition MAX_EVENTS_PER_WINDOW :: nat where
  "MAX_EVENTS_PER_WINDOW = 5"

type_synonym hits = "(jsstr, millis list) jsmap"

definition hits_of :: "hits \<Rightarrow> jsstr \<Rightarrow> millis list" where
  "hits_of hits sid = (case map_of hits sid of None \<Rightarrow> [] | Some ts \<Rightarrow> ts)"

definition allow :: "millis \<Rightarrow> jsstr \<Rightarrow> hits \<Rightarrow> bool \<times> hits" where
  "allow now socketId hits =
     (let timestamps = filter (\<lambda>t. now - t < WINDOW_MS) (hits_of hits socketId)
      in if MAX_EVENTS_PER_WINDOW \<le> length timestamps
         then (False, AList.update socketId timestamps hits)
         else (True, AList.update socketId (timestamps @ [now]) hits))"

definition clear :: "jsstr \<Rightarrow> hits \<Rightarrow> hits" where
  "clear socketId hits = AList.delete socketId hits"

text \<open>A history of calls on one limiter, and the times at which a socket was allowed.\<close>

fun allow_all :: "(millis \<times> jsstr) list \<Rightarrow> hits \<Rightarrow> hits" where
  "allow_all [] h = h"
| "allow_all ((now, sid) # calls) h = allow_all calls (snd (allow now sid h))"

fun allowed_times :: "jsstr \<Rightarrow> (millis \<times> jsstr) list \<Rightarrow> hits \<Rightarrow> millis list" where
  "allowed_times sid [] h = []"
| "allowed_times sid ((now, x) # calls) h =
     (if x = sid \<and> fst (allow now x h) then [now] else [])
       @ allowed_times sid calls (snd (allow now x h))"

lemma hits_of_update [simp]:
  "hits_of (AList.update k ts h) sid = (if sid = k then ts else hits_of h sid)"
  by (simp add: hits_of_def)

lemma hits_of_clear [simp]: "hits_of (clear k h) sid = (if sid = k then [] else hits_of h sid)"
  by (simp add: hits_of_def clear_def)

text \<open>The contract of a limiter, and the sliding-window bound that any one meeting it gives.
  \<open>seen\<close> are the times allowed so far, latest last.\<close>

locale window_limiter =
  fixes try_event :: "millis \<Rightarrow> 'k \<Rightarrow> 's \<Rightarrow> bool \<times> 's"
    and recent :: "'s \<Rightarrow> 'k \<Rightarrow> millis list"
    and window :: millis
    and limit :: nat
  assumes recent_allowed: "fst (try_event now k s) \<Longrightarrow>
      recent (snd (try_event now k s)) k = filter (\<lambda>t. now - t < window) (recent s k) @ [now]"
    and recent_refused: "\<not> fst (try_event now k s) \<Longrightarrow>
      recent (snd (try_event now k s)) k = filter (\<lambda>t. now - t < window) (recent s k)"
    and allowed_below: "fst (try_event now k s) \<longleftrightarrow>
      length (filter (\<lambda>t. now - t < window) (recent s k)) < limit"
    and recent_other: "j \<noteq> k \<Longrightarrow> recent (snd (try_event now k s)) j = recent s j"
begin

text \<open>What the limiter remembers of a socket is what it has allowed it within the window.\<close>

definition remembers :: "'s \<Rightarrow> 'k \<Rightarrow> millis list \<Rightarrow> millis \<Rightarrow> bool" where
  "remembers s k seen now \<longleftrightarrow> (\<forall>later \<ge> now.
     filter (\<lambda>t. later - t < window) (recent s k) = filter (\<lambda>t. later - t < window) seen)"

lemma remembers_step:
  assumes r: "remembers s k seen before" and "before \<le> now"
  shows "remembers (snd (try_event now j s)) k
    (if j = k \<and> fst (try_event now j s) then seen @ [now] else seen) now"
proof (cases "j = k")
  case False
  then show ?thesis using assms recent_other[of k j now s] by (auto simp: remembers_def)
next
  case True
  have f: "filter (\<lambda>t. later - t < window) (filter (\<lambda>t. now - t < window) (recent s k))
      = filter (\<lambda>t. later - t < window) seen" if "now \<le> later" for later
  proof -
    have "filter (\<lambda>t. later - t < window) (filter (\<lambda>t. now - t < window) (recent s k))
        = filter (\<lambda>t. later - t < window) (recent s k)"
      unfolding filter_filter by (rule filter_cong) (use that in auto)
    also have "\<dots> = filter (\<lambda>t. later - t < window) seen"
      using r assms(2) that by (simp add: remembers_def)
    finally show ?thesis .
  qed
  show ?thesis
    using True f recent_allowed[of now k s] recent_refused[of now k s]
    by (auto simp: remembers_def)
qed

lemma allowed_window:
  assumes "remembers s k seen before" "before \<le> now" "fst (try_event now k s)"
  shows "length (filter (\<lambda>t. now - t < window) seen) < limit"
  using assms allowed_below[of now k s] by (simp add: remembers_def)

end

interpretation rl: window_limiter allow hits_of WINDOW_MS MAX_EVENTS_PER_WINDOW
  by unfold_locales (auto simp: allow_def Let_def not_le split: if_splits)

text \<open>Times never run backwards from call to call.\<close>

fun monotone_calls :: "millis \<Rightarrow> (millis \<times> jsstr) list \<Rightarrow> bool" where
  "monotone_calls before [] = True"
| "monotone_calls before ((now, sid) # calls) = (before \<le> now \<and> monotone_calls now calls)"

lemma sliding_window_gen:
  "rl.remembers h sid seen before \<Longrightarrow> monotone_calls before calls \<Longrightarrow>
   sorted seen \<Longrightarrow> (\<forall>t \<in> set seen. t \<le> before) \<Longrightarrow>
   (\<forall>i. i + 5 < length seen \<longrightarrow> 3000 \<le> seen ! (i + 5) - seen ! i) \<Longrightarrow>
   i + 5 < length (seen @ allowed_times sid calls h) \<Longrightarrow>
   3000 \<le> (seen @ allowed_times sid calls h) ! (i + 5) - (seen @ allowed_times sid calls h) ! i"
proof (induction calls arbitrary: h seen before)
  case (Cons call calls)
  obtain now x where call: "call = (now, x)" by fastforce
  let ?ok = "x = sid \<and> fst (allow now x h)"
  define seen' where "seen' = (if ?ok then seen @ [now] else seen)"
  have le: "before \<le> now" "monotone_calls now calls" using Cons.prems(2) call by auto
  have rem: "rl.remembers (snd (allow now x h)) sid seen' now"
    using rl.remembers_step[OF Cons.prems(1) le(1), of x] by (simp add: seen'_def)
  have s: "sorted seen'" "\<forall>t \<in> set seen'. t \<le> now"
    using Cons.prems(3,4) le(1) by (auto simp: seen'_def sorted_append intro: order_trans)
  have gap: "\<forall>i. i + 5 < length seen' \<longrightarrow> 3000 \<le> seen' ! (i + 5) - seen' ! i"
  proof (intro allI impI)
    fix j assume j: "j + 5 < length seen'"
    show "3000 \<le> seen' ! (j + 5) - seen' ! j"
    proof (cases "j + 5 < length seen")
      case True
      then show ?thesis using Cons.prems(5) by (auto simp: seen'_def nth_append)
    next
      case False
      then have ok: ?ok and jl: "j + 5 = length seen" using j by (auto simp: seen'_def split: if_splits)
      have few: "length (filter (\<lambda>t. now - t < 3000) seen) < 5"
        using rl.allowed_window[OF Cons.prems(1) le(1)] conjunct2[OF ok] conjunct1[OF ok]
        by (simp add: WINDOW_MS_def MAX_EVENTS_PER_WINDOW_def)
      have "3000 \<le> now - seen ! j"
      proof (rule ccontr)
        assume "\<not> 3000 \<le> now - seen ! j"
        moreover have "seen ! j \<le> t" if "t \<in> set (drop j seen)" for t
          using that Cons.prems(3) jl by (auto simp: in_set_conv_nth intro: sorted_nth_mono)
        ultimately have "filter (\<lambda>t. now - t < 3000) (drop j seen) = drop j seen"
          by (intro filter_True) force
        moreover have "filter (\<lambda>t. now - t < 3000) seen = filter (\<lambda>t. now - t < 3000) (take j seen)
            @ filter (\<lambda>t. now - t < 3000) (drop j seen)"
          by (metis append_take_drop_id filter_append)
        ultimately have "length (drop j seen) \<le> length (filter (\<lambda>t. now - t < 3000) seen)" by simp
        with few jl show False by simp
      qed
      moreover have "seen' = seen @ [now]" unfolding seen'_def by (rule if_P[OF ok])
      ultimately show ?thesis using jl by (simp add: nth_append)
    qed
  qed
  have "seen @ allowed_times sid (call # calls) h = seen' @ allowed_times sid calls (snd (allow now x h))"
    by (simp add: call seen'_def)
  then show ?case using Cons.IH[OF rem le(2) s gap] Cons.prems(6) by metis
qed simp

section \<open>Properties\<close>

text \<open>
  C33: the limit is a true sliding window. Over any history of calls, for any mix of sockets,
  the sixth event that a socket is allowed comes at least three seconds after the first, from
  wherever one starts counting; no clock other than \<open>Date.now()\<close> not running backwards is
  assumed.
\<close>

theorem rate_limit_sliding_window:
  assumes "monotone_calls start calls" and "i + 5 < length (allowed_times sid calls [])"
  shows "3000 \<le> allowed_times sid calls [] ! (i + 5) - allowed_times sid calls [] ! i"
proof -
  have "rl.remembers [] sid [] start" by (simp add: rl.remembers_def hits_of_def)
  from sliding_window_gen[OF this assms(1), of i] assms(2) show ?thesis by simp
qed

theorem rate_limit_sliding_window_witness:
  "3000 \<le> allowed_times [1] (map (\<lambda>t. (t, [1])) [0, 10, 20, 30, 40, 50, 3000]) [] ! 5 - 0"
proof -
  have a: "allowed_times [1] (map (\<lambda>t. (t, [1])) [0, 10, 20, 30, 40, 50, 3000]) [] = [0, 10, 20, 30, 40, 3000]"
    by (simp add: allow_def Let_def hits_of_def WINDOW_MS_def MAX_EVENTS_PER_WINDOW_def)
  then show ?thesis
    using rate_limit_sliding_window[of 0 "map (\<lambda>t. (t, [1])) [0, 10, 20, 30, 40, 50, 3000]" 0 "[1]"] by simp
qed

text \<open>
  A refusal is justified and free of side effects on others. \<open>allow\<close> refuses exactly when
  five events of this socket were allowed in the last three seconds, keeps no older times, and
  never touches what it knows of another socket; after \<open>clear\<close> the socket starts afresh.
\<close>

theorem allow_exact:
  "(fst (allow now sid h) \<longleftrightarrow> length (filter (\<lambda>t. now - t < 3000) (hits_of h sid)) < 5)
    \<and> hits_of (snd (allow now sid h)) j =
        (if j = sid then filter (\<lambda>t. now - t < 3000) (hits_of h sid)
           @ (if fst (allow now sid h) then [now] else [])
         else hits_of h j)
    \<and> fst (allow now sid (clear sid h))"
  using rl.allowed_below[of now sid h] rl.recent_allowed[of now sid h] rl.recent_refused[of now sid h]
    rl.recent_other[of j sid now h] rl.allowed_below[of now sid "clear sid h"]
  by (auto simp: WINDOW_MS_def MAX_EVENTS_PER_WINDOW_def)

end
