(* ===== verification/Presence.thy ===== *)
theory Presence
  imports Js_Strings
begin

text \<open>
  \<open>src/presence.js\<close>: who is online. \<open>usersBySocketId\<close> is an insertion-ordered map, which is
  the order \<open>list\<close> reports; \<open>recentlyDisconnected\<close> holds when a lower-cased name last went
  away. Names reach this class only after validation, so lower-casing is lower-casing of ASCII.
  \<open>now\<close> is what \<open>Date.now()\<close> returned.
\<close>

record presence =
  usersBySocketId :: "(jsstr, jsstr) jsmap"
  recentlyDisconnected :: "(jsstr, millis) jsmap"

definition new_Presence :: presence where
  "new_Presence = \<lparr>usersBySocketId = [], recentlyDisconnected = []\<rparr>"

text \<open>\<open>String(username ?? '').trim().toLowerCase()\<close>.\<close>

definition name_key :: "jsstr \<Rightarrow> jsstr" where
  "name_key username = to_lower (js_trim username)"

definition isUsernameTaken :: "jsstr \<Rightarrow> presence \<Rightarrow> bool" where
  "isUsernameTaken username p =
     (let lower = name_key username
      in if lower = [] then False
         else list_ex (\<lambda>(sid, existing). to_lower existing = lower) (usersBySocketId p))"

definition markDisconnected :: "millis \<Rightarrow> jsstr \<Rightarrow> presence \<Rightarrow> presence" where
  "markDisconnected now username p =
     (let lower = name_key username
      in if lower = [] then p
         else p\<lparr>recentlyDisconnected := AList.update lower now (recentlyDisconnected p)\<rparr>)"

text \<open>A timestamp of 0 counts as none, as \<open>!timestamp\<close> does.\<close>

definition hasRecentDisconnect :: "millis \<Rightarrow> jsstr \<Rightarrow> presence \<Rightarrow> bool \<times> presence" where
  "hasRecentDisconnect now username p =
     (let lower = name_key username
      in if lower = [] then (False, p)
         else (case map_of (recentlyDisconnected p) lower of
                 None \<Rightarrow> (False, p)
               | Some timestamp \<Rightarrow>
                   if timestamp = 0 then (False, p)
                   else if now - timestamp < 10000 then (True, p)
                   else (False, p\<lparr>recentlyDisconnected := AList.delete lower (recentlyDisconnected p)\<rparr>)))"

text \<open>The loop over \<open>usersBySocketId\<close> with its \<open>break\<close>: the first holder of the name goes.\<close>

fun drop_first_named :: "jsstr \<Rightarrow> (jsstr, jsstr) jsmap \<Rightarrow> (jsstr, jsstr) jsmap" where
  "drop_first_named lower [] = []"
| "drop_first_named lower ((sid, name) # m) =
     (if to_lower name = lower then m else (sid, name) # drop_first_named lower m)"

definition reclaimUsername :: "millis \<Rightarrow> jsstr \<Rightarrow> jsstr \<Rightarrow> presence \<Rightarrow> bool \<times> presence" where
  "reclaimUsername now socketId username p =
     (let lower = name_key username;
          (recent, p1) = (if lower = [] then (False, p) else hasRecentDisconnect now username p)
      in if lower = [] \<or> \<not> recent then (False, p1)
         else (True, p1\<lparr>usersBySocketId := AList.update socketId username
                           (drop_first_named lower (usersBySocketId p1)),
                         recentlyDisconnected := AList.delete lower (recentlyDisconnected p1)\<rparr>))"

definition add :: "jsstr \<Rightarrow> jsstr \<Rightarrow> presence \<Rightarrow> presence" where
  "add socketId username p =
     p\<lparr>usersBySocketId := AList.update socketId username (usersBySocketId p),
       recentlyDisconnected := AList.delete (to_lower username) (recentlyDisconnected p)\<rparr>"

definition get :: "jsstr \<Rightarrow> presence \<Rightarrow> jsstr option" where
  "get socketId p = map_of (usersBySocketId p) socketId"

definition remove :: "millis \<Rightarrow> jsstr \<Rightarrow> presence \<Rightarrow> jsstr option \<times> presence" where
  "remove now socketId p =
     (let username = get socketId p;
          p1 = p\<lparr>usersBySocketId := AList.delete socketId (usersBySocketId p)\<rparr>
      in (username, case username of
                      None \<Rightarrow> p1
                    | Some u \<Rightarrow> if u = [] then p1 else markDisconnected now u p1))"

definition list_users :: "presence \<Rightarrow> jsstr list" where
  "list_users p = map snd (usersBySocketId p)"

definition count :: "presence \<Rightarrow> nat" where
  "count p = length (usersBySocketId p)"

section \<open>The invariant\<close>

text \<open>Socket ids are distinct (it is a map), and so are the lower-cased names.\<close>

definition presence_ok :: "presence \<Rightarrow> bool" where
  "presence_ok p \<longleftrightarrow> distinct (map fst (usersBySocketId p))
     \<and> distinct (map (\<lambda>(sid, u). to_lower u) (usersBySocketId p))"

text \<open>What the login handler does with the class once a proof has been accepted: reclaim the name
  if it is taken, and add the socket.\<close>

definition admit :: "millis \<Rightarrow> jsstr \<Rightarrow> jsstr \<Rightarrow> presence \<Rightarrow> bool \<times> presence" where
  "admit now socketId username p =
     (if isUsernameTaken username p then
        (let (reclaimed, p1) = reclaimUsername now socketId username p
         in if reclaimed then (True, add socketId username p1) else (False, p1))
      else (True, add socketId username p))"

lemma new_ok: "presence_ok new_Presence"
  by (simp add: presence_ok_def new_Presence_def)

lemma distinct_update_names:
  assumes "distinct (map fst m)" "distinct (map (\<lambda>(sid, u). to_lower u) m)"
    and "to_lower u \<notin> (\<lambda>(sid, u). to_lower u) ` {p \<in> set m. fst p \<noteq> k}"
  shows "distinct (map (\<lambda>(sid, u). to_lower u) (AList.update k u m))"
  using assms
proof (induction m)
  case (Cons x m)
  obtain s v where x: "x = (s, v)" by fastforce
  show ?case
  proof (cases "s = k")
    case True
    have "\<forall>p \<in> set m. fst p \<noteq> k" using Cons.prems(1) x True by force
    then have others: "{p \<in> set (x # m). fst p \<noteq> k} = set m" using x True by auto
    have "to_lower u \<notin> (\<lambda>(sid, u). to_lower u) ` set m" using Cons.prems(3) unfolding others .
    then show ?thesis using Cons.prems(2) x True by auto
  next
    case False
    have "to_lower u \<noteq> to_lower v" using Cons.prems(3) x False by force
    moreover have "to_lower v \<notin> (\<lambda>(sid, u). to_lower u) ` set m" using Cons.prems(2) x by simp
    ultimately have "to_lower v \<notin> (\<lambda>(sid, u). to_lower u) ` set (AList.update k u m)"
      by (force dest: subsetD[OF set_update_subset])
    then show ?thesis using Cons x False by auto
  qed
qed simp

lemma distinct_delete_names:
  "presence_ok p \<Longrightarrow> presence_ok (p\<lparr>usersBySocketId := AList.delete k (usersBySocketId p)\<rparr>)"
  by (auto simp: presence_ok_def AList.delete_eq distinct_map_filter)

lemma set_drop_first:
  "distinct (map (\<lambda>(sid, u). to_lower u) m) \<Longrightarrow>
   set (drop_first_named lower m) = {p \<in> set m. to_lower (snd p) \<noteq> lower}"
  by (induction lower m rule: drop_first_named.induct) force+

lemma distinct_drop_first:
  "distinct (map f m) \<Longrightarrow> distinct (map f (drop_first_named lower m))"
proof (induction lower m rule: drop_first_named.induct)
  case (2 lower sid name m)
  have "set (drop_first_named lower m) \<subseteq> set m"
    by (induction lower m rule: drop_first_named.induct) auto
  with 2 show ?case by auto
qed simp

lemma presence_ok_cong:
  "usersBySocketId p = usersBySocketId q \<Longrightarrow> presence_ok p = presence_ok q"
  by (simp add: presence_ok_def)

lemma add_ok:
  assumes "presence_ok p" and "\<forall>(sid, v) \<in> set (usersBySocketId p). sid \<noteq> socketId \<longrightarrow> to_lower v \<noteq> to_lower u"
  shows "presence_ok (add socketId u p)"
  using assms distinct_update_names[of "usersBySocketId p" u socketId]
  by (force simp: presence_ok_def add_def distinct_update)

lemma hasRecent_users [simp]:
  "usersBySocketId (snd (hasRecentDisconnect now u p)) = usersBySocketId p"
  by (auto simp: hasRecentDisconnect_def Let_def split: option.splits)

lemma reclaim_users:
  assumes "reclaimUsername now sid u p = (True, q)"
  shows "usersBySocketId q = AList.update sid u (drop_first_named (name_key u) (usersBySocketId p))
    \<and> name_key u \<noteq> [] \<and> fst (hasRecentDisconnect now u p)"
proof -
  obtain r p1 where h: "hasRecentDisconnect now u p = (r, p1)" by fastforce
  then have "usersBySocketId p1 = usersBySocketId p" using hasRecent_users[of now u p] by simp
  with assms h show ?thesis
    by (auto simp: reclaimUsername_def Let_def split: if_splits)
qed

lemma reclaim_fails_users:
  "fst (reclaimUsername now sid u p) = False \<Longrightarrow>
   usersBySocketId (snd (reclaimUsername now sid u p)) = usersBySocketId p"
  using hasRecent_users[of now u p]
  by (cases "hasRecentDisconnect now u p") (auto simp: reclaimUsername_def Let_def split: if_splits)

lemma taken_iff:
  assumes "js_trim u = u" and "u \<noteq> []"
  shows "isUsernameTaken u p \<longleftrightarrow> (\<exists>(s, v) \<in> set (usersBySocketId p). to_lower v = to_lower u)"
  using assms by (auto simp: isUsernameTaken_def name_key_def Let_def list_ex_iff to_lower_def)

lemma admit_ok:
  assumes "presence_ok p" and u: "js_trim u = u" "u \<noteq> []"
  shows "presence_ok (snd (admit now sid u p))"
proof (cases "isUsernameTaken u p")
  case False
  then show ?thesis using assms(1) taken_iff[OF u, of p]
    by (auto simp: admit_def intro!: add_ok)
next
  case True
  obtain r q where r: "reclaimUsername now sid u p = (r, q)" by fastforce
  show ?thesis
  proof (cases r)
    case False
    then have "usersBySocketId q = usersBySocketId p" using reclaim_fails_users[of now sid u p] r by simp
    then show ?thesis using True False r assms(1) presence_ok_cong[of q p] by (simp add: admit_def)
  next
    case yes: True
    have k: "name_key u = to_lower u" using u by (simp add: name_key_def)
    let ?m = "drop_first_named (to_lower u) (usersBySocketId p)"
    have q: "usersBySocketId q = AList.update sid u ?m" using reclaim_users[of now sid u p q] r yes k by simp
    have m: "set ?m = {e \<in> set (usersBySocketId p). to_lower (snd e) \<noteq> to_lower u}"
      using assms(1) set_drop_first by (simp add: presence_ok_def)
    have ok: "presence_ok (add sid u (p\<lparr>usersBySocketId := ?m\<rparr>))"
      using assms(1) m by (intro add_ok) (auto simp: presence_ok_def intro: distinct_drop_first)
    have "usersBySocketId (add sid u q) = usersBySocketId (add sid u (p\<lparr>usersBySocketId := ?m\<rparr>))"
      using q by (simp add: add_def)
    then have "presence_ok (add sid u q)" using ok by (simp add: presence_ok_def)
    then show ?thesis using True yes r by (simp add: admit_def)
  qed
qed

section \<open>Logins and disconnects\<close>

text \<open>The two ways in which the socket handlers change this class.\<close>

datatype presence_event =
    Login millis jsstr jsstr
  | Logout millis jsstr

fun apply_presence :: "presence \<Rightarrow> presence_event \<Rightarrow> presence" where
  "apply_presence p (Login now socketId username) = snd (admit now socketId username p)"
| "apply_presence p (Logout now socketId) = snd (remove now socketId p)"

text \<open>Names that \<open>validateUsername\<close> lets through are trimmed and not empty.\<close>

fun valid_event :: "presence_event \<Rightarrow> bool" where
  "valid_event (Login now socketId username) = (js_trim username = username \<and> username \<noteq> [])"
| "valid_event (Logout now socketId) = True"

text \<open>A name that is online is never also recorded as recently gone.\<close>

definition names_apart :: "presence \<Rightarrow> bool" where
  "names_apart p \<longleftrightarrow> (\<forall>(s, v) \<in> set (usersBySocketId p).
     js_trim v = v \<and> v \<noteq> [] \<and> map_of (recentlyDisconnected p) (to_lower v) = None)"

definition presence_inv :: "presence \<Rightarrow> bool" where
  "presence_inv p \<longleftrightarrow> presence_ok p \<and> names_apart p"

lemma new_inv: "presence_inv new_Presence"
  using new_ok by (simp add: presence_inv_def names_apart_def new_Presence_def)

text \<open>A taken name has no recent disconnect, so there is nothing to reclaim it with.\<close>

lemma taken_not_reclaimed:
  assumes "presence_inv p" and u: "js_trim u = u" "u \<noteq> []" and "isUsernameTaken u p"
  shows "reclaimUsername now sid u p = (False, p)"
proof -
  obtain s v where "(s, v) \<in> set (usersBySocketId p)" "to_lower v = to_lower u"
    using assms(4) taken_iff[OF u, of p] by auto
  then have "map_of (recentlyDisconnected p) (to_lower u) = None"
    using assms(1) by (auto simp: presence_inv_def names_apart_def)
  then show ?thesis using u
    by (simp add: reclaimUsername_def hasRecentDisconnect_def name_key_def Let_def)
qed

lemma admit_taken:
  assumes "presence_inv p" "js_trim u = u" "u \<noteq> []"
  shows "admit now sid u p = (if isUsernameTaken u p then (False, p) else (True, add sid u p))"
  using taken_not_reclaimed[OF assms] by (simp add: admit_def)

lemma add_inv:
  assumes "presence_inv p" "js_trim u = u" "u \<noteq> []" "\<not> isUsernameTaken u p"
  shows "presence_inv (add sid u p)"
proof -
  have "presence_ok (add sid u p)"
    using admit_ok[of p u undefined sid] assms admit_taken[of p u undefined sid]
    by (simp add: presence_inv_def)
  moreover have "names_apart (add sid u p)"
    using assms set_update_subset[of sid u "usersBySocketId p"]
    by (fastforce simp: presence_inv_def names_apart_def add_def)
  ultimately show ?thesis by (simp add: presence_inv_def)
qed

lemma same_name_same_socket:
  assumes "presence_inv p" and s: "(s, v) \<in> set (usersBySocketId p)" "(t, w) \<in> set (usersBySocketId p)"
    and l: "to_lower v = to_lower w"
  shows "s = t"
proof -
  have "inj_on (\<lambda>(sid, u). to_lower u) (set (usersBySocketId p))"
    using assms(1) by (simp add: presence_inv_def presence_ok_def distinct_map)
  from inj_onD[OF this _ s] l have "(s, v) = (t, w)" by (simp only: prod.case)
  then show ?thesis by simp
qed

lemma logout_inv:
  assumes "presence_inv p"
  shows "presence_inv (snd (remove now sid p))"
proof -
  let ?p1 = "p\<lparr>usersBySocketId := AList.delete sid (usersBySocketId p)\<rparr>"
  have ok: "presence_ok ?p1" using assms by (intro distinct_delete_names) (simp add: presence_inv_def)
  have apart: "names_apart ?p1" using assms by (auto simp: presence_inv_def names_apart_def set_delete)
  show ?thesis
  proof (cases "get sid p")
    case None
    then show ?thesis using ok apart by (simp add: remove_def presence_inv_def)
  next
    case (Some u)
    then have mem: "(sid, u) \<in> set (usersBySocketId p)" by (simp add: get_def map_of_SomeD)
    then have u: "js_trim u = u" "u \<noteq> []" using assms by (auto simp: presence_inv_def names_apart_def)
    then have key: "name_key u = to_lower u" "to_lower u \<noteq> []"
      by (simp_all add: name_key_def to_lower_def)
    have other: "to_lower v \<noteq> to_lower u" if "(s, v) \<in> set (usersBySocketId ?p1)" for s v
      using that same_name_same_socket[OF assms _ mem] by (auto simp: set_delete)
    have r: "snd (remove now sid p) = ?p1\<lparr>recentlyDisconnected :=
        AList.update (to_lower u) now (recentlyDisconnected p)\<rparr>"
      using Some u key by (simp add: remove_def markDisconnected_def)
    have "names_apart (snd (remove now sid p))"
      unfolding r using apart other by (force simp: names_apart_def)
    moreover have "presence_ok (snd (remove now sid p))"
      unfolding r using ok by (simp add: presence_ok_def)
    ultimately show ?thesis by (simp add: presence_inv_def)
  qed
qed

lemma event_inv:
  "presence_inv p \<Longrightarrow> valid_event e \<Longrightarrow> presence_inv (apply_presence p e)"
  by (cases e) (auto simp: admit_taken add_inv logout_inv)

interpretation online: event_invariant apply_presence valid_event presence_inv
  by unfold_locales (rule event_inv)

section \<open>Properties\<close>

text \<open>
  Names are exclusive on a server. After any sequence of logins and disconnects, no two
  sockets hold names that differ only in case, no socket appears twice, and the online list has
  exactly as many entries as there are distinct names.
\<close>

theorem presence_names_exclusive:
  assumes "list_all valid_event es" and "p = run_events apply_presence new_Presence es"
  shows "distinct (map to_lower (list_users p)) \<and> distinct (map fst (usersBySocketId p))
    \<and> count p = card (to_lower ` set (list_users p))"
proof -
  have "presence_inv p" using online.inv_run[OF new_inv assms(1)] assms(2) by simp
  then have d: "distinct (map to_lower (list_users p))" "distinct (map fst (usersBySocketId p))"
    by (simp_all add: presence_inv_def presence_ok_def list_users_def case_prod_beta' comp_def)
  then show ?thesis
    using distinct_card[OF d(1)] by (simp add: count_def list_users_def image_image)
qed

theorem presence_names_exclusive_witness:
  "\<exists>p. p = run_events apply_presence new_Presence
      [Login 5 [1] (js ''Thor''), Login 6 [2] (js ''THOR''), Login 7 [3] (js ''odin''), Logout 9 [1]]
    \<and> distinct (map to_lower (list_users p))"
  using presence_names_exclusive
    [of "[Login 5 [1] (js ''Thor''), Login 6 [2] (js ''THOR''), Login 7 [3] (js ''odin''), Logout 9 [1]]",
     OF _ refl]
  by (simp add: js_def js_trim_def is_js_space_def of_char_Char)

text \<open>
  C15: the reclaim window never opens. In every state that logins and disconnects reach, a
  login for a name that is online is refused and changes nothing, however recent the last
  disconnect was: \<open>add\<close> deletes the name's entry in \<open>recentlyDisconnected\<close>, and only the removal of
  its holder writes one, so \<open>reclaimUsername\<close>, which the login handler calls for exactly the
  names that are taken, always returns \<open>false\<close>.
\<close>

theorem reclaim_window_never_opens:
  assumes "list_all valid_event es" and "p = run_events apply_presence new_Presence es"
    and "js_trim u = u" and "u \<noteq> []" and "isUsernameTaken u p"
  shows "reclaimUsername now sid u p = (False, p) \<and> admit now sid u p = (False, p)"
proof -
  have "presence_inv p" using online.inv_run[OF new_inv assms(1)] assms(2) by simp
  then show ?thesis using taken_not_reclaimed admit_taken assms(3-5) by simp
qed

theorem reclaim_window_never_opens_witness:
  "\<exists>p. p = run_events apply_presence new_Presence
        [Login 5 [1] (js ''Thor''), Logout 9 [1], Login 10 [2] (js ''Thor'')]
     \<and> fst (admit 11 [3] (js ''thor'') p) = False"
  using reclaim_window_never_opens
    [of "[Login 5 [1] (js ''Thor''), Logout 9 [1], Login 10 [2] (js ''Thor'')]", OF _ refl,
     of "js ''thor''" 11 "[3]"]
  by (simp add: js_def js_trim_def is_js_space_def of_char_Char admit_def add_def remove_def
      get_def markDisconnected_def name_key_def to_lower_def lower_unit_def isUsernameTaken_def
      reclaimUsername_def hasRecentDisconnect_def Let_def new_Presence_def)

text \<open>
  An accepted login gives the name to this socket and to no other, and leaves every other
  socket's name as it was; a disconnect takes exactly that socket's name away, reports it, and
  frees it for the next login.
\<close>

theorem login_then_logout:
  assumes inv: "presence_inv p" and u: "js_trim u = u" "u \<noteq> []"
    and ok: "admit now sid u p = (True, q)"
  shows "get sid q = Some u
    \<and> (\<forall>s. s \<noteq> sid \<longrightarrow> get s q = get s p \<and> get s (snd (remove later sid q)) = get s p)
    \<and> fst (remove later sid q) = Some u
    \<and> \<not> isUsernameTaken u (snd (remove later sid q))"
proof -
  have nt: "\<not> isUsernameTaken u p" and q: "q = add sid u p"
    using admit_taken[OF inv u, of now sid] ok by (auto split: if_splits)
  have g: "get sid q = Some u" by (simp add: q add_def get_def)
  have i: "presence_inv q" using add_inv[OF inv u nt] q by simp
  have r: "usersBySocketId (snd (remove later sid q)) = AList.delete sid (usersBySocketId q)"
    using g by (auto simp: remove_def markDisconnected_def Let_def)
  have "\<not> isUsernameTaken u (snd (remove later sid q))"
  proof
    assume "isUsernameTaken u (snd (remove later sid q))"
    then obtain s v where sv: "(s, v) \<in> set (usersBySocketId q)" "s \<noteq> sid" "to_lower v = to_lower u"
      using r by (auto simp: taken_iff[OF u] set_delete)
    moreover have "(sid, u) \<in> set (usersBySocketId q)" using g by (simp add: get_def map_of_SomeD)
    ultimately show False using same_name_same_socket[OF i] by blast
  qed
  moreover have "fst (remove later sid q) = Some u" using g by (simp add: remove_def Let_def)
  moreover have "get s (snd (remove later sid q)) = get s p" if "s \<noteq> sid" for s
    unfolding get_def r using that by (simp add: q add_def)
  moreover have "get s q = get s p" if "s \<noteq> sid" for s using that by (simp add: q add_def get_def)
  ultimately show ?thesis using g by blast
qed

theorem login_then_logout_witness:
  "fst (remove 8 [1] (snd (admit 5 [1] (js ''Thor'') new_Presence))) = Some (js ''Thor'')"
proof -
  have a: "admit 5 [1] (js ''Thor'') new_Presence = (True, add [1] (js ''Thor'') new_Presence)"
    by (simp add: admit_def isUsernameTaken_def new_Presence_def)
  show ?thesis
    using login_then_logout[OF new_inv _ _ a] unfolding a
    by (simp add: js_def js_trim_def is_js_space_def of_char_Char)
qed

end
