(* ===== verification/Signatures.thy ===== *)
theory Signatures
  imports Utf8 Base64 Js_Values
begin

text \<open>
  \<open>src/crypto/canonical.js\<close> and \<open>src/crypto/signatures.js\<close>. WebCrypto is a parameter: importing
  a key and verifying a signature either throw (\<open>None\<close>) or return. What the code relies on is
  that a signature verifies only over bytes that the holder of the key signed; the theorems
  below show that the bytes then determine the message.
\<close>

section \<open>The canonical bytes\<close>

definition canonical_text :: "jsstr \<Rightarrow> number \<Rightarrow> jsstr \<Rightarrow> jsstr" where
  "canonical_text username timestamp text = username @ [10] @ number_text timestamp @ [10] @ text"

definition buildCanonicalBytes :: "jsstr \<Rightarrow> number \<Rightarrow> jsstr \<Rightarrow> byte list" where
  "buildCanonicalBytes username timestamp text = utf8 (canonical_text username timestamp text)"

section \<open>Verification\<close>

record 'k ecdsa =
  importKey :: "byte list \<Rightarrow> 'k option"
  ec_verify :: "'k \<Rightarrow> byte list \<Rightarrow> byte list \<Rightarrow> bool option"

text \<open>\<open>attested key bytes\<close>: the holder of the private key has signed these bytes.\<close>

definition ecdsa_law :: "'k ecdsa \<Rightarrow> ('k \<Rightarrow> byte list \<Rightarrow> bool) \<Rightarrow> bool" where
  "ecdsa_law ec attested \<longleftrightarrow>
     (\<forall>key sig bytes. ec_verify ec key sig bytes = Some True \<longrightarrow> attested key bytes)"

text \<open>The \<open>try\<close> around both calls: any exception is a bad signature.\<close>

definition verifyBytes :: "'k ecdsa \<Rightarrow> byte list \<Rightarrow> jsstr \<Rightarrow> jsstr \<Rightarrow> bool" where
  "verifyBytes ec bytes signatureB64 publicKeyB64 =
     (case importKey ec (from_base64 publicKeyB64) of
        None \<Rightarrow> False
      | Some cryptoKey \<Rightarrow>
          (case ec_verify ec cryptoKey (from_base64 signatureB64) bytes of
             None \<Rightarrow> False
           | Some b \<Rightarrow> b))"

definition verifySignature :: "'k ecdsa \<Rightarrow> jsstr \<Rightarrow> number \<Rightarrow> jsstr \<Rightarrow> jsstr \<Rightarrow> jsstr \<Rightarrow> bool" where
  "verifySignature ec username clientTimestamp text signatureB64 publicKeyB64 =
     verifyBytes ec (buildCanonicalBytes username clientTimestamp text) signatureB64 publicKeyB64"

text \<open>\<open>randomBytes(32).toString('base64')\<close>; the bytes are an argument.\<close>

definition createChallenge :: "byte list \<Rightarrow> jsstr" where
  "createChallenge random = to_base64 random"

text \<open>Comparisons with \<open>NaN\<close> are false, and no infinite difference is within the skew.\<close>

definition maxSkewMs :: rat where
  "maxSkewMs = 60000"

fun isTimestampFresh :: "millis \<Rightarrow> number \<Rightarrow> bool" where
  "isTimestampFresh now (Finite t text) = (\<bar>of_int now - t\<bar> \<le> maxSkewMs)"
| "isTimestampFresh now (NotFinite text) = False"

section \<open>The canonical bytes determine the message\<close>

lemma newline_code_point:
  "10 \<notin> set s \<Longrightarrow> 10 \<notin> set (code_points s)"
proof (induction s rule: code_points.induct)
  case (3 c d cs)
  then show ?case
    using pair_point_bounds[of c d]
    by (auto simp: single_point_def word_unat_eq_iff split: if_splits)
qed (auto simp: single_point_def word_unat_eq_iff)

lemma code_points_newline: "code_points (10 # s) = 10 # code_points s"
  by (cases s) (auto simp: is_high_def single_point_def is_low_def)

lemma code_points_at_newline: "code_points (a @ 10 # s) = code_points a @ 10 # code_points s"
  by (subst code_points_append) (auto simp: is_low_def code_points_newline)

lemma code_points_canonical:
  "code_points (canonical_text u n t)
     = code_points u @ 10 # code_points (number_text n) @ 10 # code_points t"
  by (simp add: canonical_text_def code_points_at_newline)

lemma utf8_code_points: "utf8 s = utf8 t \<Longrightarrow> code_points s = code_points t"
  by (metis utf8_decode_nats unat_utf8)

lemma split_at_first:
  "x \<notin> set a \<Longrightarrow> x \<notin> set b \<Longrightarrow> a @ x # r = b @ x # s \<Longrightarrow> a = b \<and> r = s"
proof (induction a arbitrary: b)
  case Nil
  then show ?case by (cases b) auto
next
  case (Cons y a)
  then show ?case by (cases b) auto
qed

lemma to_well_formed_points: "code_points s = code_points t \<Longrightarrow> to_well_formed s = to_well_formed t"
  by (simp add: to_well_formed_def)

lemma canonical_fields:
  assumes "10 \<notin> set u" "10 \<notin> set u'" "10 \<notin> set (number_text n)" "10 \<notin> set (number_text n')"
    and "buildCanonicalBytes u n t = buildCanonicalBytes u' n' t'"
  shows "to_well_formed u = to_well_formed u' \<and> to_well_formed (number_text n) = to_well_formed (number_text n')
    \<and> to_well_formed t = to_well_formed t'"
proof -
  have "code_points u @ 10 # code_points (number_text n) @ 10 # code_points t
      = code_points u' @ 10 # code_points (number_text n') @ 10 # code_points t'"
    using utf8_code_points[OF assms(5)[unfolded buildCanonicalBytes_def]]
    by (simp only: code_points_canonical)
  from split_at_first[OF newline_code_point newline_code_point this] assms(1,2)
  have u: "code_points u = code_points u'"
    and r: "code_points (number_text n) @ 10 # code_points t = code_points (number_text n') @ 10 # code_points t'"
    by auto
  from split_at_first[OF newline_code_point newline_code_point r] assms(3,4)
  have "code_points (number_text n) = code_points (number_text n')" "code_points t = code_points t'" by auto
  with u show ?thesis using to_well_formed_points by blast
qed

lemma verifyBytes_signed:
  assumes "ecdsa_law ec attested" "verifyBytes ec bytes sig pk"
  shows "\<exists>key. importKey ec (from_base64 pk) = Some key \<and> attested key bytes"
  using assms by (auto simp: verifyBytes_def ecdsa_law_def split: option.splits)

text \<open>\<open>Number.prototype.toString\<close> prints visible ASCII only.\<close>

definition printed_number :: "number \<Rightarrow> bool" where
  "printed_number n \<longleftrightarrow> list_all (\<lambda>c. 33 \<le> c \<and> c \<le> 126) (number_text n)"

lemma ascii_unit: "c \<le> 126 \<Longrightarrow> \<not> is_high (c :: code_unit) \<and> \<not> is_low c"
  by (auto simp: is_high_def is_low_def word_le_nat_alt)

lemma well_formed_ascii: "list_all (\<lambda>c. c \<le> 126) s \<Longrightarrow> well_formed s"
  by (induction s rule: well_formed.induct) (auto simp: ascii_unit)

lemma printed_number_facts:
  "printed_number n \<Longrightarrow> 10 \<notin> set (number_text n) \<and> well_formed (number_text n)"
  by (auto simp: printed_number_def list_all_iff intro!: well_formed_ascii)

section \<open>Properties\<close>

text \<open>
  The canonical bytes determine the message. Names without line breaks and printed numbers
  cannot be confused with the text that follows them, line breaks in the text included: equal
  bytes mean the same name, the same claimed timestamp and the same text.
\<close>

theorem canonical_bytes_injective:
  assumes "10 \<notin> set u" "10 \<notin> set u'" "printed_number n" "printed_number n'"
    and wf: "well_formed u" "well_formed u'" "well_formed t" "well_formed t'"
    and eq: "buildCanonicalBytes u n t = buildCanonicalBytes u' n' t'"
  shows "u = u' \<and> number_text n = number_text n' \<and> t = t'"
  using canonical_fields[OF assms(1,2) _ _ eq] printed_number_facts[OF assms(3)]
    printed_number_facts[OF assms(4)] wf
  by (simp add: to_well_formed_id)

theorem canonical_bytes_injective_witness:
  "buildCanonicalBytes (js ''al'') (int_number 17) (js ''b'') \<noteq> buildCanonicalBytes (js ''al'') (int_number 1) (js ''7b'')"
proof
  assume "buildCanonicalBytes (js ''al'') (int_number 17) (js ''b'') = buildCanonicalBytes (js ''al'') (int_number 1) (js ''7b'')"
  from canonical_bytes_injective[OF _ _ _ _ _ _ _ _ this] show False
    by (simp add: of_char_Char printed_number_def int_number_def num_str_def dec_digits.simps is_high_def is_low_def)
qed

text \<open>
  A verified message was signed. If the holder of a key has signed nothing but the
  canonical bytes of certain messages, then a name, timestamp and text that verify under that
  key are one of these messages; no signature can be moved to another name, time or text.
\<close>

theorem verified_message_was_signed:
  assumes "ecdsa_law ec attested"
    and "importKey ec (from_base64 pk) = Some key"
    and holder: "\<And>bytes. attested key bytes \<Longrightarrow> \<exists>(u, n, t) \<in> set messages. bytes = buildCanonicalBytes u n t"
    and clean: "\<forall>(u, n, t) \<in> set messages. 10 \<notin> set u \<and> well_formed u \<and> printed_number n \<and> well_formed t"
    and "10 \<notin> set username" "well_formed username" "printed_number ts" "well_formed text"
    and "verifySignature ec username ts text sig pk"
  shows "\<exists>n. (username, n, text) \<in> set messages \<and> number_text n = number_text ts"
proof -
  have "attested key (buildCanonicalBytes username ts text)"
    using verifyBytes_signed[OF assms(1)] assms(2,9) by (fastforce simp: verifySignature_def)
  from holder[OF this] obtain u n t where m: "(u, n, t) \<in> set messages"
    and eq: "buildCanonicalBytes username ts text = buildCanonicalBytes u n t" by auto
  have "10 \<notin> set u" "printed_number n" "well_formed u" "well_formed t" using clean m by auto
  from canonical_bytes_injective[OF assms(5) this(1) assms(7) this(2) assms(6) this(3) assms(8) this(4) eq] m
  show ?thesis by auto
qed

theorem verified_message_was_signed_witness:
  "\<exists>n. (js ''al'', n, js ''hi'') \<in> set [(js ''al'', int_number 5, js ''hi'')]"
proof -
  let ?b = "buildCanonicalBytes (js ''al'') (int_number 5) (js ''hi'')"
  let ?ec = "\<lparr>importKey = Some, ec_verify = (\<lambda>key sig bytes. Some (bytes = ?b))\<rparr>"
  have "\<exists>n. (js ''al'', n, js ''hi'') \<in> set [(js ''al'', int_number 5, js ''hi'')]
      \<and> number_text n = number_text (int_number 5)"
  proof (rule verified_message_was_signed[of ?ec "\<lambda>key bytes. bytes = ?b" "[]" "[]"])
    show "verifySignature ?ec (js ''al'') (int_number 5) (js ''hi'') [] []"
      by (simp add: verifySignature_def verifyBytes_def)
  qed (auto simp: ecdsa_law_def from_base64_def of_char_Char printed_number_def int_number_def
      num_str_def dec_digits.simps is_high_def is_low_def)
  then show ?thesis by blast
qed

text \<open>
  Replay window. A message accepted as fresh at one time can be accepted again at most two
  minutes later, whatever number the client claimed; a claimed time that is not finite is never
  fresh.
\<close>

theorem freshness_window:
  assumes "isTimestampFresh now n" and "isTimestampFresh later n"
  shows "later - now \<le> 120000 \<and> (\<exists>t s. n = Finite t s)"
proof (cases n)
  case (Finite t s)
  then have "\<bar>of_int now - t\<bar> \<le> 60000" "\<bar>of_int later - t\<bar> \<le> 60000"
    using assms by (auto simp: maxSkewMs_def)
  then have "of_int (later - now) \<le> (of_int 120000 :: rat)" by (simp add: abs_le_iff)
  then show ?thesis using Finite by (simp only: of_int_le_iff) simp
qed (use assms in auto)

theorem freshness_window_witness: "(105000::int) - 1000 \<le> 120000"
  using freshness_window[of 1000 "int_number 50000" 105000]
  by (simp add: int_number_def maxSkewMs_def)

end
