(* ===== verification/Messages.thy ===== *)
theory Messages
  imports Js_Values
begin

text \<open>
  \<open>src/db/messageRepository.js\<close> and \<open>src/db/senderRepository.js\<close>: the documents of the two
  collections and the functions that write and read them. MongoDB is outside the program: its
  answers are arguments, and what the code relies on (the order and limit of a query, an
  upsert that only inserts) is stated as named hypotheses.
\<close>

section \<open>Documents\<close>

type_synonym objectid = "96 word"

text \<open>A binary field as the driver hands it back: absent, a \<open>Buffer\<close>, a wrapper with a member
  \<open>buffer\<close>, or something else that \<open>Buffer.from\<close> copies.\<close>

datatype bin_value = NoValue | IsBuffer "byte list" | HasBuffer "byte list" | OtherBytes "byte list"

fun toBuffer :: "bin_value \<Rightarrow> byte list option" where
  "toBuffer NoValue = None"
| "toBuffer (IsBuffer b) = Some b"
| "toBuffer (HasBuffer b) = Some b"
| "toBuffer (OtherBytes b) = Some b"

record document =
  d_id :: objectid
  d_msgId :: "jsstr option"
  d_roomId :: jsstr
  d_senderId :: jsstr
  d_ciphertext :: bin_value
  d_nonce :: bin_value
  d_signature :: bin_value
  d_senderPublicKey :: bin_value
  d_timestamp :: "millis option"
  d_clientTimestamp :: "number option"
  d_source :: "jsstr option"

text \<open>\<open>ObjectId.toHexString\<close>: 24 lower-case hexadecimal digits.\<close>

definition hex_char :: "nat \<Rightarrow> code_unit" where
  "hex_char d = of_nat (if d < 10 then 48 + d else 87 + d)"

definition toHexString :: "objectid \<Rightarrow> jsstr" where
  "toHexString i = map (\<lambda>k. hex_char (unat i div 16 ^ (23 - k) mod 16)) [0..<24]"

section \<open>saveMessage\<close>

text \<open>The destructured argument; \<open>None\<close> is a member that was left out.\<close>

record save_args =
  sa_roomId :: jsstr
  sa_senderId :: jsstr
  sa_msgId :: "jsstr option"
  sa_ciphertext :: "byte list"
  sa_nonce :: "byte list option"
  sa_signature :: "byte list option"
  sa_senderPublicKey :: "byte list option"
  sa_timestamp :: "millis option"
  sa_clientTimestamp :: "number option"

definition buffer_or_null :: "byte list option \<Rightarrow> bin_value" where
  "buffer_or_null b = (case b of None \<Rightarrow> NoValue | Some bs \<Rightarrow> IsBuffer bs)"

text \<open>The document given to \<open>insertOne\<close>, with the id the driver assigns to it.\<close>

definition message_document :: "objectid \<Rightarrow> jsstr \<Rightarrow> millis \<Rightarrow> save_args \<Rightarrow> document" where
  "message_document oid uuid now a =
     (let timestamp = (case sa_timestamp a of None \<Rightarrow> now | Some t \<Rightarrow> t)
      in \<lparr>d_id = oid,
          d_msgId = Some (case sa_msgId a of None \<Rightarrow> uuid | Some i \<Rightarrow> i),
          d_roomId = sa_roomId a, d_senderId = sa_senderId a,
          d_ciphertext = IsBuffer (sa_ciphertext a), d_nonce = buffer_or_null (sa_nonce a),
          d_signature = buffer_or_null (sa_signature a),
          d_senderPublicKey = buffer_or_null (sa_senderPublicKey a),
          d_timestamp = Some timestamp,
          d_clientTimestamp = Some (case sa_clientTimestamp a of
              None \<Rightarrow> int_number timestamp | Some n \<Rightarrow> n),
          d_source = None\<rparr>)"

text \<open>\<open>insertOne\<close> answers with a rejection or lets the document in.\<close>

definition saveMessage ::
  "(document \<Rightarrow> 'db \<Rightarrow> ('e + unit) \<times> 'db) \<Rightarrow> objectid \<Rightarrow> jsstr \<Rightarrow> millis \<Rightarrow> save_args \<Rightarrow> 'db
     \<Rightarrow> ('e + jsstr) \<times> 'db" where
  "saveMessage insertOne oid uuid now a db =
     (case insertOne (message_document oid uuid now a) db of
        (Inl e, db') \<Rightarrow> (Inl e, db')
      | (Inr _, db') \<Rightarrow> (Inr (toHexString oid), db'))"

section \<open>getHistory\<close>

definition DEFAULT_HISTORY_LIMIT :: nat where
  "DEFAULT_HISTORY_LIMIT = 100"

record stored_message =
  sm_id :: jsstr
  sm_msgId :: "jsstr option"
  sm_senderId :: jsstr
  sm_ciphertext :: "byte list option"
  sm_nonce :: "byte list option"
  sm_signature :: "byte list option"
  sm_senderPublicKey :: "byte list option"
  sm_timestamp :: "millis option"
  sm_clientTimestamp :: "number option"

definition stored_message_of :: "document \<Rightarrow> stored_message" where
  "stored_message_of doc =
     \<lparr>sm_id = toHexString (d_id doc), sm_msgId = d_msgId doc, sm_senderId = d_senderId doc,
      sm_ciphertext = toBuffer (d_ciphertext doc), sm_nonce = toBuffer (d_nonce doc),
      sm_signature = toBuffer (d_signature doc),
      sm_senderPublicKey = toBuffer (d_senderPublicKey doc),
      sm_timestamp = d_timestamp doc, sm_clientTimestamp = d_clientTimestamp doc\<rparr>"

text \<open>\<open>query room limit\<close> is what \<open>find({ roomId }).sort({ _id: -1 }).limit(limit).toArray()\<close>
  returned.\<close>

definition getHistory :: "(jsstr \<Rightarrow> nat \<Rightarrow> document list) \<Rightarrow> jsstr \<Rightarrow> nat \<Rightarrow> stored_message list" where
  "getHistory query roomId limit = map stored_message_of (rev (query roomId limit))"

text \<open>The documented result of that query on a collection with these documents.\<close>

definition newest_first :: "document list \<Rightarrow> jsstr \<Rightarrow> nat \<Rightarrow> document list" where
  "newest_first docs roomId limit =
     take limit (rev (sort_key d_id (filter (\<lambda>d. d_roomId d = roomId) docs)))"

section \<open>The senders collection\<close>

record sender =
  s_id :: jsstr
  s_publicKey :: jsstr
  s_firstSeen :: millis

record 'db sender_ops =
  so_findOne :: "jsstr \<Rightarrow> 'db \<Rightarrow> sender option"
  so_upsert :: "sender \<Rightarrow> 'db \<Rightarrow> 'db"

text \<open>\<open>updateOne\<close> with \<open>$setOnInsert\<close> and \<open>upsert: true\<close> inserts a document for a new id and
  leaves an existing one as it is.\<close>

definition sender_law :: "'db sender_ops \<Rightarrow> bool" where
  "sender_law so \<longleftrightarrow> (\<forall>k s db. so_findOne so k (so_upsert so s db) =
     (if k = s_id s \<and> so_findOne so k db = None then Some s else so_findOne so k db))"

definition findSender :: "'db sender_ops \<Rightarrow> jsstr \<Rightarrow> 'db \<Rightarrow> sender option" where
  "findSender so username db = so_findOne so (to_lower username) db"

definition registerSender :: "'db sender_ops \<Rightarrow> millis \<Rightarrow> jsstr \<Rightarrow> jsstr \<Rightarrow> 'db \<Rightarrow> 'db" where
  "registerSender so now username publicKey db =
     so_upsert so \<lparr>s_id = to_lower username, s_publicKey = publicKey, s_firstSeen = now\<rparr> db"

section \<open>Facts\<close>

lemma unat_hex_char: "d < 16 \<Longrightarrow> unat (hex_char d) = (if d < 10 then 48 + d else 87 + d)"
proof -
  assume d: "d < 16"
  have "unat (of_nat n :: code_unit) = n" if "n < 65536" for n
    unfolding unsigned_of_nat using that by (simp add: take_bit_nat_eq_self)
  then show ?thesis using d by (simp add: hex_char_def)
qed

lemma hex_char_inject: "d < 16 \<Longrightarrow> e < 16 \<Longrightarrow> hex_char d = hex_char e \<Longrightarrow> d = e"
proof -
  assume l: "d < 16" "e < 16" and eq: "hex_char d = hex_char e"
  have "(if d < 10 then 48 + d else 87 + d) = (if e < 10 then 48 + e else 87 + e)"
    using unat_hex_char[OF l(1)] unat_hex_char[OF l(2)] eq by (simp only:)
  then show ?thesis using l by (simp split: if_splits)
qed

lemma hex_digits_determine:
  "(\<And>k. k < n \<Longrightarrow> x div 16 ^ k mod 16 = y div 16 ^ k mod 16) \<Longrightarrow>
   x mod 16 ^ n = y mod (16 ^ n :: nat)"
proof (induction n)
  case (Suc n)
  then have "x mod 16 ^ n = y mod 16 ^ n" "x div 16 ^ n mod 16 = y div 16 ^ n mod 16" by auto
  then show ?case by (simp add: mod_mult2_eq mult.commute[of 16])
qed simp

lemma toHexString_inject: "toHexString i = toHexString j \<Longrightarrow> i = j"
proof -
  assume eq: "toHexString i = toHexString j"
  have "unat i div 16 ^ k mod 16 = unat j div 16 ^ k mod 16" if "k < 24" for k
  proof -
    have "toHexString i ! (23 - k) = toHexString j ! (23 - k)" using eq by simp
    then have "hex_char (unat i div 16 ^ k mod 16) = hex_char (unat j div 16 ^ k mod 16)"
      using that nth_upt[of 0 "23 - k" 24] by (simp add: toHexString_def)
    then show ?thesis by (rule hex_char_inject[rotated 2]) auto
  qed
  then have "unat i mod 16 ^ 24 = unat j mod 16 ^ 24" by (rule hex_digits_determine)
  moreover have "unat i < 16 ^ 24" "unat j < 16 ^ 24"
    using unsigned_less[of i] unsigned_less[of j] by simp_all
  ultimately show ?thesis by (simp add: word_unat_eq_iff)
qed

lemma toBuffer_or_null [simp]: "toBuffer (buffer_or_null b) = b"
  by (cases b) (simp_all add: buffer_or_null_def)

lemma rev_newest_first:
  "rev (newest_first docs r n) =
     (let room = sort_key d_id (filter (\<lambda>d. d_roomId d = r) docs) in drop (length room - n) room)"
  by (simp add: newest_first_def Let_def rev_take)

lemma sorted_distinct_key:
  "distinct (map d_id docs) \<Longrightarrow> sorted_wrt (<) (map d_id (sort_key d_id (filter P docs)))"
  by (auto simp: strict_sorted_iff distinct_map intro: inj_on_subset)

lemma sort_key_snoc:
  assumes "\<forall>d \<in> set xs. f d \<le> f x"
  shows "sort_key f (xs @ [x]) = sort_key f xs @ [x]"
proof (rule properties_for_sort_key)
  show "sorted (map f (sort_key f xs @ [x]))" using assms by (auto simp: sorted_append)
next
  fix k assume "k \<in> set (sort_key f xs @ [x])"
  show "filter (\<lambda>y. f k = f y) (sort_key f xs @ [x]) = filter (\<lambda>y. f k = f y) (xs @ [x])"
    using sort_key_stable[of f "f k" xs] by (simp add: eq_commute)
qed simp

section \<open>Properties\<close>

text \<open>
  History is the newest messages in reading order. Under the documented behaviour of the
  query, \<open>getHistory\<close> returns the room's messages in strictly ascending id order, as many as the
  limit allows, and every message of the room that is left out is older than every message
  that is shown.
\<close>

theorem getHistory_newest_in_order:
  assumes "distinct (map d_id docs)" and query: "query roomId limit = newest_first docs roomId limit"
  shows "\<exists>shown. getHistory query roomId limit = map stored_message_of shown
    \<and> sorted_wrt (<) (map d_id shown)
    \<and> length shown = min limit (length (filter (\<lambda>d. d_roomId d = roomId) docs))
    \<and> set shown \<subseteq> {d \<in> set docs. d_roomId d = roomId}
    \<and> (\<forall>d \<in> {d \<in> set docs. d_roomId d = roomId} - set shown. \<forall>e \<in> set shown. d_id d < d_id e)"
proof -
  let ?room = "sort_key d_id (filter (\<lambda>d. d_roomId d = roomId) docs)"
  let ?shown = "drop (length ?room - limit) ?room"
  have sorted: "sorted_wrt (<) (map d_id ?room)" by (rule sorted_distinct_key[OF assms(1)])
  then have "sorted_wrt (<) (map d_id (take (length ?room - limit) ?room @ ?shown))"
    by (simp only: append_take_drop_id)
  then have split: "sorted_wrt (<) (map d_id ?shown)"
    "\<forall>d \<in> set (take (length ?room - limit) ?room). \<forall>e \<in> set ?shown. d_id d < d_id e"
    unfolding map_append sorted_wrt_append by auto
  have room: "set ?room = {d \<in> set docs. d_roomId d = roomId}" by simp
  have hist: "getHistory query roomId limit = map stored_message_of ?shown"
    using rev_newest_first[of docs roomId limit] by (simp add: getHistory_def query Let_def)
  have older: "d_id d < d_id e" if "d \<in> set ?room - set ?shown" "e \<in> set ?shown" for d e
  proof -
    have "d \<in> set (take (length ?room - limit) ?room)"
      using that(1) by (metis Diff_iff Un_iff append_take_drop_id set_append)
    then show ?thesis using split(2) that(2) by blast
  qed
  have "set ?shown \<subseteq> {d \<in> set docs. d_roomId d = roomId}" using set_drop_subset room by metis
  then show ?thesis using hist split(1) older room by (intro exI[of _ ?shown] conjI) auto
qed

definition sample_doc :: "objectid \<Rightarrow> document" where
  "sample_doc i = \<lparr>d_id = i, d_msgId = None, d_roomId = js ''main'', d_senderId = js ''al'',
     d_ciphertext = IsBuffer [1], d_nonce = NoValue, d_signature = NoValue,
     d_senderPublicKey = NoValue, d_timestamp = Some 7, d_clientTimestamp = None, d_source = None\<rparr>"

theorem getHistory_newest_in_order_witness:
  "length (getHistory (newest_first [sample_doc 3, sample_doc 1, sample_doc 2]) (js ''main'') 2) = 2"
  using getHistory_newest_in_order
    [of "[sample_doc 3, sample_doc 1, sample_doc 2]" "newest_first [sample_doc 3, sample_doc 1, sample_doc 2]"
      "js ''main''" 2, OF _ refl]
  by (auto simp: sample_doc_def)

text \<open>
  What is saved is what history returns. A message saved with an id newer than everything in
  the room comes back as the last entry of the next non-empty history, with the same name,
  ciphertext, nonce, signature and key bytes, the server's time, and the client's claimed time
  or the server's when there was none; and its id is the one \<open>saveMessage\<close> returned.
\<close>

theorem saved_message_ends_history:
  assumes "0 < limit"
    and newest: "\<forall>d \<in> set docs. d_id d < oid"
    and insertOne: "insertOne doc docs = (Inr (), docs @ [doc])" "doc = message_document oid uuid now a"
    and saved: "saveMessage insertOne oid uuid now a docs = (result, docs')"
    and query: "query (sa_roomId a) limit = newest_first docs' (sa_roomId a) limit"
  shows "\<exists>m. last (getHistory query (sa_roomId a) limit) = m \<and> result = Inr (sm_id m)
    \<and> sm_senderId m = sa_senderId a \<and> sm_ciphertext m = Some (sa_ciphertext a)
    \<and> sm_nonce m = sa_nonce a \<and> sm_signature m = sa_signature a
    \<and> sm_senderPublicKey m = sa_senderPublicKey a
    \<and> sm_timestamp m = Some (case sa_timestamp a of None \<Rightarrow> now | Some t \<Rightarrow> t)
    \<and> (case sa_clientTimestamp a of
          Some n \<Rightarrow> sm_clientTimestamp m = Some n
        | None \<Rightarrow> map_option int_number (sm_timestamp m) = sm_clientTimestamp m)"
proof -
  let ?room = "\<lambda>ds. filter (\<lambda>d. d_roomId d = sa_roomId a) ds"
  have doc: "d_roomId doc = sa_roomId a" "d_id doc = oid"
    using insertOne(2) by (simp_all add: message_document_def Let_def)
  have docs': "docs' = docs @ [doc]" "result = Inr (toHexString oid)"
    using saved insertOne by (auto simp: saveMessage_def)
  have "\<forall>d \<in> set (?room docs). d_id d \<le> d_id doc"
    using newest doc by (auto intro: less_imp_le)
  then have snoc: "sort_key d_id (?room docs @ [doc]) = sort_key d_id (?room docs) @ [doc]"
    by (rule sort_key_snoc)
  then have "last (rev (newest_first docs' (sa_roomId a) limit)) = doc"
    using doc docs' assms(1) snoc by (simp add: rev_newest_first Let_def)
  moreover have "newest_first docs' (sa_roomId a) limit \<noteq> []"
    using doc docs' assms(1) snoc by (simp add: newest_first_def)
  ultimately have "last (getHistory query (sa_roomId a) limit) = stored_message_of doc"
    by (simp add: getHistory_def query last_map)
  then show ?thesis
    using docs' insertOne(2) doc
    by (simp add: stored_message_of_def message_document_def Let_def split: option.split)
qed

definition sample_args :: save_args where
  "sample_args = \<lparr>sa_roomId = js ''main'', sa_senderId = js ''al'', sa_msgId = None,
     sa_ciphertext = [1, 2], sa_nonce = Some [3], sa_signature = None, sa_senderPublicKey = None,
     sa_timestamp = None, sa_clientTimestamp = None\<rparr>"

theorem saved_message_ends_history_witness:
  "\<exists>m. last (getHistory (newest_first ([sample_doc 1, sample_doc 2] @ [message_document 3 (js ''u'') 9 sample_args]))
       (js ''main'') 5) = m \<and> sm_ciphertext m = Some [1, 2] \<and> sm_timestamp m = Some 9"
proof -
  let ?d = "message_document 3 (js ''u'') 9 sample_args"
  let ?docs = "[sample_doc 1, sample_doc 2]"
  have room: "sa_roomId sample_args = js ''main''" by (simp add: sample_args_def)
  have "saveMessage (\<lambda>doc db. (Inr () :: js_error + unit, db @ [doc])) 3 (js ''u'') 9 sample_args ?docs
      = (Inr (toHexString 3), ?docs @ [?d])" by (simp add: saveMessage_def)
  from saved_message_ends_history[of 5 ?docs 3 _ ?d "js ''u''" 9 sample_args _ _ "newest_first (?docs @ [?d])",
      OF _ _ _ refl this, unfolded room]
  show ?thesis by (auto simp: sample_doc_def sample_args_def)
qed

section \<open>Registrations\<close>

fun register_all :: "'db sender_ops \<Rightarrow> (millis \<times> jsstr \<times> jsstr) list \<Rightarrow> 'db \<Rightarrow> 'db" where
  "register_all so [] db = db"
| "register_all so ((now, username, publicKey) # rs) db =
     register_all so rs (registerSender so now username publicKey db)"

lemma find_register:
  "sender_law so \<Longrightarrow> findSender so u (registerSender so now v k db) =
     (if to_lower u = to_lower v \<and> findSender so u db = None
      then Some \<lparr>s_id = to_lower v, s_publicKey = k, s_firstSeen = now\<rparr> else findSender so u db)"
proof -
  assume "sender_law so"
  then have "so_findOne so (to_lower u) (so_upsert so s db) = (if to_lower u = s_id s
      \<and> so_findOne so (to_lower u) db = None then Some s else so_findOne so (to_lower u) db)" for s
    unfolding sender_law_def by blast
  then show ?thesis
    by (cases "to_lower u = to_lower v") (simp_all add: findSender_def registerSender_def)
qed

lemma registered_stays:
  "sender_law so \<Longrightarrow> findSender so u db = Some s \<Longrightarrow> findSender so u (register_all so rs db) = Some s"
  by (induction rs arbitrary: db) (auto simp: find_register)

text \<open>
  Trust on first use. Whatever registrations follow, from whatever server, the key stored for a
  name is the first one registered for it, upper and lower case being the same name; a name
  nobody registered has none.
\<close>

theorem first_key_sticks:
  assumes law: "sender_law so" and "findSender so u db = None"
  shows "map_option s_publicKey (findSender so u (register_all so rs db)) =
    (case filter (\<lambda>(now, v, k). to_lower v = to_lower u) rs of
       [] \<Rightarrow> None | (now, v, k) # _ \<Rightarrow> Some k)"
  using assms(2)
proof (induction rs arbitrary: db)
  case (Cons r rs)
  obtain now v k where r: "r = (now, v, k)" by (cases r)
  show ?case
  proof (cases "to_lower u = to_lower v")
    case True
    then have "findSender so u (registerSender so now v k db)
        = Some \<lparr>s_id = to_lower v, s_publicKey = k, s_firstSeen = now\<rparr>"
      using Cons.prems law by (simp add: find_register)
    from registered_stays[OF law this] show ?thesis using r True by simp
  next
    case False
    then show ?thesis using Cons.prems law r Cons.IH[of "registerSender so now v k db"]
      by (auto simp: find_register)
  qed
qed simp

definition map_senders :: "(jsstr \<Rightarrow> sender option) sender_ops" where
  "map_senders = \<lparr>so_findOne = (\<lambda>k db. db k),
     so_upsert = (\<lambda>s db. case db (s_id s) of None \<Rightarrow> db(s_id s \<mapsto> s) | Some _ \<Rightarrow> db)\<rparr>"

theorem first_key_sticks_witness:
  "map_option s_publicKey (findSender map_senders (js ''Bob'')
     (register_all map_senders [(1, js ''bob'', js ''k1''), (2, js ''BOB'', js ''k2'')] Map.empty)) = Some (js ''k1'')"
proof -
  have "sender_law map_senders" by (auto simp: sender_law_def map_senders_def split: option.splits)
  moreover have "findSender map_senders (js ''Bob'') Map.empty = None"
    by (simp add: findSender_def map_senders_def)
  ultimately have "map_option s_publicKey (findSender map_senders (js ''Bob'')
      (register_all map_senders [(1, js ''bob'', js ''k1''), (2, js ''BOB'', js ''k2'')] Map.empty))
    = (case filter (\<lambda>(now, v, k). to_lower v = to_lower (js ''Bob''))
        [(1 :: millis, js ''bob'', js ''k1''), (2, js ''BOB'', js ''k2'')] of
        [] \<Rightarrow> None | (now, v, k) # _ \<Rightarrow> Some k)"
    by (rule first_key_sticks)
  then show ?thesis
    by (simp add: to_lower_def lower_unit_def of_char_Char del: register_all.simps)
qed

end
