(* ===== verification/Feed_Json.thy ===== *)
theory Feed_Json
  imports Json "HOL-Library.Monad_Syntax"
begin

text \<open>
  The text of one entry of the feed (\<open>serialise\<close> and \<open>timestampOf\<close> of \<open>src/api/feedStore.js\<close>),
  and a reader for it: a client that parses the feed gets back exactly the fields that were
  serialised, whatever the name, id and message contain.
\<close>

section \<open>serialise\<close>

definition json_nullable :: "jsstr option \<Rightarrow> jsstr" where
  "json_nullable t = (case t of None \<Rightarrow> js ''null'' | Some s \<Rightarrow> json_quote s)"

text \<open>\<open>integrity\<close> is \<open>null\<close> or the string \<open>failed\<close>.\<close>

definition serialise :: "jsstr \<Rightarrow> jsstr \<Rightarrow> jsstr option \<Rightarrow> millis \<Rightarrow> bool \<Rightarrow> jsstr" where
  "serialise msgId clientName text ts failed =
     js ''{\"id\":'' @ json_quote msgId @
     js '',\"client-name\":'' @ json_quote clientName @
     js '',\"msg\":'' @ json_nullable text @
     js '',\"ts\":'' @ num_str ts @
     (if failed then js '',\"integrity\":\"failed\"'' else []) @ js ''}''"

definition TS_FIELD :: jsstr where
  "TS_FIELD = js ''\"ts\":''"

text \<open>\<open>Number.parseInt(entry.slice(at + 5), 10) || 0\<close>.\<close>

definition timestampOf :: "jsstr \<Rightarrow> int" where
  "timestampOf entry =
     (case last_index_of TS_FIELD entry of
        None \<Rightarrow> 0
      | Some i \<Rightarrow> (case parse_int (drop (i + 5) entry) of None \<Rightarrow> 0 | Some t \<Rightarrow> t))"

section \<open>Reading an entry back\<close>

record feed_message =
  fm_id :: jsstr
  fm_client :: jsstr
  fm_msg :: "jsstr option"
  fm_ts :: int
  fm_failed :: bool

definition entry_of :: "feed_message \<Rightarrow> jsstr" where
  "entry_of m = serialise (fm_id m) (fm_client m) (fm_msg m) (fm_ts m) (fm_failed m)"

definition expect :: "jsstr \<Rightarrow> jsstr \<Rightarrow> jsstr option" where
  "expect pat s = (if take (length pat) s = pat then Some (drop (length pat) s) else None)"

definition read_number :: "jsstr \<Rightarrow> (int \<times> jsstr) option" where
  "read_number s = map_option (\<lambda>i. (i, drop (length (num_str i)) s)) (parse_int s)"

definition read_nullable :: "jsstr \<Rightarrow> (jsstr option \<times> jsstr) option" where
  "read_nullable s =
     (case expect (js ''null'') s of
        Some r \<Rightarrow> Some (None, r)
      | None \<Rightarrow> map_option (apfst Some) (json_string s))"

definition read_entry :: "jsstr \<Rightarrow> (feed_message \<times> jsstr) option" where
  "read_entry s = do {
     s \<leftarrow> expect (js ''{\"id\":'') s;
     (i, s) \<leftarrow> json_string s;
     s \<leftarrow> expect (js '',\"client-name\":'') s;
     (n, s) \<leftarrow> json_string s;
     s \<leftarrow> expect (js '',\"msg\":'') s;
     (m, s) \<leftarrow> read_nullable s;
     s \<leftarrow> expect (js '',\"ts\":'') s;
     (t, s) \<leftarrow> read_number s;
     let (f, s) = (case expect (js '',\"integrity\":\"failed\"'') s of None \<Rightarrow> (False, s) | Some r \<Rightarrow> (True, r));
     s \<leftarrow> expect (js ''}'') s;
     Some (\<lparr>fm_id = i, fm_client = n, fm_msg = m, fm_ts = t, fm_failed = f\<rparr>, s)
   }"

text \<open>The rest of an array, after its first entry; the fuel bounds the number of entries.\<close>

fun read_more :: "nat \<Rightarrow> jsstr \<Rightarrow> feed_message list option" where
  "read_more fuel [] = None"
| "read_more fuel (c # s) =
     (if c = 0x5D then (if s = [] then Some [] else None)
      else if c = 0x2C then
        (case fuel of
           0 \<Rightarrow> None
         | Suc fuel \<Rightarrow> do { (m, r) \<leftarrow> read_entry s; ms \<leftarrow> read_more fuel r; Some (m # ms) })
      else None)"

definition read_feed :: "jsstr \<Rightarrow> feed_message list option" where
  "read_feed s =
     (if s = js ''[]'' then Some []
      else do {
        s \<leftarrow> expect (js ''['') s;
        (m, r) \<leftarrow> read_entry s;
        ms \<leftarrow> read_more (length r) r;
        Some (m # ms)
      })"

definition feed_text :: "jsstr list \<Rightarrow> jsstr" where
  "feed_text entries = js ''['' @ join (js '','') entries @ js '']''"

section \<open>Facts\<close>

lemma expect_append [simp]: "expect pat (pat @ s) = Some s"
  by (simp add: expect_def)

lemma read_number_append:
  "r = [] \<or> \<not> is_digit (hd r) \<Longrightarrow> read_number (num_str i @ r) = Some (i, r)"
  using parse_int_num_str[of r i] by (simp add: read_number_def)

lemma read_nullable_append: "read_nullable (json_nullable t @ r) = Some (t, r)"
proof (cases t)
  case None
  then show ?thesis by (simp add: read_nullable_def json_nullable_def del: js_Cons)
next
  case (Some s)
  have "expect (js ''null'') (json_quote s @ r) = None"
    by (simp add: expect_def json_quote_def of_char_Char)
  then show ?thesis using Some by (simp add: read_nullable_def json_nullable_def json_string_quote)
qed

lemma not_digit_tail: "\<not> is_digit (hd ((if f then js '',\"integrity\":\"failed\"'' else []) @ js ''}'' @ r))"
  by (simp add: is_digit_def of_char_Char)

lemma read_entry_of: "read_entry (entry_of m @ r) = Some (m, r)"
proof -
  let ?tail = "(if fm_failed m then js '',\"integrity\":\"failed\"'' else []) @ js ''}'' @ r"
  have n: "read_number (num_str (fm_ts m) @ ?tail) = Some (fm_ts m, ?tail)"
    by (rule read_number_append) (use not_digit_tail in blast)
  have f: "(case expect (js '',\"integrity\":\"failed\"'') ?tail of None \<Rightarrow> (False, ?tail) | Some r \<Rightarrow> (True, r))
      = (fm_failed m, js ''}'' @ r)"
  proof (cases "fm_failed m")
    case True
    then show ?thesis by (simp del: js_Cons)
  next
    case False
    have "expect (js '',\"integrity\":\"failed\"'') (js ''}'' @ r) = None"
      by (simp add: expect_def of_char_Char)
    then show ?thesis using False by (simp del: js_Cons)
  qed
  show ?thesis
    unfolding read_entry_def entry_of_def serialise_def append_assoc
    by (simp only: expect_append json_string_quote read_nullable_append n f bind.bind_lunit
        prod.case Let_def) simp
qed

lemma entry_of_inject: "entry_of m = entry_of m' \<Longrightarrow> m = m'"
  using read_entry_of[of m "[]"] read_entry_of[of m' "[]"] by simp

lemma read_more_entries:
  "length ms \<le> fuel \<Longrightarrow> read_more fuel (concat (map (\<lambda>m. 0x2C # entry_of m) ms) @ [0x5D]) = Some ms"
proof (induction ms arbitrary: fuel)
  case (Cons m ms)
  then obtain f where f: "fuel = Suc f" "length ms \<le> f" by (cases fuel) auto
  then show ?case using Cons.IH[OF f(2)] by (simp add: read_entry_of)
qed simp

lemma feed_text_Cons: "feed_text (e # es) = 0x5B # e @ concat (map (\<lambda>e. 0x2C # e) es) @ [0x5D]"
  by (simp add: feed_text_def join_Cons of_char_Char)

lemma length_entries: "length ms \<le> length (concat (map (\<lambda>m. 0x2C # f m) ms))"
  by (induction ms) auto

lemma read_feed_text: "read_feed (feed_text (map entry_of ms)) = Some ms"
proof (cases ms)
  case Nil
  then show ?thesis by (simp add: read_feed_def feed_text_def)
next
  case (Cons m ms')
  let ?r = "concat (map (\<lambda>m. 0x2C # entry_of m) ms') @ [0x5D]"
  have t: "feed_text (map entry_of ms) = js ''['' @ entry_of m @ ?r"
    using Cons by (simp add: feed_text_Cons comp_def of_char_Char)
  have "read_more (length ?r) ?r = Some ms'"
    using length_entries[of ms' entry_of] by (intro read_more_entries) simp
  moreover have "js ''['' @ entry_of m @ ?r \<noteq> js ''[]''"
    by (simp add: entry_of_def serialise_def of_char_Char)
  ultimately show ?thesis
    unfolding t read_feed_def using Cons by (simp only: if_False expect_append bind.bind_lunit read_entry_of prod.case)
qed

lemma js_includes_skip: "p \<notin> set xs \<Longrightarrow> js_includes (p # ps) (xs @ ys) = js_includes (p # ps) ys"
  by (induction xs) auto

lemma timestampOf_serialise: "timestampOf (serialise i n t ts f) = ts"
proof -
  let ?a = "js ''{\"id\":'' @ json_quote i @ js '',\"client-name\":'' @ json_quote n @ js '',\"msg\":'' @ json_nullable t @ js '',''"
  let ?tail = "(if f then js '',\"integrity\":\"failed\"'' else []) @ js ''}''"
  have s: "serialise i n t ts f = ?a @ TS_FIELD @ (num_str ts @ ?tail)"
    by (simp add: serialise_def TS_FIELD_def)
  have at_field: "drop (length a + 5) (a @ TS_FIELD @ r) = r" for a r
    by (simp add: TS_FIELD_def del: js_Cons)
  have q: "0x22 \<notin> set (num_str ts)" by (auto dest!: num_str_units simp: is_digit_def word_le_nat_alt)
  have "\<not> js_includes TS_FIELD ?tail" by (simp add: TS_FIELD_def of_char_Char)
  then have "\<not> js_includes TS_FIELD (num_str ts @ ?tail)"
    using q by (simp add: TS_FIELD_def of_char_Char js_includes_skip)
  then have "\<not> js_includes TS_FIELD (tl TS_FIELD @ num_str ts @ ?tail)"
    by (simp add: TS_FIELD_def of_char_Char)
  then have "last_index_of TS_FIELD (serialise i n t ts f) = Some (length ?a)"
    unfolding s by (intro last_index_of_last) (simp_all add: TS_FIELD_def)
  moreover have "drop (length ?a + 5) (serialise i n t ts f) = num_str ts @ ?tail"
    unfolding s by (rule at_field)
  moreover have "parse_int (num_str ts @ ?tail) = Some ts"
    by (rule parse_int_num_str) (use not_digit_tail[of f "[]"] in simp)
  ultimately show ?thesis by (simp only: timestampOf_def option.case)
qed

text \<open>Every entry, and so the whole feed, is well-formed UTF-16: encoding it loses nothing.\<close>

lemma well_formed_num: "well_formed (num_str i)"
  by (intro well_formed_plain) (auto dest!: num_str_units simp: is_high_def is_low_def is_digit_def word_le_nat_alt)

lemma well_formed_nullable: "well_formed (json_nullable t)"
  by (cases t) (simp_all add: json_nullable_def well_formed_quote well_formed_js of_char_Char del: js_Cons)

lemma well_formed_entry: "well_formed (entry_of m)"
  unfolding entry_of_def serialise_def
  by (intro well_formed_append well_formed_quote well_formed_num well_formed_nullable)
     (simp_all add: well_formed_js of_char_Char del: js_Cons)

lemma well_formed_join: "list_all well_formed es \<Longrightarrow> well_formed sep \<Longrightarrow> well_formed (join sep es)"
  by (induction sep es rule: join.induct) (auto intro: well_formed_append)

lemma feed_text_well_formed: "well_formed (feed_text (map entry_of ms))"
  unfolding feed_text_def
  by (intro well_formed_append well_formed_join)
     (simp_all add: well_formed_js of_char_Char well_formed_entry list_all_iff del: js_Cons)

lemma read_feed_bytes: "read_feed (from_utf8 (utf8 (feed_text (map entry_of ms)))) = Some ms"
  by (simp add: from_utf8_utf8_id feed_text_well_formed read_feed_text)

end
