(* ===== verification/FeedStore.thy ===== *)
theory FeedStore
  imports GzipFeed Feed_Json Cipher Messages
begin

text \<open>
  \<open>src/api/feedStore.js\<close> up to its change stream: the room in memory, the cached plain response,
  and the compressed one. The synchronisation with the database is in \<open>FeedSync\<close>.
\<close>

section \<open>Constants\<close>

definition DEFAULT_MAX_ENTRIES :: nat where
  "DEFAULT_MAX_ENTRIES = 60000"

definition REBASE_AFTER :: nat where
  "REBASE_AFTER = 1024"

definition EMPTY_FEED :: "byte list" where
  "EMPTY_FEED = utf8 (js ''[]'')"

definition CLOSE_FEED :: "byte list" where
  "CLOSE_FEED = utf8 (js '']'')"

text \<open>
  \<open>Math.ceil(maxEntries * (1 + TRIM_SLACK))\<close>. The multiplication is one of doubles: the factor
  is \<open>2476979795053773 / 2^51\<close>, the double nearest to 1.1, and the product is rounded to 53
  significant bits, ties to even. It is not 11/10: the result for 100 is 111.
\<close>

fun bit_len :: "nat \<Rightarrow> nat" where
  "bit_len n = (if n = 0 then 0 else Suc (bit_len (n div 2)))"

declare bit_len.simps [simp del]

definition round_53 :: "nat \<Rightarrow> nat" where
  "round_53 p =
     (let k = bit_len p - 53; q = p div 2 ^ k; r = p mod 2 ^ k
      in (q + (if 2 ^ k < 2 * r \<or> 2 ^ k = 2 * r \<and> odd q then 1 else 0)) * 2 ^ k)"

definition TRIM_FACTOR :: nat where
  "TRIM_FACTOR = 2476979795053773"

definition trim_at :: "nat \<Rightarrow> nat" where
  "trim_at maxEntries = (round_53 (maxEntries * TRIM_FACTOR) + (2 ^ 51 - 1)) div 2 ^ 51"

section \<open>The store\<close>

record 'z feed_store =
  fs_maxEntries :: nat
  fs_roomId :: jsstr
  fs_entries :: "jsstr list"
  fs_trimAt :: nat
  fs_ids :: "jsstr list"
  fs_seen :: "jsstr set"
  fs_base :: "byte list option"
  fs_baseCount :: nat
  fs_gzip :: "'z gzip_feed"
  fs_dropped :: nat
  fs_fromStream :: nat

definition new_FeedStore :: "'z deflater \<Rightarrow> nat \<Rightarrow> jsstr \<Rightarrow> 'z feed_store" where
  "new_FeedStore df maxEntries roomId =
     \<lparr>fs_maxEntries = maxEntries, fs_roomId = roomId, fs_entries = [], fs_trimAt = trim_at maxEntries,
      fs_ids = [], fs_seen = {}, fs_base = None, fs_baseCount = 0,
      fs_gzip = new_GzipFeed df DEFAULT_LEVEL REBUILD_CHUNK, fs_dropped = 0, fs_fromStream = 0\<rparr>"

definition fs_size :: "'z feed_store \<Rightarrow> nat" where
  "fs_size s = length (fs_entries s)"

text \<open>\<open>push\<close>, the part in its last \<open>if\<close>: the oldest entries go, down to the cap.\<close>

definition trim :: "'z deflater \<Rightarrow> 'z feed_store \<Rightarrow> 'z feed_store" where
  "trim df s =
     (let overflow = length (fs_entries s) - fs_maxEntries s
      in s\<lparr>fs_seen := fs_seen s - set (take overflow (fs_ids s)),
           fs_ids := drop overflow (fs_ids s),
           fs_entries := drop overflow (fs_entries s),
           fs_dropped := fs_dropped s + overflow,
           fs_base := None, fs_baseCount := 0,
           fs_gzip := gz_rebuild df (frame (drop overflow (fs_entries s))) (fs_gzip s)\<rparr>)"

definition push :: "'z deflater \<Rightarrow> jsstr \<Rightarrow> jsstr \<Rightarrow> 'z feed_store \<Rightarrow> bool \<times> 'z feed_store" where
  "push df msgId json s =
     (if msgId \<in> fs_seen s then (False, s)
      else
        let entries = fs_entries s @ [json];
            s1 = s\<lparr>fs_seen := insert msgId (fs_seen s), fs_ids := fs_ids s @ [msgId], fs_entries := entries,
                   fs_gzip := gz_append (framed (length entries = 1) json) (fs_gzip s)\<rparr>
        in (True, if fs_trimAt s < length entries then trim df s1 else s1))"

definition addLocal :: "'z deflater \<Rightarrow> jsstr \<Rightarrow> jsstr \<Rightarrow> jsstr \<Rightarrow> millis \<Rightarrow> 'z feed_store \<Rightarrow> bool \<times> 'z feed_store" where
  "addLocal df msgId clientName text ts s = push df msgId (serialise msgId clientName (Some text) ts False) s"

text \<open>The id of a stored document: its \<open>msgId\<close>, or the text of its \<open>_id\<close> where that is missing or
  empty.\<close>

definition document_key :: "document \<Rightarrow> jsstr" where
  "document_key doc =
     (case d_msgId doc of
        None \<Rightarrow> toHexString (d_id doc)
      | Some m \<Rightarrow> if m = [] then toHexString (d_id doc) else m)"

text \<open>\<open>now\<close> is what \<open>Date.now()\<close> would return, for a document without a timestamp.\<close>

definition message_of :: "gcm \<Rightarrow> byte list \<Rightarrow> millis \<Rightarrow> document \<Rightarrow> feed_message" where
  "message_of g key now doc =
     (let ts = (case d_timestamp doc of None \<Rightarrow> now | Some t \<Rightarrow> t);
          opened = decrypt g key (toBuffer (d_ciphertext doc)) (toBuffer (d_nonce doc))
      in \<lparr>fm_id = document_key doc, fm_client = d_senderId doc,
          fm_msg = (case opened of Inl e \<Rightarrow> None | Inr t \<Rightarrow> Some t), fm_ts = ts,
          fm_failed = (case opened of Inl e \<Rightarrow> True | Inr t \<Rightarrow> False)\<rparr>)"

definition prepare ::
  "gcm \<Rightarrow> byte list \<Rightarrow> millis \<Rightarrow> document \<Rightarrow> 'z feed_store \<Rightarrow> (jsstr \<times> jsstr) option" where
  "prepare g key now doc s =
     (if document_key doc \<in> fs_seen s then None
      else Some (document_key doc, entry_of (message_of g key now doc)))"

definition addDocument ::
  "'z deflater \<Rightarrow> gcm \<Rightarrow> byte list \<Rightarrow> millis \<Rightarrow> document \<Rightarrow> 'z feed_store \<Rightarrow> bool \<times> 'z feed_store" where
  "addDocument df g key now doc s =
     (case prepare g key now doc s of
        None \<Rightarrow> (False, s)
      | Some (i, json) \<Rightarrow> push df i json s)"

definition push_all :: "'z deflater \<Rightarrow> (jsstr \<times> jsstr) list \<Rightarrow> 'z feed_store \<Rightarrow> 'z feed_store" where
  "push_all df prepared s = fold (\<lambda>(i, json) s. snd (push df i json s)) prepared s"

text \<open>\<open>load\<close>, on what the cursor delivered (newest first, each document with the time at which
  it was read).\<close>

definition load ::
  "'z deflater \<Rightarrow> gcm \<Rightarrow> byte list \<Rightarrow> (millis \<times> document) list \<Rightarrow> 'z feed_store \<Rightarrow> nat \<times> 'z feed_store" where
  "load df g key fetched s =
     (let prepared = List.map_filter (\<lambda>(now, doc). prepare g key now doc s) fetched;
          s1 = push_all df (rev prepared) s
      in (length (fs_entries s1), s1))"

section \<open>The responses\<close>

definition select_entries :: "int \<Rightarrow> int \<Rightarrow> jsstr list \<Rightarrow> jsstr list" where
  "select_entries limit since entries =
     (let selected = (if 0 < since then filter (\<lambda>e. since < timestampOf e) entries else entries)
      in if 0 < limit \<and> limit < int (length selected)
         then drop (length selected - nat limit) selected else selected)"

definition payload :: "int \<Rightarrow> int \<Rightarrow> 'z feed_store \<Rightarrow> body_chunks \<times> 'z feed_store" where
  "payload limit since s =
     (if limit = 0 \<and> since = 0 then
        if fs_entries s = [] then (\<lparr>bc_chunks = [EMPTY_FEED], bc_length = length EMPTY_FEED\<rparr>, s)
        else
          let s1 = (if fs_base s = None \<or> REBASE_AFTER < length (fs_entries s) - fs_baseCount s
                    then s\<lparr>fs_base := Some (utf8 (js ''['' @ join (js '','') (fs_entries s))),
                           fs_baseCount := length (fs_entries s)\<rparr>
                    else s);
              base = (case fs_base s1 of None \<Rightarrow> [] | Some b \<Rightarrow> b);
              tail = (if fs_baseCount s1 < length (fs_entries s1)
                      then utf8 (js '','' @ join (js '','') (drop (fs_baseCount s1) (fs_entries s1)) @ js '']'')
                      else CLOSE_FEED)
          in (\<lparr>bc_chunks = [base, tail], bc_length = length base + length tail\<rparr>, s1)
      else
        let body = utf8 (feed_text (select_entries limit since (fs_entries s)))
        in (\<lparr>bc_chunks = [body], bc_length = length body\<rparr>, s))"

text \<open>\<open>gzipPayload\<close>, when no other callback runs before its flush is done (\<open>gz_body\<close>).\<close>

definition gzipPayload ::
  "'z deflater \<Rightarrow> int \<Rightarrow> int \<Rightarrow> 'z feed_store \<Rightarrow> (js_error + body_chunks option) \<times> 'z feed_store" where
  "gzipPayload df limit since s =
     (if limit \<noteq> 0 \<or> since \<noteq> 0 then (Inr None, s)
      else if \<not> gz_enabled (fs_gzip s) then (Inr None, s)
      else let (r, gz) = gz_body df (fs_gzip s) in (r, s\<lparr>fs_gzip := gz\<rparr>))"

record feed_stats =
  st_feedSize :: nat
  st_feedFromStream :: nat
  st_feedDropped :: nat

definition feed_stats_of :: "'z feed_store \<Rightarrow> feed_stats" where
  "feed_stats_of s = \<lparr>st_feedSize = length (fs_entries s), st_feedFromStream = fs_fromStream s,
     st_feedDropped = fs_dropped s\<rparr>"

section \<open>The cap\<close>

lemma bit_len_bounds: "0 < n \<Longrightarrow> 2 ^ (bit_len n - 1) \<le> n \<and> n < 2 ^ bit_len n \<and> 0 < bit_len n"
proof (induction n rule: bit_len.induct)
  case (1 n)
  show ?case
  proof (cases "n div 2 = 0")
    case True
    then have "n = 1" using "1.prems" by auto
    then show ?thesis by (simp add: bit_len.simps)
  next
    case False
    then have ih: "2 ^ (bit_len (n div 2) - 1) \<le> n div 2" "n div 2 < 2 ^ bit_len (n div 2)" "0 < bit_len (n div 2)"
      using "1.IH" "1.prems" by auto
    then obtain k where k: "bit_len (n div 2) = Suc k" by (cases "bit_len (n div 2)") auto
    have "bit_len n = Suc (Suc k)" using k "1.prems" by (subst bit_len.simps) simp
    then show ?thesis using ih k by auto
  qed
qed

lemma round_53_bounds: "p \<le> round_53 p + p div 2 ^ 52 \<and> round_53 p \<le> p + p div 2 ^ 52"
proof (cases "bit_len p \<le> 53")
  case True
  then show ?thesis by (simp add: round_53_def Let_def)
next
  case False
  define k where "k = bit_len p - 53"
  have "0 < p" using False by (cases "p = 0") (simp_all add: bit_len.simps)
  then have "2 ^ (bit_len p - 1) \<le> p" using bit_len_bounds by blast
  moreover have "bit_len p - 1 = k + 52" using False by (simp add: k_def)
  ultimately have "2 ^ k * 2 ^ 52 \<le> p" by (simp add: power_add)
  then have le: "2 ^ k \<le> p div 2 ^ 52" by (simp add: less_eq_div_iff_mult_less_eq)
  have p: "p = p div 2 ^ k * 2 ^ k + p mod 2 ^ k" by (rule div_mult_mod_eq[symmetric])
  have r: "p mod 2 ^ k < 2 ^ k" by simp
  have "round_53 p = p div 2 ^ k * 2 ^ k \<or> round_53 p = p div 2 ^ k * 2 ^ k + 2 ^ k"
    by (auto simp: round_53_def Let_def k_def[symmetric])
  then show ?thesis using le p r by linarith
qed

lemma trim_at_ge: "n \<le> trim_at n"
proof -
  have "n * TRIM_FACTOR \<le> round_53 (n * TRIM_FACTOR) + n * TRIM_FACTOR div 2 ^ 52"
    using round_53_bounds by blast
  moreover have "n * TRIM_FACTOR div 2 ^ 52 \<le> n" by (simp add: TRIM_FACTOR_def)
  ultimately have "n * 2 ^ 51 \<le> round_53 (n * TRIM_FACTOR) + (2 ^ 51 - 1)"
    by (simp add: TRIM_FACTOR_def)
  then show ?thesis by (simp add: trim_at_def less_eq_div_iff_mult_less_eq)
qed

lemma trim_at_le: "n < 2 ^ 40 \<Longrightarrow> 10 * trim_at n \<le> 11 * n + 10"
proof -
  assume n: "n < 2 ^ 40"
  have "round_53 (n * TRIM_FACTOR) \<le> n * TRIM_FACTOR + n * TRIM_FACTOR div 2 ^ 52"
    using round_53_bounds by blast
  moreover have "n * TRIM_FACTOR div 2 ^ 52 \<le> n" by (simp add: TRIM_FACTOR_def)
  ultimately have "round_53 (n * TRIM_FACTOR) + (2 ^ 51 - 1) \<le> n * TRIM_FACTOR + n + (2 ^ 51 - 1)" by simp
  moreover have "trim_at n * 2 ^ 51 \<le> round_53 (n * TRIM_FACTOR) + (2 ^ 51 - 1)"
    by (simp add: trim_at_def)
  ultimately have "trim_at n * 2 ^ 51 \<le> n * TRIM_FACTOR + n + (2 ^ 51 - 1)" by linarith
  then show ?thesis using n by (simp add: TRIM_FACTOR_def)
qed

section \<open>The invariant\<close>

text \<open>The cached prefix is the text of the first \<open>baseCount\<close> entries.\<close>

definition base_ok :: "'z feed_store \<Rightarrow> bool" where
  "base_ok s \<longleftrightarrow> (case fs_base s of
      None \<Rightarrow> True
    | Some b \<Rightarrow> 0 < fs_baseCount s \<and> fs_baseCount s \<le> length (fs_entries s)
        \<and> b = utf8 (js ''['' @ join (js '','') (take (fs_baseCount s) (fs_entries s))))"

text \<open>The compressor shows the room, perhaps with dropped entries still in front of it, and is on
  its way to showing exactly the room.\<close>

definition window_ok :: "'z deflater \<Rightarrow> 'z feed_store \<Rightarrow> bool" where
  "window_ok df s \<longleftrightarrow> (\<exists>old. gz_holds df (fs_gzip s) (frame (old @ fs_entries s)) (frame (fs_entries s))
     \<and> (fs_entries s = [] \<longrightarrow> old = []))"

definition ids_ok :: "'z feed_store \<Rightarrow> bool" where
  "ids_ok s \<longleftrightarrow> length (fs_ids s) = length (fs_entries s) \<and> distinct (fs_ids s) \<and> fs_seen s = set (fs_ids s)"

definition cap_ok :: "'z feed_store \<Rightarrow> bool" where
  "cap_ok s \<longleftrightarrow> 1 \<le> fs_maxEntries s \<and> fs_trimAt s = trim_at (fs_maxEntries s)
     \<and> length (fs_entries s) \<le> fs_trimAt s \<and> (0 < fs_dropped s \<longrightarrow> fs_maxEntries s \<le> length (fs_entries s))"

definition store_ok :: "'z deflater \<Rightarrow> 'z feed_store \<Rightarrow> bool" where
  "store_ok df s \<longleftrightarrow> ids_ok s \<and> cap_ok s \<and> base_ok s \<and> window_ok df s"

lemmas store_ok_defs = store_ok_def ids_ok_def cap_ok_def base_ok_def window_ok_def

lemma store_ok_new: "1 \<le> maxEntries \<Longrightarrow> store_ok df (new_FeedStore df maxEntries roomId)"
  using gz_holds_new[of REBUILD_CHUNK df DEFAULT_LEVEL]
  by (simp add: store_ok_defs new_FeedStore_def REBUILD_CHUNK_def)

lemma trim_ok:
  assumes ids: "ids_ok s" and h: "gz_holds df (fs_gzip s) (frame (old @ fs_entries s)) (frame (fs_entries s))"
    and cap: "1 \<le> fs_maxEntries s" "fs_trimAt s = trim_at (fs_maxEntries s)" "fs_trimAt s < length (fs_entries s)"
  shows "store_ok df (trim df s)"
proof -
  let ?k = "length (fs_entries s) - fs_maxEntries s"
  have le: "fs_maxEntries s \<le> fs_trimAt s" using cap(2) trim_at_ge by simp
  have "set (fs_ids s) - set (take ?k (fs_ids s)) = set (drop ?k (fs_ids s))"
    using ids set_drop_distinct[of "fs_ids s" ?k] by (simp add: ids_ok_def)
  then have "ids_ok (trim df s)" using ids by (simp add: ids_ok_def trim_def Let_def)
  moreover have "cap_ok (trim df s)" using cap le by (simp add: cap_ok_def trim_def Let_def)
  moreover have "base_ok (trim df s)" by (simp add: base_ok_def trim_def Let_def)
  moreover have "window_ok df (trim df s)"
    unfolding window_ok_def
  proof (intro exI conjI)
    show "gz_holds df (fs_gzip (trim df s)) (frame ((old @ take ?k (fs_entries s)) @ fs_entries (trim df s)))
        (frame (fs_entries (trim df s)))"
      using gz.window_trim[OF h, of ?k] by (simp add: trim_def Let_def)
    show "fs_entries (trim df s) = [] \<longrightarrow> old @ take ?k (fs_entries s) = []"
      using cap le by (simp add: trim_def Let_def)
  qed
  ultimately show ?thesis by (simp add: store_ok_def)
qed

lemma push_ok:
  assumes ok: "store_ok df s"
  shows "store_ok df (snd (push df i json s))"
proof (cases "i \<in> fs_seen s")
  case True
  then show ?thesis using ok by (simp add: push_def)
next
  case False
  let ?s1 = "s\<lparr>fs_seen := insert i (fs_seen s), fs_ids := fs_ids s @ [i], fs_entries := fs_entries s @ [json],
      fs_gzip := gz_append (framed (length (fs_entries s @ [json]) = 1) json) (fs_gzip s)\<rparr>"
  have ids: "ids_ok ?s1" using ok False by (auto simp: store_ok_def ids_ok_def)
  obtain old where old: "gz_holds df (fs_gzip s) (frame (old @ fs_entries s)) (frame (fs_entries s))"
    "fs_entries s = [] \<Longrightarrow> old = []"
    using ok by (auto simp: store_ok_def window_ok_def)
  have h: "gz_holds df (fs_gzip ?s1) (frame (old @ fs_entries ?s1)) (frame (fs_entries ?s1))"
    using gz.window_push[OF old, of json] by simp
  show ?thesis
  proof (cases "fs_trimAt s < length (fs_entries ?s1)")
    case True
    have "store_ok df (trim df ?s1)"
      using ok True by (intro trim_ok[OF ids h]) (auto simp: store_ok_def cap_ok_def)
    then show ?thesis using False True by (simp add: push_def Let_def)
  next
    case small: False
    have "cap_ok ?s1" using ok small by (auto simp: store_ok_def cap_ok_def)
    moreover have "base_ok ?s1" using ok by (auto simp: store_ok_def base_ok_def split: option.splits)
    moreover have "window_ok df ?s1" unfolding window_ok_def using h by (intro exI[of _ old]) simp
    ultimately have "store_ok df ?s1" using ids by (simp add: store_ok_def)
    then show ?thesis using False small by (simp add: push_def Let_def)
  qed
qed

lemma push_all_ok: "store_ok df s \<Longrightarrow> store_ok df (push_all df ps s)"
proof (induction ps arbitrary: s)
  case (Cons p ps)
  obtain i j where "p = (i, j)" by fastforce
  with Cons.IH[OF push_ok[OF Cons.prems, of i j]] show ?case by (simp add: push_all_def)
qed (simp add: push_all_def)

lemma addDocument_ok: "store_ok df s \<Longrightarrow> store_ok df (snd (addDocument df g key now doc s))"
  by (auto simp: addDocument_def push_ok split: option.splits)

lemma load_ok: "store_ok df s \<Longrightarrow> store_ok df (snd (load df g key fetched s))"
  by (simp add: load_def Let_def push_all_ok)

section \<open>The plain response\<close>

lemma feed_text_split:
  assumes "0 < k" "k \<le> length es"
  shows "utf8 (feed_text es) = utf8 (js ''['' @ join (js '','') (take k es)) @
    (if k < length es then utf8 (js '','' @ join (js '','') (drop k es) @ js '']'') else utf8 (js '']''))"
proof -
  have ne: "take k es \<noteq> []" using assms by auto
  have c: "\<not> is_low (hd (js '','' @ r))" "\<not> is_low (hd (js '']''))" for r
    by (simp_all add: is_low_def of_char_Char)
  show ?thesis
  proof (cases "k < length es")
    case False
    then show ?thesis using c by (simp add: feed_text_def flip: utf8_append_hd)
  next
    case True
    then obtain d ds where d: "drop k es = d # ds" by (cases "drop k es") auto
    have "join (js '','') es = join (js '','') (take k es @ drop k es)" by simp
    also have "\<dots> = join (js '','') (take k es) @ js '','' @ join (js '','') (drop k es)"
      unfolding join_append[OF ne] d by (simp add: join_Cons del: js_Cons)
    finally have "feed_text es = (js ''['' @ join (js '','') (take k es)) @ (js '','' @ join (js '','') (drop k es) @ js '']'')"
      by (simp add: feed_text_def)
    then show ?thesis using True c(1) by (simp only: if_True) (rule utf8_append_hd, blast)
  qed
qed

lemma payload_plain:
  assumes "base_ok s" "payload 0 0 s = (body, s')"
  shows "concat (bc_chunks body) = utf8 (feed_text (fs_entries s)) \<and> bc_length body = length (concat (bc_chunks body))
    \<and> base_ok s' \<and> s' = s\<lparr>fs_base := fs_base s', fs_baseCount := fs_baseCount s'\<rparr>"
proof (cases "fs_entries s = []")
  case True
  then show ?thesis using assms by (auto simp: payload_def EMPTY_FEED_def feed_text_def)
next
  case False
  define s1 where "s1 = (if fs_base s = None \<or> REBASE_AFTER < length (fs_entries s) - fs_baseCount s
      then s\<lparr>fs_base := Some (utf8 (js ''['' @ join (js '','') (fs_entries s))), fs_baseCount := length (fs_entries s)\<rparr>
      else s)"
  have ok: "base_ok s1" and e: "fs_entries s1 = fs_entries s"
    using assms(1) False by (auto simp: s1_def base_ok_def)
  then obtain b where b: "fs_base s1 = Some b" "0 < fs_baseCount s1" "fs_baseCount s1 \<le> length (fs_entries s)"
    "b = utf8 (js ''['' @ join (js '','') (take (fs_baseCount s1) (fs_entries s)))"
    using False by (cases "fs_base s1") (auto simp: s1_def base_ok_def split: if_splits)
  have s': "s' = s1" "bc_chunks body = [b, if fs_baseCount s1 < length (fs_entries s)
      then utf8 (js '','' @ join (js '','') (drop (fs_baseCount s1) (fs_entries s)) @ js '']'') else CLOSE_FEED]"
    "bc_length body = length (concat (bc_chunks body))"
    using assms(2) False b(1) e unfolding payload_def s1_def[symmetric] Let_def by (auto simp del: js_Cons)
  have "concat (bc_chunks body) = utf8 (feed_text (fs_entries s))"
    unfolding s'(2) feed_text_split[OF b(2,3)] b(4) CLOSE_FEED_def by simp
  moreover have "s1 = s\<lparr>fs_base := fs_base s1, fs_baseCount := fs_baseCount s1\<rparr>" by (simp add: s1_def)
  ultimately show ?thesis using s' ok by blast
qed

lemma payload_ok: "store_ok df s \<Longrightarrow> store_ok df (snd (payload limit since s))"
proof (cases "limit = 0 \<and> since = 0")
  case True
  assume ok: "store_ok df s"
  obtain body s' where p: "payload 0 0 s = (body, s')" by fastforce
  have "base_ok s" using ok by (simp add: store_ok_def)
  from payload_plain[OF this p] have s': "base_ok s'" "s' = s\<lparr>fs_base := fs_base s', fs_baseCount := fs_baseCount s'\<rparr>"
    by auto
  have "ids_ok s'" "cap_ok s'" "window_ok df s'"
    using ok by (subst s'(2); simp add: store_ok_def ids_ok_def cap_ok_def window_ok_def)+
  then show ?thesis using True p s'(1) by (simp add: store_ok_def)
qed (auto simp: payload_def Let_def)

section \<open>The compressed response\<close>

lemma is_low_bracket: "\<not> is_low (hd (framed b e))"
  by (simp add: framed_def is_low_def)

lemma framed_not_Nil: "framed b e \<noteq> []"
  by (simp add: framed_def)

lemma frame_parts: "t \<in> set (frame es) \<Longrightarrow> \<exists>b e. t = framed b e"
  by (cases es) auto

lemma utf8_concat: "(\<And>t. t \<in> set ts \<Longrightarrow> t \<noteq> [] \<and> \<not> is_low (hd t)) \<Longrightarrow> concat (map utf8 ts) = utf8 (concat ts)"
proof (induction ts)
  case (Cons t ts)
  then have "concat ts = [] \<or> \<not> is_low (hd (concat ts))" by (cases ts) auto
  then show ?case using Cons utf8_append_hd[of "concat ts" t] by simp
qed simp

lemma CLOSING_BYTE_utf8: "CLOSING_BYTE = utf8 (js '']'')"
  by (simp add: CLOSING_BYTE_def utf8_def utf8_nats_def utf8_point_def single_point_def is_high_def
      is_low_def of_char_Char)

lemma frame_bytes: "es \<noteq> [] \<Longrightarrow> concat (map utf8 (frame es)) @ CLOSING_BYTE = utf8 (feed_text es)"
proof -
  assume ne: "es \<noteq> []"
  have a: "concat (map utf8 (frame es)) = utf8 (concat (frame es))"
    by (rule utf8_concat) (auto dest!: frame_parts simp: is_low_bracket framed_not_Nil)
  have b: "concat (frame es) = js ''['' @ join (js '','') es"
    using concat_frame[OF ne] by (simp add: of_char_Char)
  have "utf8 ((js ''['' @ join (js '','') es) @ js '']'') = utf8 (js ''['' @ join (js '','') es) @ utf8 (js '']'')"
    by (rule utf8_append_hd) (simp add: is_low_def of_char_Char)
  then show ?thesis unfolding a b CLOSING_BYTE_utf8 feed_text_def by (simp del: js_Cons)
qed

lemma base_ok_gzip [simp]: "base_ok (s\<lparr>fs_gzip := gz\<rparr>) = base_ok s"
  by (cases "fs_base s") (simp_all add: base_ok_def)

text \<open>Whatever keeps what the compressor holds keeps the store's invariant.\<close>

lemma store_ok_gzip:
  assumes "store_ok df s"
    and "\<And>live target. gz_holds df (fs_gzip s) live target \<Longrightarrow> gz_holds df gz live target"
  shows "store_ok df (s\<lparr>fs_gzip := gz\<rparr>)"
proof -
  have "window_ok df (s\<lparr>fs_gzip := gz\<rparr>)"
    using assms(1,2) unfolding store_ok_def window_ok_def by (simp, blast)
  then show ?thesis using assms(1) by (simp add: store_ok_def ids_ok_def cap_ok_def)
qed

lemma gzipPayload_ok: "store_ok df s \<Longrightarrow> store_ok df (snd (gzipPayload df limit since s))"
  using store_ok_gzip[of df s, OF _ gz_holds_body] by (auto simp: gzipPayload_def Let_def case_prod_beta')

lemma turn_ok:
  assumes "store_ok df s"
  shows "store_ok df (s\<lparr>fs_gzip := gz_turn (fs_gzip s)\<rparr>)"
proof -
  obtain old where old: "gz_holds df (fs_gzip s) (frame (old @ fs_entries s)) (frame (fs_entries s))"
    "fs_entries s = [] \<longrightarrow> old = []"
    using assms by (auto simp: store_ok_def window_ok_def)
  from gz.window_turn[OF old(1)] old(2) have "window_ok df (s\<lparr>fs_gzip := gz_turn (fs_gzip s)\<rparr>)"
    by (auto simp: window_ok_def)
  then show ?thesis using assms by (simp add: store_ok_def ids_ok_def cap_ok_def)
qed

lemma window_of_holds:
  assumes "gz_holds df gz (frame (old @ es)) (frame es)" "gz_enabled gz" "gz_building gz = None"
  shows "old = []"
proof -
  have "frame es = frame (old @ es)" using assms by (simp add: gz_holds_def)
  from arg_cong[OF this, of length] show ?thesis by simp
qed

end
