(* ===== verification/Feed_Runs.thy ===== *)
theory Feed_Runs
  imports FeedStore
begin

text \<open>
  Runs of the feed store: messages from this backend, documents from the others, turns of the
  event loop, halves of gzip flushes, and reads of both representations, in any order. The log
  of accepted messages is the abstract room; the theorems say that the store is a window of it
  and that both responses are its text.
\<close>

section \<open>The contract of a keyed store\<close>

text \<open>
  What the two routes by which a message arrives rely on: a key that is held changes nothing, and
  a new one goes to the end, where perhaps some of the oldest are dropped, never the newest.
\<close>

locale keyed_store =
  fixes keys :: "'s \<Rightarrow> 'k list"
    and put :: "'k \<Rightarrow> 'v \<Rightarrow> 's \<Rightarrow> 's"
    and ok :: "'s \<Rightarrow> bool"
  assumes put_ok: "ok s \<Longrightarrow> ok (put k v s)"
    and put_known: "ok s \<Longrightarrow> k \<in> set (keys s) \<Longrightarrow> put k v s = s"
    and put_new: "ok s \<Longrightarrow> k \<notin> set (keys s) \<Longrightarrow> \<exists>n \<le> length (keys s). keys (put k v s) = drop n (keys s) @ [k]"
    and keys_distinct: "ok s \<Longrightarrow> distinct (keys s)"
begin

lemma put_held: "ok s \<Longrightarrow> k \<in> set (keys (put k v s))"
  using put_known[of s k v] put_new[of s k v] by (cases "k \<in> set (keys s)") auto

lemma put_twice: "ok s \<Longrightarrow> put k w (put k v s) = put k v s"
  by (simp add: put_known put_ok put_held)

lemma put_other: "ok s \<Longrightarrow> j \<in> set (keys (put k v s)) \<Longrightarrow> j \<noteq> k \<Longrightarrow> j \<in> set (keys s)"
  using put_known[of s k v] put_new[of s k v] by (cases "k \<in> set (keys s)") (auto dest: in_set_dropD)

end

definition put_entry :: "'z deflater \<Rightarrow> jsstr \<Rightarrow> jsstr \<Rightarrow> 'z feed_store \<Rightarrow> 'z feed_store" where
  "put_entry df msgId json s = snd (push df msgId json s)"

lemma push_ids:
  assumes "store_ok df s" "i \<notin> set (fs_ids s)"
  shows "\<exists>n \<le> length (fs_ids s). fs_ids (put_entry df i json s) = drop n (fs_ids s) @ [i]"
proof -
  have fresh: "i \<notin> fs_seen s" and len: "length (fs_ids s) = length (fs_entries s)" and "1 \<le> fs_maxEntries s"
    using assms by (auto simp: store_ok_def ids_ok_def cap_ok_def)
  let ?n = "Suc (length (fs_entries s)) - fs_maxEntries s"
  show ?thesis
  proof (cases "fs_trimAt s < Suc (length (fs_entries s))")
    case True
    have "?n \<le> length (fs_ids s)" using \<open>1 \<le> fs_maxEntries s\<close> len by simp
    then show ?thesis using True fresh
      by (intro exI[of _ ?n]) (simp add: put_entry_def push_def trim_def Let_def)
  next
    case False
    then show ?thesis using fresh by (intro exI[of _ 0]) (simp add: put_entry_def push_def Let_def)
  qed
qed

interpretation room: keyed_store fs_ids "put_entry df" "store_ok df" for df
proof
  fix s :: "'a feed_store" and k v
  show "store_ok df s \<Longrightarrow> store_ok df (put_entry df k v s)" by (simp add: put_entry_def push_ok)
  show "store_ok df s \<Longrightarrow> k \<in> set (fs_ids s) \<Longrightarrow> put_entry df k v s = s"
    by (simp add: put_entry_def push_def store_ok_def ids_ok_def)
  show "store_ok df s \<Longrightarrow> distinct (fs_ids s)" by (simp add: store_ok_def ids_ok_def)
qed (rule push_ids)

section \<open>Events\<close>

datatype feed_event =
    FLocal jsstr jsstr jsstr millis
  | FDocument millis document
  | FTurn
  | FFlushBegin
  | FFlushEnd
  | FRead int int
  | FReadGzip int int

type_synonym 'z logged = "'z feed_store \<times> feed_message list"

definition log_if :: "feed_message \<Rightarrow> feed_message list \<Rightarrow> bool \<times> 'z feed_store \<Rightarrow> 'z logged" where
  "log_if m hist r = (snd r, if fst r then hist @ [m] else hist)"

definition local_message :: "jsstr \<Rightarrow> jsstr \<Rightarrow> jsstr \<Rightarrow> millis \<Rightarrow> feed_message" where
  "local_message i name text ts =
     \<lparr>fm_id = i, fm_client = name, fm_msg = Some text, fm_ts = ts, fm_failed = False\<rparr>"

fun feed_apply :: "'z deflater \<Rightarrow> gcm \<Rightarrow> byte list \<Rightarrow> 'z logged \<Rightarrow> feed_event \<Rightarrow> 'z logged" where
  "feed_apply df g key (s, hist) (FLocal i name text ts) =
     log_if (local_message i name text ts) hist (addLocal df i name text ts s)"
| "feed_apply df g key (s, hist) (FDocument now doc) =
     log_if (message_of g key now doc) hist (addDocument df g key now doc s)"
| "feed_apply df g key (s, hist) FTurn = (s\<lparr>fs_gzip := gz_turn (fs_gzip s)\<rparr>, hist)"
| "feed_apply df g key (s, hist) FFlushBegin = (s\<lparr>fs_gzip := gz_flush_begin (fs_gzip s)\<rparr>, hist)"
| "feed_apply df g key (s, hist) FFlushEnd = (s\<lparr>fs_gzip := gz_flush_end df (fs_gzip s)\<rparr>, hist)"
| "feed_apply df g key (s, hist) (FRead limit since) = (snd (payload limit since s), hist)"
| "feed_apply df g key (s, hist) (FReadGzip limit since) = (snd (gzipPayload df limit since s), hist)"

text \<open>The store is the hist without its first \<open>dropped\<close> messages, and the compressor shows the
  hist without its first \<open>k\<close>, with \<open>k\<close> at most \<open>dropped\<close>.\<close>

definition log_ok :: "'z deflater \<Rightarrow> 'z feed_store \<Rightarrow> feed_message list \<Rightarrow> bool" where
  "log_ok df s hist \<longleftrightarrow>
     fs_dropped s \<le> length hist
     \<and> fs_ids s = map fm_id (drop (fs_dropped s) hist)
     \<and> fs_entries s = map entry_of (drop (fs_dropped s) hist)
     \<and> (\<exists>k \<le> fs_dropped s. gz_holds df (fs_gzip s) (frame (map entry_of (drop k hist))) (frame (fs_entries s)))"

definition run_ok :: "'z deflater \<Rightarrow> 'z logged \<Rightarrow> bool" where
  "run_ok df = (\<lambda>(s, hist). store_ok df s \<and> log_ok df s hist)"

lemma run_ok_new: "1 \<le> maxEntries \<Longrightarrow> run_ok df (new_FeedStore df maxEntries roomId, [])"
  using store_ok_new[of maxEntries df roomId] gz_holds_new[of REBUILD_CHUNK df DEFAULT_LEVEL]
  by (simp add: run_ok_def log_ok_def new_FeedStore_def REBUILD_CHUNK_def)

lemma addLocal_push: "addLocal df i name text ts s = push df i (entry_of (local_message i name text ts)) s"
  by (simp add: addLocal_def entry_of_def local_message_def)

lemma addDocument_push:
  "addDocument df g key now doc s = push df (fm_id (message_of g key now doc)) (entry_of (message_of g key now doc)) s"
  by (simp add: addDocument_def prepare_def message_of_def Let_def push_def)

text \<open>The window lemmas of the compressor's contract carry a push, trimming or not.\<close>

lemma push_log:
  assumes ok: "store_ok df s" and hist: "log_ok df s hist"
  shows "run_ok df (log_if m hist (push df (fm_id m) (entry_of m) s))"
proof (cases "fm_id m \<in> fs_seen s")
  case True
  then show ?thesis using ok hist by (simp add: push_def log_if_def run_ok_def)
next
  case False
  let ?d = "fs_dropped s" and ?es = "fs_entries s @ [entry_of m]"
  obtain k where k: "k \<le> ?d" "?d \<le> length hist" "fs_ids s = map fm_id (drop ?d hist)"
    "fs_entries s = map entry_of (drop ?d hist)"
    "gz_holds df (fs_gzip s) (frame (map entry_of (drop k hist))) (frame (fs_entries s))"
    using hist by (auto simp: log_ok_def)
  let ?old = "map entry_of (take (?d - k) (drop k hist))"
  have d: "drop k hist = take (?d - k) (drop k hist) @ drop ?d hist"
    using k(1) by (metis append_take_drop_id drop_drop le_add_diff_inverse2)
  then have split: "map entry_of (drop k hist) = ?old @ fs_entries s" using k(4) by (metis map_append)
  have "0 < ?d \<longrightarrow> fs_entries s \<noteq> []" using ok by (auto simp: store_ok_def cap_ok_def)
  then have start: "fs_entries s = [] \<Longrightarrow> ?old = []" by simp
  let ?s1 = "s\<lparr>fs_seen := insert (fm_id m) (fs_seen s), fs_ids := fs_ids s @ [fm_id m], fs_entries := ?es,
      fs_gzip := gz_append (framed (length ?es = 1) (entry_of m)) (fs_gzip s)\<rparr>"
  have h: "gz_holds df (fs_gzip ?s1) (frame (?old @ ?es)) (frame ?es)"
    using gz.window_push[OF k(5)[unfolded split] start, of "entry_of m"] by simp
  have oldes: "?old @ ?es = map entry_of (drop k (hist @ [m]))" using split k(1,2) by simp
  have store: "store_ok df (snd (push df (fm_id m) (entry_of m) s))" by (rule push_ok[OF ok])
  have es1: "?es = map entry_of (drop ?d (hist @ [m]))" using k(2,4) by simp
  have ids1: "fs_ids s @ [fm_id m] = map fm_id (drop ?d (hist @ [m]))" using k(2,3) by simp
  show ?thesis
  proof (cases "fs_trimAt s < length ?es")
    case True
    let ?n = "length ?es - fs_maxEntries s"
    have "log_ok df (trim df ?s1) (hist @ [m])"
      unfolding log_ok_def
    proof (intro conjI exI)
      show "k \<le> fs_dropped (trim df ?s1)" using k(1) by (simp add: trim_def Let_def)
      show "gz_holds df (fs_gzip (trim df ?s1)) (frame (map entry_of (drop k (hist @ [m])))) (frame (fs_entries (trim df ?s1)))"
        using gz.rebuild_holds[OF h] unfolding oldes by (simp add: trim_def Let_def)
      have "1 \<le> fs_maxEntries s" using ok by (simp add: store_ok_def cap_ok_def)
      then show "fs_dropped (trim df ?s1) \<le> length (hist @ [m])" using k(2,4) by (simp add: trim_def Let_def)
      have t: "fs_dropped (trim df ?s1) = ?d + ?n" "fs_ids (trim df ?s1) = drop ?n (fs_ids s @ [fm_id m])"
        "fs_entries (trim df ?s1) = drop ?n ?es"
        by (simp_all add: trim_def Let_def)
      have t2: "drop ?n (fs_ids s @ [fm_id m]) = map fm_id (drop (?d + ?n) (hist @ [m]))"
        "drop ?n ?es = map entry_of (drop (?d + ?n) (hist @ [m]))"
        unfolding ids1 es1 drop_map drop_drop by (simp_all only: add.commute)
      show "fs_ids (trim df ?s1) = map fm_id (drop (fs_dropped (trim df ?s1)) (hist @ [m]))"
        unfolding t by (rule t2(1))
      show "fs_entries (trim df ?s1) = map entry_of (drop (fs_dropped (trim df ?s1)) (hist @ [m]))"
        unfolding t by (rule t2(2))
    qed
    then show ?thesis using False True store by (simp add: push_def log_if_def run_ok_def Let_def)
  next
    case small: False
    have "log_ok df ?s1 (hist @ [m])"
      unfolding log_ok_def
    proof (intro conjI exI[of _ k])
      show "gz_holds df (fs_gzip ?s1) (frame (map entry_of (drop k (hist @ [m])))) (frame (fs_entries ?s1))"
        using h unfolding oldes by simp
    qed (use k(1,2) ids1 es1 in simp_all)
    then show ?thesis using False small store by (simp add: push_def log_if_def run_ok_def Let_def)
  qed
qed

lemma log_ok_gzip:
  assumes "log_ok df s hist"
    and "\<And>live. gz_holds df (fs_gzip s) live (frame (fs_entries s)) \<Longrightarrow>
      gz_holds df gz live (frame (fs_entries s)) \<or> gz_holds df gz (frame (fs_entries s)) (frame (fs_entries s))"
  shows "log_ok df (s\<lparr>fs_gzip := gz\<rparr>) hist"
proof -
  obtain k where k: "k \<le> fs_dropped s"
    "gz_holds df (fs_gzip s) (frame (map entry_of (drop k hist))) (frame (fs_entries s))"
    using assms(1) by (auto simp: log_ok_def)
  have e: "frame (fs_entries s) = frame (map entry_of (drop (fs_dropped s) hist))"
    using assms(1) by (simp add: log_ok_def)
  from assms(2)[OF k(2)] have "\<exists>k \<le> fs_dropped s. gz_holds df gz (frame (map entry_of (drop k hist))) (frame (fs_entries s))"
    using k(1) e by (metis order_refl)
  then show ?thesis using assms(1) by (simp add: log_ok_def)
qed

text \<open>Reading the plain response changes only the cached prefix.\<close>

lemma payload_fields:
  "fs_entries (snd (payload limit since s)) = fs_entries s \<and> fs_ids (snd (payload limit since s)) = fs_ids s
    \<and> fs_dropped (snd (payload limit since s)) = fs_dropped s \<and> fs_gzip (snd (payload limit since s)) = fs_gzip s"
  by (simp add: payload_def Let_def)

lemma run_ok_event: "run_ok df (s, hist) \<Longrightarrow> run_ok df (feed_apply df g key (s, hist) e)"
proof (cases e)
  case (FLocal i name t ts)
  assume "run_ok df (s, hist)"
  then show ?thesis
    using push_log[of df s hist "local_message i name t ts"] FLocal
    by (simp add: run_ok_def addLocal_push local_message_def)
next
  case (FDocument now doc)
  assume "run_ok df (s, hist)"
  then show ?thesis using push_log[of df s hist] FDocument by (simp add: run_ok_def addDocument_push)
next
  case FTurn
  assume "run_ok df (s, hist)"
  then show ?thesis using FTurn turn_ok[of df s] log_ok_gzip[OF _ gz.turn_holds]
    by (auto simp: run_ok_def)
next
  case FFlushBegin
  assume "run_ok df (s, hist)"
  then show ?thesis using FFlushBegin gz_holds_flush
    by (auto simp: run_ok_def intro!: log_ok_gzip store_ok_gzip)
next
  case FFlushEnd
  assume "run_ok df (s, hist)"
  then show ?thesis using FFlushEnd gz_holds_flush
    by (auto simp: run_ok_def intro!: log_ok_gzip store_ok_gzip)
next
  case (FRead limit since)
  assume "run_ok df (s, hist)"
  moreover have "log_ok df (snd (payload limit since s)) hist = log_ok df s hist"
    by (simp add: log_ok_def payload_fields)
  ultimately show ?thesis using FRead payload_ok[of df s limit since] by (simp add: run_ok_def)
next
  case (FReadGzip limit since)
  assume ok: "run_ok df (s, hist)"
  then have "log_ok df (snd (gzipPayload df limit since s)) hist"
    by (auto simp: run_ok_def gzipPayload_def Let_def case_prod_beta' intro!: log_ok_gzip gz_holds_body)
  then show ?thesis using FReadGzip ok gzipPayload_ok[of df s limit since] by (simp add: run_ok_def)
qed

interpretation feed: event_invariant "feed_apply df g key" "\<lambda>e. True" "run_ok df" for df g key
  by unfold_locales (use run_ok_event in auto)

text \<open>The store and the log after a run from an empty store.\<close>

definition feed_run ::
  "'z deflater \<Rightarrow> gcm \<Rightarrow> byte list \<Rightarrow> nat \<Rightarrow> feed_event list \<Rightarrow> 'z feed_store \<times> feed_message list" where
  "feed_run df g key maxEntries es =
     run_events (feed_apply df g key) (new_FeedStore df maxEntries (js ''main''), []) es"

lemma feed_run_ok:
  assumes "1 \<le> maxEntries" "feed_run df g key maxEntries es = (s, hist)"
  shows "store_ok df s \<and> log_ok df s hist"
proof -
  have "list_all (\<lambda>e. True) es" by (induction es) auto
  from feed.inv_run[OF run_ok_new[OF assms(1)] this, of df g key "js ''main''"] assms(2)
  show ?thesis by (simp add: feed_run_def run_ok_def)
qed

lemma fm_ts_entry [simp]: "timestampOf (entry_of m) = fm_ts m"
  by (simp add: entry_of_def timestampOf_serialise)

lemma drop_entries: "log_ok df s hist \<Longrightarrow> fs_entries s = map entry_of (drop (fs_dropped s) hist)"
  by (simp add: log_ok_def)

lemma count_list_distinct: "distinct xs \<Longrightarrow> x \<in> set xs \<Longrightarrow> count_list xs x = 1"
  by (induction xs) (auto simp: count_notin)

text \<open>The filters of the narrowed view act on messages as they act on their texts.\<close>

definition newest :: "nat \<Rightarrow> 'a list \<Rightarrow> 'a list" where
  "newest n xs = drop (length xs - n) xs"

lemma select_entries_messages:
  "select_entries limit since (map entry_of ms) =
     map entry_of ((if 0 < limit then newest (nat limit) else (\<lambda>ms. ms))
       (if 0 < since then filter (\<lambda>m. since < fm_ts m) ms else ms))"
proof -
  have f: "filter (\<lambda>e. since < timestampOf e) (map entry_of ms) = map entry_of (filter (\<lambda>m. since < fm_ts m) ms)"
    by (simp add: filter_map comp_def)
  have d: "(if 0 < limit \<and> limit < int (length xs) then drop (length xs - nat limit) xs else xs)
      = (if 0 < limit then newest (nat limit) xs else xs)" for xs :: "jsstr list"
    by (auto simp: newest_def)
  show ?thesis
    unfolding select_entries_def Let_def f
    by (simp add: d[unfolded newest_def] drop_map newest_def)
qed

text \<open>The compressed response of a store whose room is a suffix of the log.\<close>

lemma gzip_response:
  assumes law: "deflate_law df inflate" and log: "log_ok df s hist" and ne_room: "fs_entries s \<noteq> []"
    and ans: "fst (gzipPayload df 0 0 s) = Inr (Some body)"
  shows "\<exists>k \<le> fs_dropped s. gunzip inflate (concat (bc_chunks body)) = Some (utf8 (feed_text (map entry_of (drop k hist))))
    \<and> bc_length body = length (concat (bc_chunks body))
    \<and> (gz_building (fs_gzip s) = None \<longrightarrow> map entry_of (drop k hist) = fs_entries s)"
proof -
  obtain k where k: "k \<le> fs_dropped s" "gz_holds df (fs_gzip s) (frame (map entry_of (drop k hist))) (frame (fs_entries s))"
    using log by (auto simp: log_ok_def)
  have e: "fs_entries s = map entry_of (drop (fs_dropped s) hist)" by (rule drop_entries[OF log])
  have en: "gz_enabled (fs_gzip s)" "fst (gz_body df (fs_gzip s)) = Inr (Some body)"
    using ans by (auto simp: gzipPayload_def Let_def case_prod_beta' split: if_splits)
  have ne: "map entry_of (drop k hist) \<noteq> []" using ne_room e k(1) by auto
  have g: "gunzip inflate (concat (bc_chunks body)) = Some (utf8 (feed_text (map entry_of (drop k hist))))"
    "bc_length body = length (concat (bc_chunks body))"
    using gz_body_gunzip[OF law k(2)] en(2) frame_bytes[OF ne] by auto
  have "map entry_of (drop k hist) = fs_entries s" if b: "gz_building (fs_gzip s) = None"
  proof -
    have "frame (fs_entries s) = frame (map entry_of (drop k hist))"
      using k(2) en(1) b by (simp add: gz_holds_def)
    then have "length (fs_entries s) = length (map entry_of (drop k hist))" by (metis length_frame)
    then have "length hist - fs_dropped s = length hist - k" using e by simp
    moreover have "fs_dropped s \<le> length hist" using log by (simp add: log_ok_def)
    ultimately show ?thesis using e k(1) by (cases "fs_dropped s = k") auto
  qed
  then show ?thesis by (intro exI[of _ k] conjI impI) (use g k(1) in simp_all)
qed

lemma flush_loop_total:
  "(\<And>z c. df_flush df z c \<noteq> None) \<Longrightarrow> \<not> g_failed g \<Longrightarrow> \<not> g_failed (flush_loop df g)"
proof (induction df g rule: flush_loop.induct)
  case (1 df g)
  have "\<not> g_failed (flush_end df g')" if "\<not> g_failed g'" for g' :: "'a generation"
  proof -
    have ne: "df_flush df z c \<noteq> None" for z c by (rule "1.prems"(1))
    show ?thesis using that
      by (auto simp: flush_end_def split: option.splits) (use ne in blast)
  qed
  moreover have "\<not> g_failed (flush_begin g)" using "1.prems"(2) by (simp add: flush_begin_def)
  ultimately show ?case
    using "1.IH" "1.prems" by (subst flush_loop.simps) auto
qed

lemma gz_body_total:
  assumes "\<And>z c. df_flush df z c \<noteq> None" "gz_holds df s live target" "gz_enabled s" "\<not> g_failed (gz_live s)"
  shows "\<exists>b. fst (gz_body df s) = Inr (Some b)"
proof -
  let ?g = "flush_loop df (gz_live s)"
  have nf: "\<not> g_failed ?g" using flush_loop_total assms(1,4) by blast
  have "gen_ok df ?g live" using assms(2,3) by (simp add: gz_holds_def gen_ok_flush_loop)
  then have "gen_rep df ?g live" using nf by (simp add: gen_ok_def)
  then obtain out where "g_output ?g = Some out" by (auto simp: gen_rep_def holds_output_def)
  then show ?thesis using nf assms(3) by (simp add: gz_body_def Let_def gz_body_resume_def g_body_def)
qed

section \<open>Properties\<close>



text \<open>
  C9: the plain feed is the room. After any run, the two chunks of the plain response, whether the
  cached prefix was reused or rebuilt, are together the UTF-8 of one JSON array, of exactly the
  announced length; decoding and parsing it gives back every message held, in order, with its
  id, name, text, timestamp and verdict unchanged, whatever characters they contain.
\<close>

theorem feed_plain_response_is_room:
  assumes "1 \<le> maxEntries" and run: "feed_run df g key maxEntries es = (s, hist)"
    and "payload 0 0 s = (body, s')"
  shows "read_feed (from_utf8 (concat (bc_chunks body))) = Some (drop (fs_dropped s) hist)
    \<and> concat (bc_chunks body) = utf8 (feed_text (fs_entries s))
    \<and> bc_length body = length (concat (bc_chunks body))"
proof -
  have ok: "store_ok df s" "log_ok df s hist" using feed_run_ok[OF assms(1,2)] by auto
  then have "base_ok s" by (simp add: store_ok_def)
  from payload_plain[OF this assms(3)]
  have b: "concat (bc_chunks body) = utf8 (feed_text (fs_entries s))" "bc_length body = length (concat (bc_chunks body))"
    by auto
  then show ?thesis by (simp add: drop_entries[OF ok(2)] read_feed_bytes)
qed

theorem feed_plain_response_is_room_witness:
  "read_feed (from_utf8 (concat (bc_chunks (fst (payload 0 0
     (fst (feed_run storing_df plain_gcm [] 5 [FLocal [0x22] [0xD800] [0x5C, 10] 4, FRead 0 0])))))))
   = Some (drop (fs_dropped (fst (feed_run storing_df plain_gcm [] 5 [FLocal [0x22] [0xD800] [0x5C, 10] 4, FRead 0 0])))
       (snd (feed_run storing_df plain_gcm [] 5 [FLocal [0x22] [0xD800] [0x5C, 10] 4, FRead 0 0])))"
  by (rule feed_plain_response_is_room[THEN conjunct1, of 5, OF _ prod.collapse[symmetric] prod.collapse[symmetric]]) simp



text \<open>
  One message, two routes. In any state a run reaches, a message that this backend adds and the
  document that the change stream brings for it (or the other way round, or either of them
  twice) end up as one entry: the second arrival is refused and changes nothing at all, and the
  new message itself is never the one that trimming drops.
\<close>

theorem both_routes_one_entry:
  assumes "1 \<le> maxEntries" and "feed_run df g key maxEntries es = (s, hist)"
  shows "let s1 = snd (addLocal df (document_key doc) name text ts s); s2 = snd (addDocument df g key now doc s)
    in addDocument df g key now doc s1 = (False, s1) \<and> addLocal df (document_key doc) name text ts s2 = (False, s2)
     \<and> addDocument df g key later doc s2 = (False, s2)
     \<and> count_list (fs_ids s1) (document_key doc) = 1 \<and> count_list (fs_ids s2) (document_key doc) = 1"
proof -
  let ?k = "document_key doc"
  have ok: "store_ok df s" using feed_run_ok[OF assms] by blast
  have key: "fm_id (message_of g key t doc) = ?k" for t by (simp add: message_of_def Let_def)
  have once: "push df ?k j (put_entry df ?k i s) = (False, put_entry df ?k i s)
      \<and> count_list (fs_ids (put_entry df ?k i s)) ?k = 1" for i j
  proof -
    have ok1: "store_ok df (put_entry df ?k i s)" by (rule room.put_ok[OF ok])
    have "?k \<in> set (fs_ids (put_entry df ?k i s))" by (rule room.put_held[OF ok])
    moreover from this have "?k \<in> fs_seen (put_entry df ?k i s)" using ok1 by (simp add: store_ok_def ids_ok_def)
    moreover have "distinct (fs_ids (put_entry df ?k i s))" by (rule room.keys_distinct[OF ok1])
    ultimately show ?thesis by (simp add: push_def count_list_distinct)
  qed
  show ?thesis
    unfolding Let_def addLocal_push addDocument_push key using once by (simp add: put_entry_def)
qed

theorem both_routes_one_entry_witness:
  "count_list (fs_ids (snd (addLocal storing_df (document_key (sample_doc 3)) [1] [2] 3
     (fst (feed_run storing_df plain_gcm [] 5 []))))) (document_key (sample_doc 3)) = 1"
  using both_routes_one_entry[of 5 storing_df plain_gcm "[]" "[]", OF _ prod.collapse[symmetric]]
  unfolding Let_def by simp

text \<open>
  The narrowed views. With \<open>since\<close> positive the response is exactly the messages held whose
  timestamp is later, with \<open>limit\<close> positive the newest that many of them, each announced with its
  true length; \<open>timestampOf\<close> finds the timestamp in the text of an entry even if the message
  itself contains the characters of that field. Negative values select everything.
\<close>

theorem narrowed_feed:
  assumes "1 \<le> maxEntries" and "feed_run df g key maxEntries es = (s, hist)"
    and "limit \<noteq> 0 \<or> since \<noteq> 0"
  shows "read_feed (from_utf8 (concat (bc_chunks (fst (payload limit since s))))) =
      Some ((if 0 < limit then newest (nat limit) else (\<lambda>ms. ms))
        (if 0 < since then filter (\<lambda>m. since < fm_ts m) (drop (fs_dropped s) hist) else drop (fs_dropped s) hist))
    \<and> bc_length (fst (payload limit since s)) = length (concat (bc_chunks (fst (payload limit since s))))
    \<and> snd (payload limit since s) = s"
proof -
  have "fs_entries s = map entry_of (drop (fs_dropped s) hist)"
    using feed_run_ok[OF assms(1,2)] drop_entries by blast
  moreover have "payload limit since s = (let body = utf8 (feed_text (select_entries limit since (fs_entries s)))
      in (\<lparr>bc_chunks = [body], bc_length = length body\<rparr>, s))"
    using assms(3) unfolding payload_def by (rule if_not_P[OF iffD2[OF de_Morgan_conj]])
  ultimately show ?thesis
    by (simp only: Let_def fst_conv snd_conv body_chunks.simps concat.simps append_Nil2 select_entries_messages
        read_feed_bytes simp_thms)
qed

theorem narrowed_feed_witness:
  "read_feed (from_utf8 (concat (bc_chunks (fst (payload 1 0 (fst (feed_run storing_df plain_gcm [] 5 [])))))))
   = Some []"
  using narrowed_feed[of 5 storing_df plain_gcm "[]" "[]" "fst (feed_run storing_df plain_gcm [] 5 [])"
      "snd (feed_run storing_df plain_gcm [] 5 [])" 1 0]
  by (simp add: feed_run_def newest_def)

text \<open>
  The trim threshold. Computed in doubles, it is at least the cap and at most a tenth over it,
  plus one: the store can hold one message more than a tenth over its cap (111 for a cap of
  100), which the comment on \<open>TRIM_SLACK\<close> rules out.
\<close>

theorem trim_threshold:
  assumes "n < 2 ^ 40"
  shows "n \<le> trim_at n \<and> 10 * trim_at n \<le> 11 * n + 10 \<and> trim_at 100 = 111 \<and> trim_at DEFAULT_MAX_ENTRIES = 66000"
proof -
  have "trim_at 100 = 111 \<and> trim_at DEFAULT_MAX_ENTRIES = 66000"
    by (simp add: trim_at_def round_53_def TRIM_FACTOR_def bit_len.simps DEFAULT_MAX_ENTRIES_def Let_def)
  then show ?thesis using trim_at_ge trim_at_le[OF assms] by blast
qed

theorem trim_threshold_witness: "10 * trim_at 60000 \<le> 660010"
  using trim_threshold[of 60000] by simp

text \<open>
  An empty room reads differently compressed. Before the first message the plain feed is the
  empty array, but the compressed feed is a gzip member whose content is a closing bracket
  alone, which is not JSON: the opening bracket travels with the first message, and
  \<open>gzipPayload\<close>, unlike \<open>payload\<close>, has no case for no messages.
\<close>

theorem empty_room_gzip_is_no_json:
  assumes law: "deflate_law df inflate" and "1 \<le> maxEntries"
  shows "\<exists>body. fst (gzipPayload df 0 0 (new_FeedStore df maxEntries roomId)) = Inr (Some body)
    \<and> gunzip inflate (concat (bc_chunks body)) = Some (utf8 (js '']''))
    \<and> concat (bc_chunks (fst (payload 0 0 (new_FeedStore df maxEntries roomId)))) = utf8 (js ''[]'')
    \<and> read_feed (js '']'') = None"
proof -
  let ?gz = "new_GzipFeed df DEFAULT_LEVEL REBUILD_CHUNK"
  have h: "gz_holds df ?gz [] []" by (rule gz_holds_new) (simp add: REBUILD_CHUNK_def)
  have "flush_loop df (new_Generation df) = new_Generation df"
    by (subst flush_loop.simps) (simp add: new_Generation_def)
  then have "fst (gz_body df ?gz) \<noteq> Inr None"
    by (simp add: gz_body_def new_GzipFeed_def gz_body_resume_def g_body_def new_Generation_def)
  then obtain body where b: "fst (gz_body df ?gz) = Inr (Some body)"
    "gunzip inflate (concat (bc_chunks body)) = Some CLOSING_BYTE"
    using gz_body_gunzip[OF law h] by auto
  have "read_feed (js '']'') = None" by (simp add: read_feed_def expect_def of_char_Char)
  then show ?thesis
    using b by (auto simp: gzipPayload_def new_FeedStore_def Let_def case_prod_beta' CLOSING_BYTE_utf8
        payload_def EMPTY_FEED_def new_GzipFeed_def)
qed

theorem empty_room_gzip_is_no_json_witness:
  "\<exists>body. fst (gzipPayload storing_df 0 0 (new_FeedStore storing_df 5 (js ''main''))) = Inr (Some body)
     \<and> gunzip storing_inflate (concat (bc_chunks body)) = Some (utf8 (js '']''))"
  using empty_room_gzip_is_no_json[OF storing_law, of 5 "js ''main''"] by auto

end
