(* ===== verification/Router.thy ===== *)
theory Router
  imports Feed_Runs WriteQueue
begin

text \<open>
  \<open>src/api/router.js\<close>: \<open>/message\<close> and \<open>/feed\<close>. The message handler is split at its \<open>await\<close>:
  \<open>accept_message\<close> is what runs when the request arrives, \<open>finish_message\<close> what runs when the write
  queue has settled the promise. An exception that leaves the handler is the left summand of
  the outer sum: Express 4 does not catch the rejection of an \<open>async\<close> handler, so it ends the
  process.
\<close>

section \<open>Reading a request\<close>

definition ROOM_ID :: jsstr where
  "ROOM_ID = js ''main''"

definition MAX_MESSAGE_BYTES :: nat where
  "MAX_MESSAGE_BYTES = 16384"

definition MAX_NAME_LENGTH :: nat where
  "MAX_NAME_LENGTH = 64"

definition NAME_FIELDS :: "jsstr list" where
  "NAME_FIELDS = [js ''client-name'', js ''client_name'', js ''clientName'', js ''clientname'', js ''name'', js ''username'']"

definition MESSAGE_FIELDS :: "jsstr list" where
  "MESSAGE_FIELDS = [js ''msg'', js ''message'', js ''text'']"

definition ID_FIELDS :: "jsstr list" where
  "ID_FIELDS = [js ''id'', js ''msgId'', js ''msg-id'', js ''message-id'', js ''messageId'']"

record request =
  rq_body :: jsval
  rq_query :: jsval
  rq_x_message_id :: "jsstr option"
  rq_accept_encoding :: "jsstr option"

definition given :: "jsval \<Rightarrow> bool" where
  "given v \<longleftrightarrow> \<not> absent v \<and> v \<noteq> String []"

fun pick_from :: "jsval \<Rightarrow> jsstr list \<Rightarrow> jsval" where
  "pick_from source [] = Undefined"
| "pick_from source (f # fs) =
     (if given (get_field source f) then get_field source f else pick_from source fs)"

definition pick :: "jsval \<Rightarrow> jsstr list \<Rightarrow> jsval" where
  "pick source names = (if is_object source then pick_from source names else Undefined)"

definition field :: "request \<Rightarrow> jsstr list \<Rightarrow> jsval" where
  "field req names =
     (let v = pick (rq_body req) names in if absent v then pick (rq_query req) names else v)"

section \<open>/message\<close>

datatype refusal =
    NameRequired | MsgRequired | NameEmpty | MsgEmpty
  | TooLong
  | NotStored

fun status :: "refusal \<Rightarrow> nat" where
  "status TooLong = 413"
| "status NotStored = 503"
| "status r = 400"

record accepted =
  ac_id :: jsstr
  ac_client :: jsstr
  ac_text :: jsstr
  ac_ts :: millis
  ac_document :: document

text \<open>What \<open>Date.now()\<close>, \<open>randomUUID\<close>, \<open>randomBytes\<close> and the driver's id generator returned.\<close>

record fresh_values =
  fv_now :: millis
  fv_uuid :: jsstr
  fv_nonce :: "byte list"
  fv_oid :: objectid

definition http_document :: "gcm \<Rightarrow> byte list \<Rightarrow> fresh_values \<Rightarrow> jsstr \<Rightarrow> jsstr \<Rightarrow> jsstr \<Rightarrow> document" where
  "http_document g key fv messageId clientName text =
     (let sealed = encrypt g key (fv_nonce fv) text
      in \<lparr>d_id = fv_oid fv, d_msgId = Some messageId, d_roomId = ROOM_ID, d_senderId = clientName,
          d_ciphertext = IsBuffer (sl_ciphertext sealed), d_nonce = IsBuffer (sl_nonce sealed),
          d_signature = NoValue, d_senderPublicKey = NoValue, d_timestamp = Some (fv_now fv),
          d_clientTimestamp = Some (int_number (fv_now fv)), d_source = Some (js ''http'')\<rparr>)"

text \<open>\<open>String(field(req, ID_FIELDS) ?? req.get('x-message-id') ?? '').trim() || randomUUID()\<close>.\<close>

definition message_id :: "request \<Rightarrow> jsstr \<Rightarrow> js_error + jsstr" where
  "message_id req uuid =
     (let v = field req ID_FIELDS;
          raw = (if absent v
                 then Inr (case rq_x_message_id req of None \<Rightarrow> [] | Some h \<Rightarrow> h)
                 else to_string v)
      in map_sum id (\<lambda>s. if js_trim s = [] then uuid else js_trim s) raw)"

definition accept_message ::
  "gcm \<Rightarrow> byte list \<Rightarrow> fresh_values \<Rightarrow> request \<Rightarrow> js_error + (refusal + accepted)" where
  "accept_message g key fv req =
     (let rawName = field req NAME_FIELDS; rawMessage = field req MESSAGE_FIELDS
      in if rawName = Undefined then Inr (Inl NameRequired)
         else if rawMessage = Undefined then Inr (Inl MsgRequired)
         else (case to_string rawName of
             Inl e \<Rightarrow> Inl e
           | Inr name \<Rightarrow>
               let clientName = js_slice0 MAX_NAME_LENGTH (js_trim name)
               in if clientName = [] then Inr (Inl NameEmpty)
                  else (case to_string rawMessage of
                      Inl e \<Rightarrow> Inl e
                    | Inr text \<Rightarrow>
                        if js_trim text = [] then Inr (Inl MsgEmpty)
                        else if MAX_MESSAGE_BYTES < length (utf8 text) then Inr (Inl TooLong)
                        else (case message_id req (fv_uuid fv) of
                            Inl e \<Rightarrow> Inl e
                          | Inr messageId \<Rightarrow>
                              Inr (Inr \<lparr>ac_id = messageId, ac_client = clientName, ac_text = text,
                                        ac_ts = fv_now fv,
                                        ac_document = http_document g key fv messageId clientName text\<rparr>)))))"

record reply =
  rp_id :: jsstr
  rp_client :: jsstr
  rp_msg :: jsstr
  rp_ts :: millis
  rp_duplicate :: bool
  rp_backend :: jsstr

definition finish_message ::
  "'z deflater \<Rightarrow> jsstr \<Rightarrow> accepted \<Rightarrow> outcome \<Rightarrow> 'z feed_store \<Rightarrow> (refusal + reply) \<times> 'z feed_store" where
  "finish_message df instance_name a settled feed =
     (case settled of
        Rejected reason \<Rightarrow> (Inl NotStored, feed)
      | Resolved duplicate \<Rightarrow>
          (Inr \<lparr>rp_id = ac_id a, rp_client = ac_client a, rp_msg = ac_text a, rp_ts = ac_ts a,
                rp_duplicate = duplicate, rp_backend = instance_name\<rparr>,
           snd (addLocal df (ac_id a) (ac_client a) (ac_text a) (ac_ts a) feed)))"

section \<open>/feed\<close>

definition acceptsGzip :: "request \<Rightarrow> bool" where
  "acceptsGzip req =
     (case rq_accept_encoding req of None \<Rightarrow> False | Some header \<Rightarrow> js_includes (js ''gzip'') header)"

record feed_response =
  fr_feedSize :: nat
  fr_gzip :: bool
  fr_length :: nat
  fr_written :: "byte list list"

text \<open>The compressed body when it is wanted and to be had, otherwise the plain one; the chunks are
  written one by one.\<close>

definition feed_route ::
  "'z deflater \<Rightarrow> request \<Rightarrow> 'z feed_store \<Rightarrow> js_error + (feed_response \<times> 'z feed_store)" where
  "feed_route df req feed =
     (case parse_int_or_0 (get_field (rq_query req) (js ''limit'')) of
        Inl e \<Rightarrow> Inl e
      | Inr limit \<Rightarrow>
          (case parse_int_or_0 (get_field (rq_query req) (js ''since'')) of
             Inl e \<Rightarrow> Inl e
           | Inr since \<Rightarrow>
               let (gz, feed1) = (if acceptsGzip req then gzipPayload df limit since feed else (Inr None, feed))
               in (case gz of
                     Inr (Some body) \<Rightarrow>
                       Inr (\<lparr>fr_feedSize = fs_size feed, fr_gzip = True, fr_length = bc_length body,
                             fr_written = bc_chunks body\<rparr>, feed1)
                   | _ \<Rightarrow>
                       let (body, feed2) = payload limit since feed1
                       in Inr (\<lparr>fr_feedSize = fs_size feed, fr_gzip = False, fr_length = bc_length body,
                                fr_written = bc_chunks body\<rparr>, feed2))))"

section \<open>Facts\<close>

lemma http_document_key:
  "messageId \<noteq> [] \<Longrightarrow> document_key (http_document g key fv messageId name text) = messageId"
  by (simp add: document_key_def http_document_def Let_def)

text \<open>What another backend makes of the stored document.\<close>

lemma http_document_message:
  assumes "gcm_law g" "length key = KEY_BYTES" "length (fv_nonce fv) = NONCE_BYTES" "messageId \<noteq> []"
  shows "message_of g key later (http_document g key fv messageId name t) =
    local_message messageId name (to_well_formed t) (fv_now fv)"
proof -
  have k: "document_key (http_document g key fv messageId name t) = messageId"
    using assms(4) by (rule http_document_key)
  show ?thesis
    using decrypt_encrypt[OF assms(1-3), of t] k
    by (simp add: message_of_def Let_def local_message_def) (simp add: http_document_def Let_def)
qed

lemma accepted_cases:
  assumes "accept_message g key fv req = Inr (Inr a)"
  shows "\<exists>name. to_string (field req NAME_FIELDS) = Inr name \<and> ac_client a = take 64 (js_trim name) \<and> ac_client a \<noteq> []
    \<and> to_string (field req MESSAGE_FIELDS) = Inr (ac_text a) \<and> js_trim (ac_text a) \<noteq> []
    \<and> length (utf8 (ac_text a)) \<le> 16384
    \<and> message_id req (fv_uuid fv) = Inr (ac_id a) \<and> ac_ts a = fv_now fv
    \<and> ac_document a = http_document g key fv (ac_id a) (ac_client a) (ac_text a)"
  using assms
  by (auto simp: accept_message_def Let_def js_slice0_def MAX_NAME_LENGTH_def MAX_MESSAGE_BYTES_def not_less
      split: if_splits sum.splits)

lemma message_id_given: "message_id req uuid = Inr i \<Longrightarrow> uuid \<noteq> [] \<Longrightarrow> i \<noteq> []"
  by (auto simp: message_id_def Let_def map_sum_def split: sum.splits if_splits)

section \<open>Properties\<close>


text \<open>
  A request can end the server. A message field that is an object with a member \<open>toString\<close>
  (\<open>{"name":"a","msg":{"toString":1}}\<close>) makes \<open>String(rawMessage)\<close> raise a \<open>TypeError\<close> before the
  handler's \<open>try\<close>; the handler is \<open>async\<close>, so the exception becomes a rejection nobody handles.
\<close>

theorem message_route_type_error:
  assumes "field req NAME_FIELDS = String n" and "js_trim n \<noteq> []"
    and "field req MESSAGE_FIELDS = Object kvs" and "js ''toString'' \<in> fst ` set kvs"
  shows "accept_message g key fv req = Inl TypeError"
  using assms by (simp add: accept_message_def Let_def js_slice0_def MAX_NAME_LENGTH_def)

theorem message_route_type_error_witness:
  "accept_message plain_gcm [] \<lparr>fv_now = 1, fv_uuid = [1], fv_nonce = [], fv_oid = 1\<rparr>
     \<lparr>rq_body = Object [(js ''name'', String (js ''a'')), (js ''msg'', Object [(js ''toString'', Number (int_number 1))])],
      rq_query = Object [], rq_x_message_id = None, rq_accept_encoding = None\<rparr> = Inl TypeError"
  by (rule message_route_type_error[of _ "js ''a''" "[(js ''toString'', Number (int_number 1))]"])
     (simp_all add: field_def pick_def is_object_def NAME_FIELDS_def MESSAGE_FIELDS_def given_def absent_def
       get_field_def of_char_Char js_trim_def is_js_space_def Let_def)



text \<open>
  Content negotiation does not change the feed. For a room that is not empty and not being
  recompressed, a client that can read gzip and one that cannot get the same bytes after
  decoding: the text of the whole room. \<open>Content-Length\<close> is the number of bytes written, the
  compressed form is sent only to a client that asked for it, and a compressor that has failed
  never costs the answer.
\<close>

theorem feed_route_negotiation:
  assumes law: "deflate_law df inflate" and "1 \<le> maxEntries"
    and run: "feed_run df g key maxEntries es = (s, hist)" and "fs_entries s \<noteq> []"
    and "gz_building (fs_gzip s) = None"
    and whole: "parse_int_or_0 (get_field (rq_query req) (js ''limit'')) = Inr 0"
      "parse_int_or_0 (get_field (rq_query req) (js ''since'')) = Inr 0"
  shows "\<exists>resp s'. feed_route df req s = Inr (resp, s')
    \<and> (if fr_gzip resp then gunzip inflate (concat (fr_written resp)) else Some (concat (fr_written resp)))
        = Some (utf8 (feed_text (fs_entries s)))
    \<and> fr_length resp = length (concat (fr_written resp)) \<and> fr_feedSize resp = length (fs_entries s)
    \<and> (fr_gzip resp \<longrightarrow> acceptsGzip req)"
proof -
  have ok: "store_ok df s" "log_ok df s hist" using feed_run_ok[OF assms(2,3)] by auto
  define gz where "gz = (if acceptsGzip req then gzipPayload df 0 0 s else (Inr None, s))"
  have plain: "\<exists>b s'. payload 0 0 (snd gz) = (b, s') \<and> concat (bc_chunks b) = utf8 (feed_text (fs_entries s))
      \<and> bc_length b = length (concat (bc_chunks b))"
  proof -
    obtain b s' where p: "payload 0 0 (snd gz) = (b, s')" by fastforce
    have "store_ok df (snd gz)" using ok(1) gzipPayload_ok[OF ok(1)] by (simp add: gz_def)
    then have "base_ok (snd gz)" by (simp add: store_ok_def)
    moreover have "fs_entries (snd gz) = fs_entries s"
      by (simp add: gz_def gzipPayload_def Let_def case_prod_beta')
    ultimately show ?thesis using payload_plain[OF _ p] p by auto
  qed
  show ?thesis
  proof (cases "fst gz")
    case (Inr r)
    show ?thesis
    proof (cases r)
      case (Some body)
      then have a: "fst (gzipPayload df 0 0 s) = Inr (Some body)" "acceptsGzip req"
        using Inr by (auto simp: gz_def split: if_splits)
      from gzip_response[OF law ok(2) assms(4) a(1)] assms(5)
      have "gunzip inflate (concat (bc_chunks body)) = Some (utf8 (feed_text (fs_entries s)))"
        "bc_length body = length (concat (bc_chunks body))" by auto
      then show ?thesis
        using whole a Inr Some by (auto simp: feed_route_def gz_def fs_size_def case_prod_beta')
    next
      case None
      then show ?thesis
        using whole Inr plain by (cases gz) (auto simp: feed_route_def fs_size_def simp flip: gz_def)
    qed
  next
    case (Inl e)
    then show ?thesis
      using whole plain by (cases gz) (auto simp: feed_route_def fs_size_def simp flip: gz_def)
  qed
qed

theorem feed_route_negotiation_witness:
  "\<exists>resp s'. feed_route storing_df
       \<lparr>rq_body = Undefined, rq_query = Object [], rq_x_message_id = None, rq_accept_encoding = Some (js ''gzip, br'')\<rparr>
       (fst (feed_run storing_df plain_gcm [] 5 [FLocal [1] [2] [3] 4])) = Inr (resp, s')
     \<and> fr_length resp = length (concat (fr_written resp))"
proof -
  obtain s hist where r: "feed_run storing_df plain_gcm [] 5 [FLocal [1] [2] [3] 4] = (s, hist)" by fastforce
  have t: "\<not> trim_at 5 < Suc 0" using trim_at_ge[of 5] by linarith
  have e: "gz_building (fs_gzip s) = None" "fs_entries s \<noteq> []"
    using r t by (auto simp: feed_run_def new_FeedStore_def addLocal_def push_def Let_def log_if_def
        gz_append_def new_GzipFeed_def new_Generation_def g_append_def)
  have p: "parse_int_or_0 (get_field (Object []) f) = Inr 0" for f
    by (simp add: parse_int_or_0_def get_field_def parse_int_def js_trim_def is_js_space_def of_char_Char is_digit_def)
  show ?thesis
    using feed_route_negotiation[OF storing_law _ r e(2,1),
        of "\<lparr>rq_body = Undefined, rq_query = Object [], rq_x_message_id = None, rq_accept_encoding = Some (js ''gzip, br'')\<rparr>"]
      p r by auto
qed

text \<open>A name of 63 letters followed by a character outside the basic plane is cut in its middle.\<close>

lemma well_formed_letters: "well_formed (replicate n 0x61 @ s) = well_formed s"
proof (induction n)
  case (Suc n)
  have "well_formed (0x61 # r) = well_formed r" for r
    by (cases r) (auto simp: is_high_def is_low_def)
  then show ?case using Suc by simp
qed simp

lemma name_cut_in_a_pair:
  "well_formed (replicate 63 0x61 @ [0xD83D, 0xDE00])
    \<and> \<not> well_formed (js_slice0 MAX_NAME_LENGTH (replicate 63 0x61 @ [0xD83D, 0xDE00]))"
proof -
  have cut: "js_slice0 MAX_NAME_LENGTH (replicate 63 0x61 @ [0xD83D, 0xDE00]) = replicate 63 0x61 @ [0xD83D]"
    by (simp add: js_slice0_def MAX_NAME_LENGTH_def)
  show ?thesis unfolding cut well_formed_letters by (simp add: is_high_def is_low_def)
qed

end
