(* ===== verification/FeedSync.thy ===== *)
theory FeedSync
  imports Feed_Runs
begin

text \<open>
  The synchronisation half of \<open>src/api/feedStore.js\<close>: \<open>startSync\<close>, \<open>startReconciler\<close>, \<open>watch\<close>,
  \<open>resync\<close>, \<open>close\<close>. One function per callback or stretch of code between two \<open>await\<close>s; what the
  driver answers (whether a stream could be opened, the event, the error, the count, the
  documents of a cursor) and the time are arguments. Resume tokens are the positions of events in
  the oplog. An exception in an event handler is the left summand: nothing catches it.
\<close>

section \<open>State\<close>

definition RECONCILE_SLACK :: int where
  "RECONCILE_SLACK = 25"

definition RESYNC_COOLDOWN_MS :: int where
  "RESYNC_COOLDOWN_MS = 120000"

definition RESYNC_CHUNK :: nat where
  "RESYNC_CHUNK = 512"

datatype timer = WatchTimer | ResyncTimer

text \<open>A resync that is under way: still reading (what it has prepared, newest first), or adding
  (what it still has to add, oldest first).\<close>

datatype resync_run = Reading "(jsstr \<times> jsstr) list" | Adding "(jsstr \<times> jsstr) list"

text \<open>Streams are numbered as they are opened; \<open>sy_opened\<close> logs every call of \<open>collection.watch\<close> with
  its \<open>resumeAfter\<close>, \<open>sy_shut\<close> every stream that was told to close.\<close>

record 'z sync =
  sy_store :: "'z feed_store"
  sy_closed :: bool
  sy_stream :: "nat option"
  sy_opened :: "(nat \<times> nat option) list"
  sy_shut :: "nat list"
  sy_token :: "nat option"
  sy_resyncs :: nat
  sy_streamFailures :: nat
  sy_lastResyncAt :: millis
  sy_shortLastTime :: int
  sy_every :: "int option"
  sy_timers :: "timer list"
  sy_runs :: "resync_run list"

definition new_sync :: "'z feed_store \<Rightarrow> 'z sync" where
  "new_sync store =
     \<lparr>sy_store = store, sy_closed = False, sy_stream = None, sy_opened = [], sy_shut = [],
      sy_token = None, sy_resyncs = 0, sy_streamFailures = 0, sy_lastResyncAt = 0,
      sy_shortLastTime = 0, sy_every = None, sy_timers = [], sy_runs = []\<rparr>"

section \<open>The change stream\<close>

definition watch :: "bool \<Rightarrow> 'z sync \<Rightarrow> 'z sync" where
  "watch openable s =
     (if sy_closed s then s
      else if openable then
        s\<lparr>sy_stream := Some (length (sy_opened s)),
          sy_opened := sy_opened s @ [(length (sy_opened s), sy_token s)]\<rparr>
      else s\<lparr>sy_timers := sy_timers s @ [ResyncTimer]\<rparr>)"

text \<open>\<open>on('change')\<close>: the event's token and, for an insert, its document.\<close>

definition on_change ::
  "'z deflater \<Rightarrow> gcm \<Rightarrow> byte list \<Rightarrow> millis \<Rightarrow> nat \<Rightarrow> document option \<Rightarrow> 'z sync \<Rightarrow> 'z sync" where
  "on_change df g key now token fullDocument s =
     (let s1 = s\<lparr>sy_token := Some token\<rparr>
      in (case fullDocument of
            None \<Rightarrow> s1
          | Some doc \<Rightarrow>
              if d_roomId doc \<noteq> fs_roomId (sy_store s1) then s1
              else let (added, store) = addDocument df g key now doc (sy_store s1)
                   in s1\<lparr>sy_store := if added then store\<lparr>fs_fromStream := Suc (fs_fromStream store)\<rparr> else store\<rparr>))"

text \<open>\<open>on('error')\<close>: whatever \<open>this.stream\<close> is by now is told to close; if it is \<open>null\<close>, calling \<open>close\<close>
  on it raises. \<open>stale\<close>: the error says that the token is no longer covered.\<close>

definition on_error :: "bool \<Rightarrow> 'z sync \<Rightarrow> js_error + 'z sync" where
  "on_error stale s =
     (if sy_closed s then Inr s
      else
        let s1 = s\<lparr>sy_streamFailures := Suc (sy_streamFailures s), sy_stream := None\<rparr>
        in (case sy_stream s of
              None \<Rightarrow> Inl TypeError
            | Some i \<Rightarrow> Inr (s1\<lparr>sy_shut := sy_shut s @ [i],
                               sy_timers := sy_timers s @ [if stale then ResyncTimer else WatchTimer]\<rparr>)))"

section \<open>Resynchronisation\<close>

definition resync :: "bool \<Rightarrow> 'z sync \<Rightarrow> 'z sync" where
  "resync openable s =
     (if sy_closed s then s
      else
        let s1 = watch openable (s\<lparr>sy_resyncs := Suc (sy_resyncs s), sy_token := None\<rparr>)
        in s1\<lparr>sy_runs := sy_runs s1 @ [Reading []]\<rparr>)"

text \<open>The cursor of run \<open>r\<close> delivers a document, fails, or is exhausted.\<close>

definition resync_document ::
  "gcm \<Rightarrow> byte list \<Rightarrow> millis \<Rightarrow> document \<Rightarrow> nat \<Rightarrow> 'z sync \<Rightarrow> 'z sync" where
  "resync_document g key now doc r s =
     (if length (sy_runs s) \<le> r then s
      else (case sy_runs s ! r of
          Adding todo \<Rightarrow> s
        | Reading prepared \<Rightarrow>
            (case prepare g key now doc (sy_store s) of
               None \<Rightarrow> s
             | Some entry \<Rightarrow> s\<lparr>sy_runs := (sy_runs s)[r := Reading (prepared @ [entry])]\<rparr>)))"

definition resync_failed :: "nat \<Rightarrow> 'z sync \<Rightarrow> 'z sync" where
  "resync_failed r s =
     s\<lparr>sy_runs := take r (sy_runs s) @ drop (Suc r) (sy_runs s), sy_timers := sy_timers s @ [ResyncTimer]\<rparr>"

text \<open>One slice of the adding loop, up to the next yield. A run that has added everything, or wakes
  up after \<open>close\<close>, is over.\<close>

definition resync_slice :: "'z deflater \<Rightarrow> nat \<Rightarrow> (jsstr \<times> jsstr) list \<Rightarrow> 'z sync \<Rightarrow> 'z sync" where
  "resync_slice df r todo s =
     (let s1 = s\<lparr>sy_store := push_all df (take RESYNC_CHUNK todo) (sy_store s)\<rparr>
      in if RESYNC_CHUNK < length todo
         then s1\<lparr>sy_runs := (sy_runs s)[r := Adding (drop RESYNC_CHUNK todo)]\<rparr>
         else s1\<lparr>sy_runs := take r (sy_runs s) @ drop (Suc r) (sy_runs s)\<rparr>)"

definition resync_exhausted :: "'z deflater \<Rightarrow> nat \<Rightarrow> 'z sync \<Rightarrow> 'z sync" where
  "resync_exhausted df r s =
     (if length (sy_runs s) \<le> r then s
      else (case sy_runs s ! r of
          Adding todo \<Rightarrow> s
        | Reading prepared \<Rightarrow> resync_slice df r (rev prepared) s))"

definition resync_continue :: "'z deflater \<Rightarrow> nat \<Rightarrow> 'z sync \<Rightarrow> 'z sync" where
  "resync_continue df r s =
     (if length (sy_runs s) \<le> r then s
      else (case sy_runs s ! r of
          Reading prepared \<Rightarrow> s
        | Adding todo \<Rightarrow>
            if sy_closed s then s\<lparr>sy_runs := take r (sy_runs s) @ drop (Suc r) (sy_runs s)\<rparr>
            else resync_slice df r todo s))"

section \<open>The reconciler\<close>

text \<open>\<open>Number.parseInt(process.env.FEED_RECONCILE_MS, 10) || 20_000\<close>.\<close>

definition reconcile_every :: "jsstr option \<Rightarrow> int option" where
  "reconcile_every env =
     (let every = (case env of None \<Rightarrow> 20000
                   | Some t \<Rightarrow> (case parse_int t of None \<Rightarrow> 20000 | Some i \<Rightarrow> if i = 0 then 20000 else i))
      in if every \<le> 0 then None else Some every)"

definition startReconciler :: "jsstr option \<Rightarrow> 'z sync \<Rightarrow> 'z sync" where
  "startReconciler env s = s\<lparr>sy_every := reconcile_every env, sy_shortLastTime := 0\<rparr>"

definition startSync :: "jsstr option \<Rightarrow> jsstr option \<Rightarrow> bool \<Rightarrow> 'z sync \<Rightarrow> 'z sync" where
  "startSync mode env openable s =
     (if mode = Some (js ''off'') then s else startReconciler env (watch openable s))"

definition behind :: "int \<Rightarrow> 'z sync \<Rightarrow> int" where
  "behind stored s = stored - (int (length (fs_entries (sy_store s))) + int (fs_dropped (sy_store s)))"

text \<open>The interval's callback asks for a count unless the store is closed; \<open>reconcile\<close> is what runs
  when \<open>countDocuments\<close> has answered.\<close>

definition reconcile_asks :: "'z sync \<Rightarrow> bool" where
  "reconcile_asks s \<longleftrightarrow> sy_every s \<noteq> None \<and> \<not> sy_closed s"

definition reconcile :: "int \<Rightarrow> millis \<Rightarrow> bool \<Rightarrow> 'z sync \<Rightarrow> 'z sync" where
  "reconcile stored now openable s =
     (let short = behind stored s
      in if RECONCILE_SLACK < short \<and> RECONCILE_SLACK < sy_shortLastTime s
              \<and> RESYNC_COOLDOWN_MS < now - sy_lastResyncAt s
           then resync openable (s\<lparr>sy_shortLastTime := 0, sy_lastResyncAt := now\<rparr>)
           else s\<lparr>sy_shortLastTime := short\<rparr>)"

section \<open>Timers and the end\<close>

definition timer_fires :: "nat \<Rightarrow> bool \<Rightarrow> 'z sync \<Rightarrow> 'z sync" where
  "timer_fires i openable s =
     (if length (sy_timers s) \<le> i then s
      else
        let s1 = s\<lparr>sy_timers := take i (sy_timers s) @ drop (Suc i) (sy_timers s)\<rparr>
        in (case sy_timers s ! i of WatchTimer \<Rightarrow> watch openable s1 | ResyncTimer \<Rightarrow> resync openable s1))"

definition close_sync :: "'z sync \<Rightarrow> 'z sync" where
  "close_sync s =
     s\<lparr>sy_closed := True, sy_every := None,
       sy_shut := sy_shut s @ (case sy_stream s of None \<Rightarrow> [] | Some i \<Rightarrow> [i])\<rparr>"

record sync_stats =
  ss_feed :: feed_stats
  ss_streamFailures :: nat
  ss_resyncs :: nat

definition sync_stats_of :: "'z sync \<Rightarrow> sync_stats" where
  "sync_stats_of s = \<lparr>ss_feed = feed_stats_of (sy_store s), ss_streamFailures = sy_streamFailures s,
     ss_resyncs = sy_resyncs s\<rparr>"

section \<open>A store and the collection it follows\<close>

text \<open>
  The collection in commit order, the position from which the open stream delivers, and the keys
  the store has ever accepted. Opening a stream without \<open>resumeAfter\<close> starts at the present end,
  opening it with one starts after that event: this is what MongoDB documents, and all that
  is assumed of it here.
\<close>

record 'z world =
  w_sync :: "'z sync"
  w_db :: "document list"
  w_pos :: nat
  w_ever :: "jsstr set"

datatype world_event =
    WInsert document
  | WDeliver millis
  | WLocal jsstr jsstr jsstr millis
  | WError
  | WReopen

definition start_position :: "nat option \<Rightarrow> document list \<Rightarrow> nat" where
  "start_position token db = (case token of None \<Rightarrow> length db | Some t \<Rightarrow> Suc t)"

definition with_sync :: "'z sync \<Rightarrow> 'z world \<Rightarrow> 'z world" where
  "with_sync s w = w\<lparr>w_sync := s, w_ever := w_ever w \<union> fs_seen (sy_store s)\<rparr>"

definition deliver :: "'z deflater \<Rightarrow> gcm \<Rightarrow> byte list \<Rightarrow> millis \<Rightarrow> 'z world \<Rightarrow> 'z world" where
  "deliver df g key now w =
     (if sy_stream (w_sync w) = None \<or> length (w_db w) \<le> w_pos w then w
      else with_sync (on_change df g key now (w_pos w) (Some (w_db w ! w_pos w)) (w_sync w)) (w\<lparr>w_pos := Suc (w_pos w)\<rparr>))"

definition reopen :: "'z world \<Rightarrow> 'z world" where
  "reopen w =
     (if WatchTimer \<in> set (sy_timers (w_sync w)) \<and> sy_stream (w_sync w) = None \<and> \<not> sy_closed (w_sync w)
      then
        let s = watch True ((w_sync w)\<lparr>sy_timers := remove1 WatchTimer (sy_timers (w_sync w))\<rparr>)
        in with_sync s (w\<lparr>w_pos := start_position (snd (last (sy_opened s))) (w_db w)\<rparr>)
      else w)"

fun world_apply :: "'z deflater \<Rightarrow> gcm \<Rightarrow> byte list \<Rightarrow> 'z world \<Rightarrow> world_event \<Rightarrow> 'z world" where
  "world_apply df g key w (WInsert doc) = w\<lparr>w_db := w_db w @ [doc]\<rparr>"
| "world_apply df g key w (WDeliver now) = deliver df g key now w"
| "world_apply df g key w (WLocal i name t ts) =
     with_sync ((w_sync w)\<lparr>sy_store := snd (addLocal df i name t ts (sy_store (w_sync w)))\<rparr>) w"
| "world_apply df g key w WError =
     (case on_error False (w_sync w) of Inl e \<Rightarrow> w | Inr s \<Rightarrow> with_sync s w)"
| "world_apply df g key w WReopen = reopen w"

text \<open>How far into the collection the store can have heard.\<close>

definition reached :: "'z world \<Rightarrow> nat" where
  "reached w = (case sy_stream (w_sync w) of
     Some i \<Rightarrow> w_pos w
   | None \<Rightarrow> start_position (sy_token (w_sync w)) (w_db w))"

definition in_room :: "'z world \<Rightarrow> document \<Rightarrow> bool" where
  "in_room w doc \<longleftrightarrow> d_roomId doc = fs_roomId (sy_store (w_sync w))"

text \<open>No gap: everything before that point has been in the store.\<close>

definition gapless :: "'z deflater \<Rightarrow> 'z world \<Rightarrow> bool" where
  "gapless df w \<longleftrightarrow> store_ok df (sy_store (w_sync w)) \<and> \<not> sy_closed (w_sync w)
     \<and> (sy_stream (w_sync w) = None \<longrightarrow> sy_token (w_sync w) \<noteq> None)
     \<and> (\<forall>t. sy_token (w_sync w) = Some t \<longrightarrow> t < length (w_db w) \<and> (sy_stream (w_sync w) \<noteq> None \<longrightarrow> w_pos w = Suc t))
     \<and> reached w \<le> length (w_db w)
     \<and> fs_seen (sy_store (w_sync w)) \<subseteq> w_ever w
     \<and> (\<forall>doc \<in> set (take (reached w) (w_db w)). in_room w doc \<longrightarrow> document_key doc \<in> w_ever w)"

text \<open>The stream does not break before its first event.\<close>

fun errors_after_an_event :: "'z deflater \<Rightarrow> gcm \<Rightarrow> byte list \<Rightarrow> 'z world \<Rightarrow> world_event list \<Rightarrow> bool" where
  "errors_after_an_event df g key w [] = True"
| "errors_after_an_event df g key w (e # es) =
     ((e = WError \<longrightarrow> sy_token (w_sync w) \<noteq> None) \<and> errors_after_an_event df g key (world_apply df g key w e) es)"

lemma push_room [simp]: "fs_roomId (snd (push df i j s)) = fs_roomId s"
  by (simp add: push_def trim_def Let_def)

lemma addDocument_room [simp]: "fs_roomId (snd (addDocument df g key now doc s)) = fs_roomId s"
  by (simp add: addDocument_push)

lemma addLocal_room [simp]: "fs_roomId (snd (addLocal df i n t ts s)) = fs_roomId s"
  by (simp add: addLocal_push)

lemma addDocument_seen:
  "store_ok df s \<Longrightarrow> document_key doc \<in> fs_seen (snd (addDocument df g key now doc s))"
proof -
  assume ok: "store_ok df s"
  have "fm_id (message_of g key now doc) = document_key doc" by (simp add: message_of_def Let_def)
  then have "document_key doc \<in> set (fs_ids (snd (addDocument df g key now doc s)))"
    using room.put_held[OF ok, of "document_key doc"] by (simp add: addDocument_push put_entry_def)
  then show ?thesis using addDocument_ok[OF ok] by (metis store_ok_def ids_ok_def)
qed

lemma fromStream_ok [simp]: "store_ok df (s\<lparr>fs_fromStream := n\<rparr>) = store_ok df s"
  by (cases "fs_base s") (simp_all add: store_ok_defs)

lemma on_change_store:
  "sy_store (on_change df g key now t (Some doc) s) =
     (if d_roomId doc \<noteq> fs_roomId (sy_store s) then sy_store s
      else (let (added, store) = addDocument df g key now doc (sy_store s)
            in if added then store\<lparr>fs_fromStream := Suc (fs_fromStream store)\<rparr> else store))"
  by (simp add: on_change_def Let_def case_prod_beta')

lemma on_change_frame [simp, frame_simps]:
  "sy_closed (on_change df g key now t d s) = sy_closed s" "sy_stream (on_change df g key now t d s) = sy_stream s"
  "sy_token (on_change df g key now t d s) = Some t" "sy_timers (on_change df g key now t d s) = sy_timers s"
  "sy_opened (on_change df g key now t d s) = sy_opened s"
  by (auto simp: on_change_def Let_def case_prod_beta' split: option.splits)

lemma on_change_facts:
  assumes "store_ok df (sy_store s)"
  shows "store_ok df (sy_store (on_change df g key now t (Some doc) s))"
    and "fs_roomId (sy_store (on_change df g key now t (Some doc) s)) = fs_roomId (sy_store s)"
    and "d_roomId doc = fs_roomId (sy_store s) \<Longrightarrow>
      document_key doc \<in> fs_seen (sy_store (on_change df g key now t (Some doc) s))"
  using assms addDocument_ok[OF assms] addDocument_seen[OF assms, of doc g key now]
    addDocument_room[of df g key now doc "sy_store s"]
  by (auto simp: on_change_store case_prod_beta' Let_def)

lemma take_reached:
  "doc \<in> set (take (Suc n) xs) \<Longrightarrow> n < length xs \<Longrightarrow> doc \<in> set (take n xs) \<or> doc = xs ! n"
  by (auto simp: take_Suc_conv_app_nth)

lemma gapless_deliver:
  assumes "gapless df w" shows "gapless df (deliver df g key now w)"
proof (cases "sy_stream (w_sync w) = None \<or> length (w_db w) \<le> w_pos w")
  case True
  then show ?thesis using assms by (simp add: deliver_def)
next
  case False
  let ?s = "w_sync w" and ?doc = "w_db w ! w_pos w"
  let ?s' = "on_change df g key now (w_pos w) (Some ?doc) ?s"
  have ok: "store_ok df (sy_store ?s)" using assms by (simp add: gapless_def)
  note facts = on_change_facts[OF ok, where g = g and key = key and now = now and t = "w_pos w" and doc = ?doc]
  have w': "deliver df g key now w = w\<lparr>w_sync := ?s', w_pos := Suc (w_pos w), w_ever := w_ever w \<union> fs_seen (sy_store ?s')\<rparr>"
    using False by (auto simp: deliver_def with_sync_def)
  have room: "in_room (deliver df g key now w) = in_room w"
    using facts(2) by (auto simp: w' in_room_def)
  have r: "reached w = w_pos w" "reached (deliver df g key now w) = Suc (w_pos w)"
    using False by (auto simp: reached_def w' split: option.split)
  have "document_key doc \<in> w_ever w \<union> fs_seen (sy_store ?s')"
    if "doc \<in> set (take (Suc (w_pos w)) (w_db w))" "in_room w doc" for doc
    using take_reached[OF that(1)] False that(2) assms r(1) facts(3) by (auto simp: gapless_def in_room_def)
  then show ?thesis
    using assms False facts(1) unfolding gapless_def room r by (auto simp: w')
qed

lemma gapless_event:
  assumes g: "gapless df w" and "e = WError \<longrightarrow> sy_token (w_sync w) \<noteq> None"
  shows "gapless df (world_apply df gc key w e)"
proof (cases e)
  case (WInsert doc)
  have pos: "reached (w\<lparr>w_db := w_db w @ [doc]\<rparr>) = reached w"
    using g by (auto simp: reached_def start_position_def gapless_def split: option.splits)
  then show ?thesis using g unfolding WInsert by (auto simp: gapless_def in_room_def)
next
  case (WDeliver now)
  then show ?thesis using gapless_deliver[OF g] by simp
next
  case (WLocal i n t ts)
  have "store_ok df (snd (addLocal df i n t ts (sy_store (w_sync w))))"
    using g by (simp add: gapless_def addLocal_push push_ok)
  then show ?thesis using g unfolding WLocal
    by (auto simp: gapless_def in_room_def with_sync_def reached_def split: option.splits)
next
  case WError
  show ?thesis
  proof (cases "on_error False (w_sync w)")
    case (Inl err)
    then show ?thesis using g WError by simp
  next
    case (Inr s)
    obtain t where t: "sy_token (w_sync w) = Some t" using assms(2) WError by auto
    have "sy_token s = Some t" "sy_store s = sy_store (w_sync w)" "sy_stream s = None" "\<not> sy_closed s"
      "w_pos w = Suc t" "sy_stream (w_sync w) \<noteq> None"
      using Inr g t by (auto simp: on_error_def Let_def gapless_def split: option.splits if_splits)
    then show ?thesis
      using g t Inr unfolding WError
      by (auto simp: gapless_def in_room_def with_sync_def reached_def start_position_def split: option.splits)
  qed
next
  case WReopen
  show ?thesis
    using g unfolding WReopen
    by (auto simp: reopen_def gapless_def in_room_def with_sync_def reached_def start_position_def watch_def
        split: option.splits if_splits)
qed

lemma gapless_run:
  "gapless df w \<Longrightarrow> errors_after_an_event df g key w es \<Longrightarrow> gapless df (run_events (world_apply df g key) w es)"
  by (induction es arbitrary: w) (auto intro: gapless_event)

lemma gapless_start:
  assumes "store_ok df store" "\<forall>doc \<in> set db. d_roomId doc = fs_roomId store \<longrightarrow> document_key doc \<in> fs_seen store"
  shows "gapless df \<lparr>w_sync = watch True (new_sync store), w_db = db, w_pos = length db, w_ever = fs_seen store\<rparr>"
  using assms by (simp add: gapless_def watch_def new_sync_def reached_def in_room_def)

text \<open>A key that is behind the stream and was never accepted.\<close>

definition missed :: "jsstr \<Rightarrow> 'z world \<Rightarrow> bool" where
  "missed k w \<longleftrightarrow> k \<notin> w_ever w \<and> fs_seen (sy_store (w_sync w)) \<subseteq> w_ever w
     \<and> (\<forall>t. sy_token (w_sync w) = Some t \<and> sy_stream (w_sync w) \<noteq> None \<longrightarrow> w_pos w = Suc t)
     \<and> (\<forall>doc \<in> set (drop (reached w) (w_db w)). document_key doc \<noteq> k)"

fun brings :: "jsstr \<Rightarrow> world_event \<Rightarrow> bool" where
  "brings k (WInsert doc) = (document_key doc = k)"
| "brings k (WLocal i n t ts) = (i = k)"
| "brings k _ = False"

lemma push_seen: "fs_seen (snd (push df i j s)) \<subseteq> insert i (fs_seen s)"
  by (auto simp: push_def trim_def Let_def)

lemma on_change_seen:
  "fs_seen (sy_store (on_change df g key now t (Some doc) s)) \<subseteq> insert (document_key doc) (fs_seen (sy_store s))"
proof -
  have "fm_id (message_of g key now doc) = document_key doc" by (simp add: message_of_def Let_def)
  then have "fs_seen (snd (addDocument df g key now doc (sy_store s))) \<subseteq> insert (document_key doc) (fs_seen (sy_store s))"
    using push_seen by (metis addDocument_push)
  then show ?thesis by (auto simp: on_change_store Let_def case_prod_beta')
qed

lemma missed_deliver:
  assumes m: "missed k w" shows "missed k (deliver df g key now w)"
proof (cases "sy_stream (w_sync w) = None \<or> length (w_db w) \<le> w_pos w")
  case True
  then show ?thesis using m by (simp add: deliver_def)
next
  case False
  let ?doc = "w_db w ! w_pos w"
  let ?s' = "on_change df g key now (w_pos w) (Some ?doc) (w_sync w)"
  have w': "deliver df g key now w = w\<lparr>w_sync := ?s', w_pos := Suc (w_pos w), w_ever := w_ever w \<union> fs_seen (sy_store ?s')\<rparr>"
    using False by (auto simp: deliver_def with_sync_def)
  have r: "reached w = w_pos w" "reached (deliver df g key now w) = Suc (w_pos w)"
    using False by (auto simp: reached_def w' split: option.split)
  have d: "drop (w_pos w) (w_db w) = ?doc # drop (Suc (w_pos w)) (w_db w)"
    using False by (simp add: Cons_nth_drop_Suc)
  have later: "\<forall>doc \<in> set (drop (w_pos w) (w_db w)). document_key doc \<noteq> k"
    using m unfolding missed_def r by blast
  have "k \<notin> fs_seen (sy_store ?s')"
    using on_change_seen[of df g key now "w_pos w" ?doc "w_sync w"] m later unfolding d missed_def by auto
  then show ?thesis
    using m later unfolding missed_def r d by (auto simp: w')
qed

lemma missed_event:
  assumes m: "missed k w" and "\<not> brings k e"
  shows "missed k (world_apply df g key w e)"
proof (cases e)
  case (WInsert doc)
  have "set (drop (reached (w\<lparr>w_db := w_db w @ [doc]\<rparr>)) (w_db w @ [doc])) \<subseteq> insert doc (set (drop (reached w) (w_db w)))"
    by (auto simp: reached_def start_position_def split: option.splits dest: in_set_dropD)
  then show ?thesis using assms unfolding WInsert by (auto simp: missed_def)
next
  case (WDeliver now)
  then show ?thesis using missed_deliver[OF m] by simp
next
  case (WLocal i n t ts)
  have "k \<notin> fs_seen (snd (addLocal df i n t ts (sy_store (w_sync w))))"
    using push_seen[of df i _ "sy_store (w_sync w)"] assms WLocal by (fastforce simp: addLocal_push missed_def)
  then show ?thesis using m unfolding WLocal
    by (auto simp: missed_def with_sync_def reached_def split: option.splits)
next
  case WError
  show ?thesis
  proof (cases "on_error False (w_sync w)")
    case (Inl err)
    then show ?thesis using m WError by simp
  next
    case (Inr s)
    then have "s = w_sync w \<or> (sy_stream s = None \<and> sy_token s = sy_token (w_sync w)
        \<and> sy_store s = sy_store (w_sync w) \<and> sy_stream (w_sync w) \<noteq> None)"
      by (auto simp: on_error_def Let_def split: option.splits if_splits)
    then show ?thesis
      using m Inr unfolding WError
      by (cases "sy_token (w_sync w)"; cases "sy_stream (w_sync w)")
         (auto simp: missed_def with_sync_def reached_def start_position_def)
  qed
next
  case WReopen
  show ?thesis
    using m unfolding WReopen
    by (auto simp: reopen_def missed_def with_sync_def reached_def start_position_def watch_def split: option.splits)
qed

interpretation gap: event_invariant "world_apply df g key" "\<lambda>e. \<not> brings k e" "missed k" for df g key k
  by unfold_locales (rule missed_event)

lemma behind_after_watch [simp]: "behind stored (watch b s) = behind stored s"
  by (simp add: watch_def behind_def)

text \<open>The reconciler's ticks in a room that outgrew the cap before the store was loaded.\<close>

fun cooldown_cycles :: "int \<Rightarrow> nat \<Rightarrow> 'z sync \<Rightarrow> 'z sync" where
  "cooldown_cycles stored 0 s = s"
| "cooldown_cycles stored (Suc n) s =
     (let now = 140000 * (int n + 1)
      in reconcile stored (now + 20000) True (reconcile stored now True (cooldown_cycles stored n s)))"

lemma cooldown_cycles_facts:
  assumes "25 < behind stored s" "\<not> sy_closed s" "sy_shortLastTime s = 0" "sy_lastResyncAt s \<le> 0"
  shows "sy_resyncs (cooldown_cycles stored n s) = sy_resyncs s + n
    \<and> sy_store (cooldown_cycles stored n s) = sy_store s \<and> \<not> sy_closed (cooldown_cycles stored n s)
    \<and> sy_shortLastTime (cooldown_cycles stored n s) = 0
    \<and> sy_lastResyncAt (cooldown_cycles stored n s) \<le> 140000 * int n + 20000"
proof (induction n)
  case 0
  then show ?case using assms by simp
next
  case (Suc n)
  let ?c = "cooldown_cycles stored n s"
  have b: "25 < behind stored ?c" using Suc assms(1) by (simp add: behind_def)
  have first: "reconcile stored (140000 * (int n + 1)) True ?c = ?c\<lparr>sy_shortLastTime := behind stored ?c\<rparr>"
    using Suc by (simp add: reconcile_def RECONCILE_SLACK_def)
  show ?case
    using Suc b unfolding cooldown_cycles.simps Let_def first
    by (simp add: reconcile_def resync_def watch_def RECONCILE_SLACK_def RESYNC_COOLDOWN_MS_def behind_def)
qed

section \<open>Any schedule of callbacks\<close>

datatype sync_event =
    SStart "jsstr option" "jsstr option" bool
  | SChange millis nat "document option"
  | SError bool
  | SResync bool
  | SDocument millis document nat
  | SCursorFailed nat
  | SCursorDone nat
  | SContinue nat
  | SReconcile int millis bool
  | STimer nat bool
  | SLocal jsstr jsstr jsstr millis
  | SClose

fun sync_apply :: "'z deflater \<Rightarrow> gcm \<Rightarrow> byte list \<Rightarrow> 'z sync \<Rightarrow> sync_event \<Rightarrow> 'z sync" where
  "sync_apply df g key s (SStart mode env openable) = startSync mode env openable s"
| "sync_apply df g key s (SChange now token d) = on_change df g key now token d s"
| "sync_apply df g key s (SError stale) = (case on_error stale s of Inl e \<Rightarrow> s | Inr s' \<Rightarrow> s')"
| "sync_apply df g key s (SResync openable) = resync openable s"
| "sync_apply df g key s (SDocument now doc r) = resync_document g key now doc r s"
| "sync_apply df g key s (SCursorFailed r) = resync_failed r s"
| "sync_apply df g key s (SCursorDone r) = resync_exhausted df r s"
| "sync_apply df g key s (SContinue r) = resync_continue df r s"
| "sync_apply df g key s (SReconcile stored now openable) =
     (if reconcile_asks s then reconcile stored now openable s else s)"
| "sync_apply df g key s (STimer i openable) = timer_fires i openable s"
| "sync_apply df g key s (SLocal i n t ts) = s\<lparr>sy_store := snd (addLocal df i n t ts (sy_store s))\<rparr>"
| "sync_apply df g key s SClose = close_sync s"

lemma watch_store [simp]: "sy_store (watch b s) = sy_store s"
  by (simp add: watch_def)

lemma resync_store [simp]: "sy_store (resync b s) = sy_store s"
  by (simp add: resync_def Let_def)

lemma on_error_store: "on_error stale s = Inr s' \<Longrightarrow> sy_store s' = sy_store s"
  by (auto simp: on_error_def Let_def split: if_splits option.splits)

lemma resync_slice_ok: "store_ok df (sy_store s) \<Longrightarrow> store_ok df (sy_store (resync_slice df r todo s))"
  by (simp add: resync_slice_def Let_def push_all_ok)

lemma on_change_ok: "store_ok df (sy_store s) \<Longrightarrow> store_ok df (sy_store (on_change df g key now t d s))"
proof (cases d)
  case None
  assume "store_ok df (sy_store s)"
  then show ?thesis using None by (simp add: on_change_def Let_def)
qed (simp add: on_change_facts(1))

lemma sync_apply_ok:
  assumes "store_ok df (sy_store s)" shows "store_ok df (sy_store (sync_apply df g key s e))"
proof (cases e)
  case (SError stale)
  then show ?thesis using assms by (auto split: sum.splits dest: on_error_store)
qed (use assms in \<open>auto simp: on_change_ok resync_slice_ok startSync_def startReconciler_def resync_document_def
      resync_failed_def resync_exhausted_def resync_continue_def reconcile_def timer_fires_def close_sync_def
      addLocal_push push_ok Let_def split: option.splits resync_run.splits timer.splits\<close>)

interpretation synced: event_invariant "sync_apply df g key" "\<lambda>e. True" "\<lambda>s. store_ok df (sy_store s)" for df g key
  by unfold_locales (rule sync_apply_ok)

section \<open>Properties\<close>

text \<open>
  C16: the resume token leaves no gap. If the stream was opened on a store that held every document
  of the room, then after any interleaving of inserts by other backends, deliveries, local
  messages, stream errors and reopenings in which the stream does not break before its first
  event, every document of the room that the stream has passed has been in the store; once
  the stream has caught up, that is every document.
\<close>

theorem resume_leaves_no_gap:
  assumes "store_ok df store"
    and loaded: "\<forall>doc \<in> set db. d_roomId doc = fs_roomId store \<longrightarrow> document_key doc \<in> fs_seen store"
    and w0: "w0 = \<lparr>w_sync = watch True (new_sync store), w_db = db, w_pos = length db, w_ever = fs_seen store\<rparr>"
    and "errors_after_an_event df g key w0 es"
    and w: "w = run_events (world_apply df g key) w0 es"
  shows "(\<forall>doc \<in> set (take (reached w) (w_db w)). in_room w doc \<longrightarrow> document_key doc \<in> w_ever w)
    \<and> (reached w = length (w_db w) \<longrightarrow> (\<forall>doc \<in> set (w_db w). in_room w doc \<longrightarrow> document_key doc \<in> w_ever w))"
proof -
  have "gapless df w" unfolding w using gapless_start[OF assms(1) loaded] assms(4) w0 by (auto intro: gapless_run)
  then show ?thesis by (auto simp: gapless_def)
qed

theorem resume_leaves_no_gap_witness:
  "document_key (sample_doc 1) \<in> w_ever (run_events (world_apply storing_df plain_gcm [])
     \<lparr>w_sync = watch True (new_sync (new_FeedStore storing_df 5 (js ''main''))), w_db = [], w_pos = 0, w_ever = {}\<rparr>
     [WInsert (sample_doc 1), WDeliver 7])"
proof -
  let ?store = "new_FeedStore storing_df 5 (js ''main'')"
  let ?w0 = "\<lparr>w_sync = watch True (new_sync ?store), w_db = [], w_pos = length ([] :: document list), w_ever = fs_seen ?store\<rparr>"
  let ?w = "run_events (world_apply storing_df plain_gcm []) ?w0 [WInsert (sample_doc 1), WDeliver 7]"
  have ok: "store_ok storing_df ?store" by (rule store_ok_new) simp
  have r: "reached ?w = 1" "w_db ?w = [sample_doc 1]"
    by (simp_all add: deliver_def with_sync_def reached_def watch_def new_sync_def)
  have "in_room ?w (sample_doc 1)"
    by (simp add: in_room_def deliver_def with_sync_def watch_def new_sync_def on_change_store Let_def case_prod_beta')
       (simp add: sample_doc_def new_FeedStore_def)
  moreover have "(\<forall>doc \<in> set (take (reached ?w) (w_db ?w)). in_room ?w doc \<longrightarrow> document_key doc \<in> w_ever ?w)"
    by (rule resume_leaves_no_gap[OF ok _ refl _ refl, THEN conjunct1]) simp_all
  ultimately have "document_key (sample_doc 1) \<in> w_ever ?w" unfolding r by simp
  then show ?thesis by (simp add: new_FeedStore_def)
qed



text \<open>
  A resync leaks the stream it replaces. When the reconciler triggers a resync, the stream that
  was open is overwritten without being closed. If both streams then fail, the handler of the
  first error closes the new stream, whichever of the two failed, and the handler of the
  second calls \<open>close\<close> on \<open>null\<close>: an uncaught \<open>TypeError\<close>.
\<close>

theorem resync_leaks_stream:
  assumes "\<not> sy_closed s" and "sy_stream s = Some i" and "i < length (sy_opened s)" and "i \<notin> set (sy_shut s)"
    and "25 < behind stored s" "25 < sy_shortLastTime s" "120000 < now - sy_lastResyncAt s"
    and s1: "s1 = reconcile stored now True s"
  shows "sy_stream s1 = Some (length (sy_opened s)) \<and> i \<notin> set (sy_shut s1)
    \<and> (\<exists>s2. on_error False s1 = Inr s2 \<and> i \<notin> set (sy_shut s2) \<and> on_error later s2 = Inl TypeError)"
proof -
  have "s1 = resync True (s\<lparr>sy_shortLastTime := 0, sy_lastResyncAt := now\<rparr>)"
    using assms(5-7) by (simp add: s1 reconcile_def RECONCILE_SLACK_def RESYNC_COOLDOWN_MS_def)
  then have "sy_stream s1 = Some (length (sy_opened s))" "sy_shut s1 = sy_shut s" "\<not> sy_closed s1"
    using assms(1) by (simp_all add: resync_def watch_def Let_def)
  then show ?thesis using assms(3,4) by (simp add: on_error_def Let_def)
qed

theorem resync_leaks_stream_witness:
  "sy_stream (reconcile 100 200000 True ((watch True (new_sync (new_FeedStore storing_df 5 (js ''main''))))
     \<lparr>sy_shortLastTime := 90\<rparr>)) = Some 1"
  using resync_leaks_stream[of "(watch True (new_sync (new_FeedStore storing_df 5 (js ''main''))))\<lparr>sy_shortLastTime := 90\<rparr>"
      0 100 200000, OF _ _ _ _ _ _ _ refl]
  by (simp add: watch_def new_sync_def new_FeedStore_def behind_def)

text \<open>
  A room that had outgrown the cap is resynchronised for ever. \<open>held\<close> counts the entries and
  what was dropped, but not what \<open>load\<close> left out; if that is more than 25 messages, the reconciler
  reads the whole room again after every cooldown, any number of times, although the store never
  changes.
\<close>

theorem reconciler_never_satisfied:
  assumes "int (length (fs_entries (sy_store s)) + fs_dropped (sy_store s)) + 25 < stored"
    and "\<not> sy_closed s" and "sy_shortLastTime s = 0" and "sy_lastResyncAt s = 0"
  shows "sy_resyncs (cooldown_cycles stored n s) = sy_resyncs s + n
    \<and> sy_store (cooldown_cycles stored n s) = sy_store s"
  using cooldown_cycles_facts[of stored s n] assms by (simp add: behind_def)

theorem reconciler_never_satisfied_witness:
  "sy_resyncs (cooldown_cycles 70000 3 (new_sync (new_FeedStore storing_df 60000 (js ''main'')))) = 3"
  using reconciler_never_satisfied[of "new_sync (new_FeedStore storing_df 60000 (js ''main''))" 70000 3]
  by (simp add: new_sync_def new_FeedStore_def)



end
