(* ===== verification/LoadMetrics.thy ===== *)
theory LoadMetrics
  imports FeedSync WriteQueue Presence
begin

text \<open>
  \<open>src/api/loadMetrics.js\<close> and \<open>src/routes/health.js\<close>: the numbers the load balancer polls. What
  the kernel, V8 and the event-loop histogram report is the record \<open>readings\<close>, with \<open>None\<close> for a
  cgroup file that cannot be read; doubles are rationals.
\<close>

section \<open>Readings\<close>

definition SAMPLE_INTERVAL_MS :: int where
  "SAMPLE_INTERVAL_MS = 250"

definition LOOP_RESOLUTION_MS :: rat where
  "LOOP_RESOLUTION_MS = 10"

record readings =
  rd_cpuUsage :: "rat option"
  rd_procUser :: rat
  rd_procSystem :: rat
  rd_loopMean :: "rat option"
  rd_loopP99 :: "rat option"
  rd_memoryCurrent :: "rat option"
  rd_memoryMax :: "rat option"
  rd_rss :: rat
  rd_heapUsed :: rat
  rd_heapLimit :: rat
  rd_uptime :: rat

text \<open>\<open>cpu.max\<close>, split at white space: a quota (\<open>None\<close> is the word \<open>max\<close>) and a period; the whole is
  \<open>None\<close> where the file cannot be read. The value \<open>|| 1\<close> replaces 0.\<close>

definition readCpuLimit :: "(rat option \<times> rat) option \<Rightarrow> rat \<Rightarrow> rat" where
  "readCpuLimit cpu_max cores =
     (case cpu_max of
        None \<Rightarrow> cores
      | Some (None, period) \<Rightarrow> cores
      | Some (Some quota, period) \<Rightarrow> quota / period)"

definition cpu_limit :: "(rat option \<times> rat) option \<Rightarrow> rat \<Rightarrow> rat" where
  "cpu_limit cpu_max cores = (if readCpuLimit cpu_max cores = 0 then 1 else readCpuLimit cpu_max cores)"

section \<open>Helpers\<close>

text \<open>\<open>None\<close> is a value that is not finite.\<close>

definition clamp01 :: "rat option \<Rightarrow> rat" where
  "clamp01 value = (case value of None \<Rightarrow> 0 | Some v \<Rightarrow> if v < 0 then 0 else if 1 < v then 1 else v)"

text \<open>\<open>NaN\<close>, which the histogram reports before its first reading, is not over 0.\<close>

definition lagAbove :: "rat option \<Rightarrow> rat" where
  "lagAbove nanoseconds =
     (case nanoseconds of
        None \<Rightarrow> 0
      | Some ns \<Rightarrow>
          let milliseconds = ns / 1000000 - LOOP_RESOLUTION_MS
          in if 0 < milliseconds then round_to milliseconds 2 else 0)"

section \<open>LoadMetrics\<close>

record snapshot =
  sn_backend :: jsstr
  sn_cpu :: rat
  sn_procCpu :: rat
  sn_loopLagMs :: rat
  sn_loopLagP99Ms :: rat
  sn_inflight :: int
  sn_memoryUsed :: "rat option"
  sn_memoryLimit :: "rat option"
  sn_memoryFraction :: "rat option"
  sn_rssMB :: rat
  sn_heapMB :: rat
  sn_heapLimitMB :: rat
  sn_uptimeSeconds :: int

record metrics =
  lm_instance :: jsstr
  lm_inflight :: int
  lm_cpuLimit :: rat
  lm_lastCpuUsage :: "rat option"
  lm_lastCpuAt :: millis
  lm_lastProcCpu :: rat
  lm_snapshot :: snapshot

definition build :: "jsstr \<Rightarrow> int \<Rightarrow> rat \<Rightarrow> rat \<Rightarrow> readings \<Rightarrow> snapshot" where
  "build inst inflight cpu procCpu r =
     \<lparr>sn_backend = inst, sn_cpu = cpu, sn_procCpu = procCpu,
      sn_loopLagMs = lagAbove (rd_loopMean r), sn_loopLagP99Ms = lagAbove (rd_loopP99 r),
      sn_inflight = inflight, sn_memoryUsed = rd_memoryCurrent r, sn_memoryLimit = rd_memoryMax r,
      sn_memoryFraction =
        (case (rd_memoryCurrent r, rd_memoryMax r) of
           (Some c, Some m) \<Rightarrow> if c \<noteq> 0 \<and> m \<noteq> 0 then Some (round_to (c / m) 4) else None
         | _ \<Rightarrow> None),
      sn_rssMB = round_to (rd_rss r / 1048576) 1, sn_heapMB = round_to (rd_heapUsed r / 1048576) 1,
      sn_heapLimitMB = round_to (rd_heapLimit r / 1048576) 1, sn_uptimeSeconds = js_round (rd_uptime r)\<rparr>"

definition new_LoadMetrics :: "jsstr \<Rightarrow> (rat option \<times> rat) option \<Rightarrow> rat \<Rightarrow> millis \<Rightarrow> readings \<Rightarrow> metrics" where
  "new_LoadMetrics inst cpu_max cores now r =
     \<lparr>lm_instance = inst, lm_inflight = 0, lm_cpuLimit = cpu_limit cpu_max cores,
      lm_lastCpuUsage = rd_cpuUsage r, lm_lastCpuAt = now, lm_lastProcCpu = rd_procUser r + rd_procSystem r,
      lm_snapshot = build inst 0 0 0 r\<rparr>"

definition requestStarted :: "metrics \<Rightarrow> metrics" where
  "requestStarted m = m\<lparr>lm_inflight := lm_inflight m + 1\<rparr>"

definition requestFinished :: "metrics \<Rightarrow> metrics" where
  "requestFinished m = m\<lparr>lm_inflight := lm_inflight m - 1\<rparr>"

definition sample :: "millis \<Rightarrow> readings \<Rightarrow> metrics \<Rightarrow> metrics" where
  "sample now r m =
     (let elapsedMs = now - lm_lastCpuAt m
      in if elapsedMs \<le> 0 then m
         else
           let base = of_int elapsedMs * 1000 * lm_cpuLimit m;
               cpu = (case (rd_cpuUsage r, lm_lastCpuUsage m) of
                        (Some usage, Some before) \<Rightarrow> (usage - before) / base | _ \<Rightarrow> 0);
               proc = rd_procUser r + rd_procSystem r;
               procCpu = (proc - lm_lastProcCpu m) / base
           in m\<lparr>lm_lastCpuUsage := (case rd_cpuUsage r of None \<Rightarrow> lm_lastCpuUsage m | Some u \<Rightarrow> Some u),
                lm_lastProcCpu := proc, lm_lastCpuAt := now,
                lm_snapshot := build (lm_instance m) (lm_inflight m) (clamp01 (Some cpu)) (clamp01 (Some procCpu)) r\<rparr>)"

text \<open>The snapshot with the present in-flight count, and what the caller adds.\<close>

record 'a load_report =
  lr_snapshot :: snapshot
  lr_extra :: 'a

definition report :: "'a \<Rightarrow> metrics \<Rightarrow> 'a load_report" where
  "report extra m = \<lparr>lr_snapshot = (lm_snapshot m)\<lparr>sn_inflight := lm_inflight m\<rparr>, lr_extra = extra\<rparr>"

section \<open>The two routes\<close>

record health =
  hl_status :: jsstr
  hl_backend :: jsstr
  hl_uptimeSeconds :: int
  hl_onlineUsers :: nat

definition health_route :: "jsstr \<Rightarrow> rat \<Rightarrow> presence \<Rightarrow> health" where
  "health_route inst uptime p =
     \<lparr>hl_status = js ''ok'', hl_backend = inst, hl_uptimeSeconds = js_round uptime, hl_onlineUsers = Presence.count p\<rparr>"

definition load_route :: "metrics \<Rightarrow> 'z sync \<Rightarrow> 'd write_queue \<Rightarrow> (sync_stats \<times> wq_stats) load_report" where
  "load_route m feed q = report (sync_stats_of feed, WriteQueue.stats q) m"

section \<open>The in-flight middleware\<close>

text \<open>
  The first middleware of \<open>server.js\<close>. \<open>open_requests\<close> are the responses whose \<open>close\<close> handler has not
  run yet (its \<open>counted\<close> is still true); Socket.IO's own URLs are let through uncounted, and a
  \<open>close\<close> that fires again finds \<open>counted\<close> false.
\<close>

record request_log =
  rl_metrics :: metrics
  rl_open :: "nat list"
  rl_next :: nat

datatype http_event = Arrives jsstr | Closes nat

definition counted_url :: "jsstr \<Rightarrow> bool" where
  "counted_url url \<longleftrightarrow> take 11 url \<noteq> js ''/socket.io/''"

fun middleware :: "request_log \<Rightarrow> http_event \<Rightarrow> request_log" where
  "middleware l (Arrives url) =
     (if counted_url url
      then l\<lparr>rl_metrics := requestStarted (rl_metrics l), rl_open := rl_next l # rl_open l, rl_next := Suc (rl_next l)\<rparr>
      else l\<lparr>rl_next := Suc (rl_next l)\<rparr>)"
| "middleware l (Closes r) =
     (if r \<in> set (rl_open l)
      then l\<lparr>rl_metrics := requestFinished (rl_metrics l), rl_open := remove1 r (rl_open l)\<rparr>
      else l)"

definition counts_open :: "request_log \<Rightarrow> bool" where
  "counts_open l \<longleftrightarrow> lm_inflight (rl_metrics l) = int (length (rl_open l))
     \<and> distinct (rl_open l) \<and> (\<forall>r \<in> set (rl_open l). r < rl_next l)"

lemma middleware_counts: "counts_open l \<Longrightarrow> counts_open (middleware l e)"
proof (cases e)
  case (Arrives url)
  assume c: "counts_open l"
  then show ?thesis using Arrives by (auto simp: counts_open_def requestStarted_def less_Suc_eq)
next
  case (Closes r)
  assume c: "counts_open l"
  show ?thesis
  proof (cases "r \<in> set (rl_open l)")
    case True
    then have "int (length (rl_open l) - 1) = int (length (rl_open l)) - 1" by (cases "rl_open l") auto
    then show ?thesis using c Closes True
      by (auto simp: counts_open_def requestFinished_def length_remove1 dest: notin_set_remove1)
  qed (use c Closes in simp)
qed

interpretation http: event_invariant middleware "\<lambda>e. True" counts_open
  by unfold_locales (rule middleware_counts)

lemma round_to_nonneg: "0 \<le> x \<Longrightarrow> 0 \<le> round_to x p"
  using js_round_mono[of 0 "x * 10 ^ p"] by (simp add: round_to_def js_round_def)

lemma lagAbove_nonneg: "0 \<le> lagAbove ns"
  by (auto simp: lagAbove_def Let_def round_to_nonneg split: option.split)

section \<open>Properties\<close>



text \<open>
  Every sample is a fraction. Whatever the kernel reports, counters that run backwards or files
  that cannot be read included, the two CPU figures of a snapshot are between 0 and 1 and the two
  lags are not negative, and a sample taken at the same millisecond as the last one is
  dropped rather than divided by zero.
\<close>

theorem samples_are_fractions:
  "if now \<le> lm_lastCpuAt m then sample now r m = m
   else (let sn = lm_snapshot (sample now r m)
         in 0 \<le> sn_cpu sn \<and> sn_cpu sn \<le> 1 \<and> 0 \<le> sn_procCpu sn \<and> sn_procCpu sn \<le> 1
            \<and> 0 \<le> sn_loopLagMs sn \<and> 0 \<le> sn_loopLagP99Ms sn \<and> sn_inflight sn = lm_inflight m)"
  by (auto simp: sample_def Let_def build_def clamp01_def lagAbove_nonneg)

end
