(* ===== verification/Js_Numbers.thy ===== *)
theory Js_Numbers
  imports Js_Strings
begin

text \<open>
  \<open>Number(text)\<close> on the text of an environment variable, a command-line flag or a file of the
  kernel, and the idiom \<open>Number(value) || default\<close>. Finite doubles are idealised as rationals, and
  minus zero as zero.
\<close>

datatype numeric = NaN | PosInfinity | NegInfinity | Num rat

fun negate :: "numeric \<Rightarrow> numeric" where
  "negate NaN = NaN"
| "negate PosInfinity = NegInfinity"
| "negate NegInfinity = PosInfinity"
| "negate (Num r) = Num (- r)"

text \<open>The digits of an exponent, with their optional sign.\<close>

definition exponent :: "jsstr \<Rightarrow> int option" where
  "exponent s =
     (let (sign, ds) = (case s of [] \<Rightarrow> (1, []) | c # r \<Rightarrow> if c = 43 then (1, r) else if c = 45 then (-1, r) else (1, s))
      in if ds = [] \<or> \<not> list_all is_digit ds then None else Some (sign * int (digits_val ds)))"

definition pow10 :: "int \<Rightarrow> rat" where
  "pow10 e = (if 0 \<le> e then 10 ^ nat e else 1 / 10 ^ nat (- e))"

text \<open>\<open>StrUnsignedDecimalLiteral\<close>: digits with at most one point among them, and an exponent.\<close>

definition unsigned_decimal :: "jsstr \<Rightarrow> numeric" where
  "unsigned_decimal s =
     (if s = js ''Infinity'' then PosInfinity
      else
        let whole = takeWhile is_digit s;
            r = dropWhile is_digit s;
            (frac, rest) = (case r of [] \<Rightarrow> ([], [])
              | c # r' \<Rightarrow> if c = 46 then (takeWhile is_digit r', dropWhile is_digit r') else ([], r));
            mantissa = of_nat (digits_val (whole @ frac)) * pow10 (- int (length frac))
        in if whole @ frac = [] then NaN
           else (case rest of
                   [] \<Rightarrow> Num mantissa
                 | c # r' \<Rightarrow> if c = 101 \<or> c = 69
                     then (case exponent r' of None \<Rightarrow> NaN | Some e \<Rightarrow> Num (mantissa * pow10 e)) else NaN))"

text \<open>\<open>0x\<close>, \<open>0o\<close> and \<open>0b\<close>.\<close>

definition radix_digit :: "code_unit \<Rightarrow> nat" where
  "radix_digit c =
     (let n = unat c
      in if 48 \<le> n \<and> n \<le> 57 then n - 48 else if 97 \<le> n \<and> n \<le> 122 then n - 87
         else if 65 \<le> n \<and> n \<le> 90 then n - 55 else 99)"

definition radix_literal :: "nat \<Rightarrow> jsstr \<Rightarrow> numeric" where
  "radix_literal b ds =
     (if ds = [] \<or> \<not> list_all (\<lambda>c. radix_digit c < b) ds then NaN
      else Num (of_nat (foldl (\<lambda>v c. v * b + radix_digit c) 0 ds)))"

definition radix_of :: "code_unit \<Rightarrow> nat option" where
  "radix_of c =
     (if c = 120 \<or> c = 88 then Some 16 else if c = 111 \<or> c = 79 then Some 8
      else if c = 98 \<or> c = 66 then Some 2 else None)"

definition to_number :: "jsstr \<Rightarrow> numeric" where
  "to_number text =
     (case js_trim text of
        [] \<Rightarrow> Num 0
      | [c] \<Rightarrow> unsigned_decimal [c]
      | c # d # r \<Rightarrow>
          if c = 48 \<and> radix_of d \<noteq> None then radix_literal (the (radix_of d)) r
          else if c = 43 then unsigned_decimal (d # r)
          else if c = 45 then negate (unsigned_decimal (d # r))
          else unsigned_decimal (c # d # r))"

text \<open>\<open>Number(process.env.NAME) || undefined\<close>: an unset variable is \<open>NaN\<close>, and \<open>NaN\<close> and 0 are falsy.\<close>

definition env_number :: "jsstr option \<Rightarrow> numeric option" where
  "env_number env =
     (case env of
        None \<Rightarrow> None
      | Some t \<Rightarrow> (case to_number t of NaN \<Rightarrow> None | Num r \<Rightarrow> if r = 0 then None else Some (Num r) | n \<Rightarrow> Some n))"

text \<open>The integer printed by \<open>String\<close> is read back.\<close>

lemma digits_span:
  assumes "list_all is_digit ds"
  shows "takeWhile is_digit ds = ds" "dropWhile is_digit ds = []"
  using assms by (simp_all add: takeWhile_eq_all_conv list_all_iff)

lemma unsigned_decimal_digits:
  "list_all is_digit ds \<Longrightarrow> ds \<noteq> [] \<Longrightarrow> unsigned_decimal ds = Num (of_nat (digits_val ds))"
proof -
  assume ds: "list_all is_digit ds" "ds \<noteq> []"
  have "\<not> is_digit 73" by (simp add: is_digit_def)
  then have "ds \<noteq> js ''Infinity''" using ds(1) by (auto simp: of_char_Char)
  then show ?thesis
    unfolding unsigned_decimal_def Let_def digits_span[OF ds(1)] using ds(2) by (simp add: pow10_def)
qed

lemma to_number_nonneg: "to_number (dec_digits n) = Num (of_nat n)"
proof -
  have d: "list_all is_digit (dec_digits n)" "dec_digits n \<noteq> []" by (simp_all add: dec_digits_all dec_digits_nonempty)
  have "\<not> is_js_space c" if "is_digit c" for c using that by (rule digit_not_space)
  then have t: "js_trim (dec_digits n) = dec_digits n"
    using d by (simp add: js_trim_def list_all_iff dropWhile_id hd_rev)
  have u: "unsigned_decimal (dec_digits n) = Num (of_nat n)"
    using unsigned_decimal_digits[OF d] by (simp add: digits_val_dec)
  have no: "\<not> is_digit 43" "\<not> is_digit 45" "is_digit c \<Longrightarrow> radix_of c = None" for c
    by (auto simp: is_digit_def radix_of_def)
  show ?thesis
  proof (cases "dec_digits n")
    case (Cons c r)
    then show ?thesis using u d(1) t no by (cases r) (auto simp: to_number_def)
  qed (use d(2) in simp)
qed

end
