(* ===== verification/Cgroup.thy ===== *)
theory Cgroup
  imports Js_Numbers LoadMetrics
begin

text \<open>
  The readers of the cgroup files at the head of \<open>src/api/loadMetrics.js\<close>: \<open>readNumber\<close>, \<open>readCpuUsage\<close> and
  \<open>readCpuLimit\<close> on the text of a file, \<open>None\<close> where \<open>readFileSync\<close> raises; and how their numbers become the
  readings of \<open>LoadMetrics\<close>, where a number that is not finite counts as none.
\<close>

section \<open>Readers\<close>

definition readNumber :: "jsstr option \<Rightarrow> numeric option" where
  "readNumber file = map_option (\<lambda>t. to_number (js_trim t)) file"

text \<open>\<open>split('\n')\<close>.\<close>

fun split_at :: "code_unit \<Rightarrow> jsstr \<Rightarrow> jsstr list" where
  "split_at c [] = [[]]"
| "split_at c (x # xs) = (if x = c then [] # split_at c xs else (x # hd (split_at c xs)) # tl (split_at c xs))"

definition USAGE_KEY :: jsstr where
  "USAGE_KEY = js ''usage_usec ''"

definition readCpuUsage :: "jsstr option \<Rightarrow> numeric option" where
  "readCpuUsage file =
     (case file of
        None \<Rightarrow> None
      | Some t \<Rightarrow> (case List.find (prefix USAGE_KEY) (split_at 10 t) of
            None \<Rightarrow> None
          | Some line \<Rightarrow> if line = [] then None else Some (to_number (drop (length USAGE_KEY) line))))"

text \<open>\<open>trim().split(/\s+/)\<close>: the words of the text; an empty text has one, empty word.\<close>

function split_spaces :: "jsstr \<Rightarrow> jsstr list" where
  "split_spaces s =
     (case dropWhile (\<lambda>c. \<not> is_js_space c) s of
        [] \<Rightarrow> [s]
      | c # r \<Rightarrow> takeWhile (\<lambda>c. \<not> is_js_space c) s # split_spaces (dropWhile is_js_space r))"
  by auto
termination
proof (relation "measure length")
  fix s :: jsstr and c r assume "dropWhile (\<lambda>c. \<not> is_js_space c) s = c # r"
  then have "Suc (length r) \<le> length s" by (metis length_Cons length_dropWhile_le)
  then show "(dropWhile is_js_space r, s) \<in> measure length"
    using length_dropWhile_le[of is_js_space r] by simp
qed simp

declare split_spaces.simps [simp del]

text \<open>\<open>Number(quota) / Number(period)\<close>, where a missing word is \<open>NaN\<close>; a quota or a period that is not
  finite is outside what the kernel writes and gives \<open>NaN\<close> here.\<close>

definition quotient :: "numeric \<Rightarrow> numeric \<Rightarrow> numeric" where
  "quotient a b =
     (case (a, b) of
        (Num x, Num y) \<Rightarrow> if y \<noteq> 0 then Num (x / y) else if x = 0 then NaN else if 0 < x then PosInfinity else NegInfinity
      | _ \<Rightarrow> NaN)"

definition read_cpu_max :: "jsstr option \<Rightarrow> nat \<Rightarrow> numeric" where
  "read_cpu_max file cores =
     (case file of
        None \<Rightarrow> Num (of_nat cores)
      | Some t \<Rightarrow>
          (case split_spaces (js_trim t) of
             [] \<Rightarrow> NaN
           | [quota] \<Rightarrow> if quota = js ''max'' then Num (of_nat cores) else NaN
           | quota # period # rest \<Rightarrow> if quota = js ''max'' then Num (of_nat cores)
               else quotient (to_number quota) (to_number period)))"

section \<open>As readings\<close>

fun finite_number :: "numeric option \<Rightarrow> rat option" where
  "finite_number (Some (Num r)) = Some r"
| "finite_number n = None"

definition with_files :: "jsstr option \<Rightarrow> jsstr option \<Rightarrow> jsstr option \<Rightarrow> readings \<Rightarrow> readings" where
  "with_files cpu_stat memory_current memory_max r =
     r\<lparr>rd_cpuUsage := finite_number (readCpuUsage cpu_stat), rd_memoryCurrent := finite_number (readNumber memory_current),
       rd_memoryMax := finite_number (readNumber memory_max)\<rparr>"

section \<open>What the kernel writes\<close>

definition line_of :: "jsstr \<Rightarrow> nat \<Rightarrow> jsstr" where
  "line_of name n = name @ [32] @ dec_digits n @ [10]"

lemma digits_plain: "c \<in> set (dec_digits n) \<Longrightarrow> is_digit c"
  using dec_digits_all[of n] by (simp add: list_all_iff)

lemma digit_unit: "is_digit c \<Longrightarrow> c \<noteq> 10 \<and> c \<noteq> 32 \<and> \<not> is_js_space c"
  using digit_not_space[of c] by (auto simp: is_js_space_def)

lemma split_at_plain: "c \<notin> set a \<Longrightarrow> split_at c (a @ c # b) = a # split_at c b"
  by (induction a) auto

lemma trim_around:
  assumes "\<forall>c \<in> set b. is_js_space c" "s \<noteq> []" "\<not> is_js_space (hd s)" "\<not> is_js_space (last s)"
  shows "js_trim (s @ b) = s"
proof -
  have "dropWhile is_js_space (s @ b) = s @ b" using assms(2,3) by (cases s) auto
  moreover have "dropWhile is_js_space (rev b @ rev s) = rev s"
    using assms by (subst dropWhile_append2) (auto simp: dropWhile_id hd_rev)
  ultimately show ?thesis by (simp add: js_trim_def)
qed

lemma digits_no_space: "\<forall>c \<in> set (dec_digits n). \<not> is_js_space c"
  using digit_unit digits_plain by blast

lemma trim_digits: "js_trim (dec_digits n @ [10]) = dec_digits n"
  using digits_no_space[of n] by (intro trim_around) (auto simp: is_js_space_def[of 10])

lemma find_first: "\<forall>x \<in> set xs. \<not> P x \<Longrightarrow> P y \<Longrightarrow> List.find P (xs @ y # ys) = Some y"
  by (induction xs) auto

lemma words_of_two:
  assumes a: "\<forall>c \<in> set a. \<not> is_js_space c" and b: "\<forall>c \<in> set b. \<not> is_js_space c" "b \<noteq> []"
  shows "split_spaces (a @ [32] @ b) = [a, b]"
proof -
  have d: "dropWhile (\<lambda>c. \<not> is_js_space c) (a @ 32 # b) = 32 # b" "takeWhile (\<lambda>c. \<not> is_js_space c) (a @ 32 # b) = a"
    using a by (simp_all add: is_js_space_def[of 32])
  have "dropWhile is_js_space b = b" using b by (cases b) auto
  moreover have none: "dropWhile (\<lambda>c. \<not> is_js_space c) b = []" using b(1) by simp
  have "split_spaces b = [b]" by (subst split_spaces.simps) (simp only: none list.case)
  ultimately show ?thesis by (subst split_spaces.simps) (simp add: d)
qed

lemma letters_plain: "\<forall>c \<in> set (js ''max''). \<not> is_js_space c"
  by (simp add: is_js_space_def of_char_Char)

text \<open>
  C34: The readers agree with what the kernel writes. From \<open>cpu.stat\<close> they take the number behind \<open>usage_usec\<close>,
  wherever its line stands among lines of other names; from \<open>cpu.max\<close> the quota over the
  period, and the core count for \<open>max\<close> or for a missing file; from a file of one number that number; a
  \<open>memory.max\<close> of \<open>max\<close> is no number at all.
\<close>

theorem cgroup_files_are_read:
  assumes "\<forall>line \<in> set before. 10 \<notin> set line \<and> \<not> prefix USAGE_KEY line" and "0 < p"
  shows "readCpuUsage (Some (concat (map (\<lambda>l. l @ [10]) before) @ USAGE_KEY @ dec_digits n @ [10] @ after)) = Some (Num (of_nat n))
    \<and> read_cpu_max (Some (dec_digits q @ [32] @ dec_digits p @ [10])) cores = Num (readCpuLimit (Some (Some (of_nat q), of_nat p)) (of_nat cores))
    \<and> read_cpu_max (Some (js ''max'' @ [32] @ dec_digits p @ [10])) cores = Num (readCpuLimit (Some (None, of_nat p)) (of_nat cores))
    \<and> read_cpu_max None cores = Num (readCpuLimit None (of_nat cores))
    \<and> readNumber (Some (dec_digits n @ [10])) = Some (Num (of_nat n))
    \<and> readNumber (Some (js ''max'' @ [10])) = Some NaN \<and> readNumber None = None"
proof -
  have key: "10 \<notin> set (USAGE_KEY @ dec_digits n)" "USAGE_KEY \<noteq> []"
    using digit_unit digits_plain by (auto simp: USAGE_KEY_def of_char_Char)
  have "split_at 10 (concat (map (\<lambda>l. l @ [10]) before) @ rest) = before @ split_at 10 rest" for rest
    using assms(1) by (induction before) (auto simp: split_at_plain)
  then have "List.find (prefix USAGE_KEY) (split_at 10 (concat (map (\<lambda>l. l @ [10]) before) @ USAGE_KEY @ dec_digits n @ [10] @ after))
      = Some (USAGE_KEY @ dec_digits n)"
    using split_at_plain[OF key(1), of after] find_first[of before "prefix USAGE_KEY"] assms(1) by simp
  then have 1: "readCpuUsage (Some (concat (map (\<lambda>l. l @ [10]) before) @ USAGE_KEY @ dec_digits n @ [10] @ after)) = Some (Num (of_nat n))"
    using key(2) by (simp add: readCpuUsage_def to_number_nonneg)
  have trim: "js_trim ((a @ [32] @ dec_digits p) @ [10]) = a @ [32] @ dec_digits p"
    if "a \<noteq> []" "\<forall>c \<in> set a. \<not> is_js_space c" for a
    using that digits_no_space[of p] by (intro trim_around) (auto simp: is_js_space_def[of 10])
  have two: "split_spaces (js_trim (a @ [32] @ dec_digits p @ [10])) = [a, dec_digits p]"
    if "a \<noteq> []" "\<forall>c \<in> set a. \<not> is_js_space c" for a
    using trim[OF that] words_of_two[OF that(2) digits_no_space[of p]] by simp
  have "dec_digits q \<noteq> js ''max''" using digits_plain[of 109 q] by (auto simp: is_digit_def of_char_Char)
  then have 2: "read_cpu_max (Some (dec_digits q @ [32] @ dec_digits p @ [10])) cores = Num (of_nat q / of_nat p)"
    unfolding read_cpu_max_def option.case two[OF dec_digits_nonempty digits_no_space] using assms(2)
    by (simp add: to_number_nonneg quotient_def del: js_Cons)
  have ne: "js ''max'' \<noteq> []" by simp
  have 3: "read_cpu_max (Some (js ''max'' @ [32] @ dec_digits p @ [10])) cores = Num (of_nat cores)"
    unfolding read_cpu_max_def option.case two[OF ne letters_plain] by simp
  have 4: "readNumber (Some (js ''max'' @ [10])) = Some NaN"
    by (simp add: readNumber_def js_trim_def is_js_space_def of_char_Char to_number_def unsigned_decimal_def is_digit_def radix_of_def)
  show ?thesis using 1 2 3 4 by (simp add: readNumber_def trim_digits to_number_nonneg read_cpu_max_def readCpuLimit_def)
qed

theorem cgroup_files_are_read_witness:
  "readCpuUsage (Some (js ''nr_periods 7'' @ [10] @ js ''usage_usec '' @ dec_digits 250 @ [10] @ js ''user_usec 9'')) = Some (Num 250)
   \<and> read_cpu_max (Some (dec_digits 50000 @ [32] @ dec_digits 100000 @ [10])) 4 = Num (1 / 2)"
proof -
  have "\<forall>line \<in> set [js ''nr_periods 7'']. 10 \<notin> set line \<and> \<not> prefix USAGE_KEY line"
    by (simp add: USAGE_KEY_def of_char_Char)
  from cgroup_files_are_read[OF this, of 100000 250 "js ''user_usec 9''" 50000 4]
  show ?thesis unfolding USAGE_KEY_def by (simp add: readCpuLimit_def del: js_Cons)
qed

end
