(* ===== verification/SocketHandlers.thy ===== *)
theory SocketHandlers
  imports Signatures Cipher Messages Validation RateLimiter Presence
begin

text \<open>
  \<open>src/socketHandlers.js\<close>. The state is what the handlers of one server share: the \<open>data\<close> of each
  socket, the presence, the rate limiter, what has been emitted, and the handlers that wait for
  an answer. Each handler is split at its \<open>await\<close>s; the value it waits for is an argument of the
  part that follows, so that any interleaving of handlers is a sequence of these functions.
  \<open>safeHandler\<close> turns an exception into a \<open>server-error\<close> to the socket.
\<close>

section \<open>Data\<close>

definition CHAT_ROOM_ID :: jsstr where
  "CHAT_ROOM_ID = js ''main''"

definition CHALLENGE_TTL_MS :: int where
  "CHALLENGE_TTL_MS = 30000"

record stored_form =
  sf_ciphertext :: "jsstr option"
  sf_nonce :: "jsstr option"
  sf_signature :: "jsstr option"
  sf_clientTimestamp :: "number option"

definition storedForm ::
  "byte list option \<Rightarrow> byte list option \<Rightarrow> byte list option \<Rightarrow> number option \<Rightarrow> stored_form" where
  "storedForm ciphertext nonce signature clientTimestamp =
     \<lparr>sf_ciphertext = map_option to_base64 ciphertext, sf_nonce = map_option to_base64 nonce,
      sf_signature = map_option to_base64 signature, sf_clientTimestamp = clientTimestamp\<rparr>"

datatype verdict = Valid | Invalid | Unsigned | Unknown

text \<open>One entry of \<open>chat-history\<close>; \<open>hi_text = None\<close> goes with \<open>integrity: 'failed'\<close>.\<close>

record history_item =
  hi_id :: jsstr
  hi_username :: jsstr
  hi_timestamp :: millis
  hi_senderPublicKey :: "jsstr option"
  hi_stored :: stored_form
  hi_text :: "jsstr option"
  hi_signature :: verdict

record chat_broadcast =
  cb_id :: jsstr
  cb_username :: jsstr
  cb_text :: jsstr
  cb_timestamp :: millis
  cb_senderPublicKey :: jsstr
  cb_stored :: stored_form

datatype join_reason =
    BadUsername username_reason | NoSigningKey | KeyMismatch | NoLoginInProgress | LoginTimedOut
  | NotProved | NameTaken

datatype message_refusal = NotJoined | TooFast | NotSigned | BadText message_reason | ClockSkew | BadSignature

datatype server_event =
    JoinError join_reason
  | AuthChallenge jsstr
  | JoinSuccess jsstr
  | ChatHistory "history_item list"
  | ServerError
  | UserJoined jsstr millis
  | OnlineUsers "jsstr list"
  | MessageError message_refusal
  | ChatMessage chat_broadcast
  | UserTyping jsstr bool
  | UserLeft jsstr millis

text \<open>\<open>socket.emit\<close>, \<open>socket.broadcast.emit\<close> and \<open>io.emit\<close>.\<close>

datatype emission = ToSocket jsstr server_event | ToOthers jsstr server_event | ToAll server_event

record pending_auth =
  pa_username :: jsstr
  pa_publicKey :: jsstr
  pa_challenge :: jsstr
  pa_expiresAt :: millis

record socket_data =
  sd_username :: "jsstr option"
  sd_publicKey :: "jsstr option"
  sd_pendingAuth :: "pending_auth option"

definition new_socket :: socket_data where
  "new_socket = \<lparr>sd_username = None, sd_publicKey = None, sd_pendingAuth = None\<rparr>"

text \<open>A message that is being checked or saved.\<close>

record draft =
  dr_username :: jsstr
  dr_clientTimestamp :: number
  dr_text :: jsstr
  dr_signatureB64 :: jsstr
  dr_publicKey :: jsstr

datatype waiting =
    FindSender jsstr jsstr
  | VerifyLogin pending_auth jsstr
  | RegisterSender pending_auth
  | ReadHistory pending_auth
  | VerifyMessage draft
  | SaveMessage draft millis sealed

record chat =
  ch_sockets :: "jsstr \<Rightarrow> socket_data"
  ch_presence :: presence
  ch_limiter :: hits
  ch_waiting :: "(jsstr \<times> waiting) list"
  ch_out :: "emission list"

definition new_chat :: chat where
  "new_chat = \<lparr>ch_sockets = (\<lambda>_. new_socket), ch_presence = new_Presence, ch_limiter = [],
     ch_waiting = [], ch_out = []\<rparr>"

definition emit :: "emission list \<Rightarrow> chat \<Rightarrow> chat" where
  "emit es s = s\<lparr>ch_out := ch_out s @ es\<rparr>"

definition await :: "jsstr \<Rightarrow> waiting \<Rightarrow> chat \<Rightarrow> chat" where
  "await sid w s = s\<lparr>ch_waiting := ch_waiting s @ [(sid, w)]\<rparr>"

definition set_data :: "jsstr \<Rightarrow> socket_data \<Rightarrow> chat \<Rightarrow> chat" where
  "set_data sid d s = s\<lparr>ch_sockets := (ch_sockets s)(sid := d)\<rparr>"

definition logged_in :: "jsstr \<Rightarrow> chat \<Rightarrow> bool" where
  "logged_in sid s = (case sd_username (ch_sockets s sid) of None \<Rightarrow> False | Some u \<Rightarrow> u \<noteq> [])"

text \<open>\<open>rawPayload && typeof rawPayload.name === 'string' ? rawPayload.name : null\<close>.\<close>

definition string_field :: "jsval \<Rightarrow> jsstr \<Rightarrow> jsstr option" where
  "string_field raw name = (case get_field raw name of String s \<Rightarrow> Some s | _ \<Rightarrow> None)"

section \<open>auth-start\<close>

definition auth_start :: "jsstr \<Rightarrow> jsval \<Rightarrow> chat \<Rightarrow> chat" where
  "auth_start sid raw s =
     (if logged_in sid s then s
      else (case validateUsername (if is_object raw then get_field raw (js ''username'') else Null) of
          Inl e \<Rightarrow> emit [ToSocket sid ServerError] s
        | Inr (Inl reason) \<Rightarrow> emit [ToSocket sid (JoinError (BadUsername reason))] s
        | Inr (Inr username) \<Rightarrow>
            (case string_field raw (js ''publicKey'') of
               Some (c # cs) \<Rightarrow> await sid (FindSender username (c # cs)) s
             | _ \<Rightarrow> emit [ToSocket sid (JoinError NoSigningKey)] s)))"

text \<open>\<open>existing\<close> is what \<open>findSender\<close> returned; \<open>None\<close> outside is a database error.\<close>

definition sender_found ::
  "jsstr \<Rightarrow> jsstr \<Rightarrow> jsstr \<Rightarrow> sender option option \<Rightarrow> byte list \<Rightarrow> millis \<Rightarrow> chat \<Rightarrow> chat" where
  "sender_found sid username publicKey existing random now s =
     (case existing of
        None \<Rightarrow> emit [ToSocket sid ServerError] s
      | Some found \<Rightarrow>
          if (case found of None \<Rightarrow> False | Some e \<Rightarrow> s_publicKey e \<noteq> publicKey)
          then emit [ToSocket sid (JoinError KeyMismatch)] s
          else
            let challenge = createChallenge random;
                pending = \<lparr>pa_username = username, pa_publicKey = publicKey, pa_challenge = challenge,
                           pa_expiresAt = now + CHALLENGE_TTL_MS\<rparr>
            in emit [ToSocket sid (AuthChallenge challenge)]
                 (set_data sid ((ch_sockets s sid)\<lparr>sd_pendingAuth := Some pending\<rparr>) s))"

section \<open>auth-response\<close>

definition auth_response :: "jsstr \<Rightarrow> jsval \<Rightarrow> millis \<Rightarrow> chat \<Rightarrow> chat" where
  "auth_response sid raw now s =
     (if logged_in sid s then s
      else (case sd_pendingAuth (ch_sockets s sid) of
          None \<Rightarrow> emit [ToSocket sid (JoinError NoLoginInProgress)] s
        | Some pending \<Rightarrow>
            let s1 = set_data sid ((ch_sockets s sid)\<lparr>sd_pendingAuth := None\<rparr>) s
            in if pa_expiresAt pending < now then emit [ToSocket sid (JoinError LoginTimedOut)] s1
               else (case string_field raw (js ''signature'') of
                   None \<Rightarrow> emit [ToSocket sid (JoinError NotProved)] s1
                 | Some signature \<Rightarrow> await sid (VerifyLogin pending signature) s1)))"

definition login_verified :: "jsstr \<Rightarrow> pending_auth \<Rightarrow> bool \<Rightarrow> millis \<Rightarrow> chat \<Rightarrow> chat" where
  "login_verified sid pending proved now s =
     (if \<not> proved then emit [ToSocket sid (JoinError NotProved)] s
      else
        let (ok, p) = admit now sid (pa_username pending) (ch_presence s);
            s1 = s\<lparr>ch_presence := p\<rparr>
        in if \<not> ok then emit [ToSocket sid (JoinError NameTaken)] s1
           else await sid (RegisterSender pending)
                  (set_data sid ((ch_sockets s1 sid)\<lparr>sd_username := Some (pa_username pending),
                                                     sd_publicKey := Some (pa_publicKey pending)\<rparr>) s1))"

definition sender_registered :: "jsstr \<Rightarrow> pending_auth \<Rightarrow> bool \<Rightarrow> chat \<Rightarrow> chat" where
  "sender_registered sid pending ok s =
     (if ok then await sid (ReadHistory pending) (emit [ToSocket sid (JoinSuccess (pa_username pending))] s)
      else emit [ToSocket sid ServerError] s)"

definition history_read :: "jsstr \<Rightarrow> pending_auth \<Rightarrow> history_item list option \<Rightarrow> millis \<Rightarrow> chat \<Rightarrow> chat" where
  "history_read sid pending items now s =
     emit ((case items of
              None \<Rightarrow> [ToSocket sid (ChatHistory []), ToSocket sid ServerError]
            | Some is \<Rightarrow> [ToSocket sid (ChatHistory is)]) @
           [ToOthers sid (UserJoined (pa_username pending) now), ToAll (OnlineUsers (list_users (ch_presence s)))]) s"

section \<open>History\<close>

definition verifyStoredSignature :: "'k ecdsa \<Rightarrow> stored_message \<Rightarrow> millis \<Rightarrow> jsstr \<Rightarrow> verdict" where
  "verifyStoredSignature ec message timestamp t =
     (case (sm_signature message, sm_senderPublicKey message) of
        (Some sig, Some pk) \<Rightarrow>
          if verifySignature ec (sm_senderId message)
               (case sm_clientTimestamp message of None \<Rightarrow> int_number timestamp | Some n \<Rightarrow> n)
               t (to_base64 sig) (to_base64 pk)
          then Valid else Invalid
      | _ \<Rightarrow> Unsigned)"

text \<open>A stored message without a timestamp makes \<open>getTime\<close> raise, which fails the whole history.\<close>

definition history_item_of ::
  "'k ecdsa \<Rightarrow> gcm \<Rightarrow> byte list \<Rightarrow> stored_message \<Rightarrow> js_error + history_item" where
  "history_item_of ec g key message =
     (case sm_timestamp message of
        None \<Rightarrow> Inl TypeError
      | Some timestamp \<Rightarrow>
          let common = \<lparr>hi_id = sm_id message, hi_username = sm_senderId message, hi_timestamp = timestamp,
                        hi_senderPublicKey = map_option to_base64 (sm_senderPublicKey message),
                        hi_stored = storedForm (sm_ciphertext message) (sm_nonce message)
                                      (sm_signature message) (sm_clientTimestamp message),
                        hi_text = None, hi_signature = Unknown\<rparr>
          in Inr (case decrypt g key (sm_ciphertext message) (sm_nonce message) of
                Inl e \<Rightarrow> common
              | Inr t \<Rightarrow> common\<lparr>hi_text := Some t,
                                hi_signature := verifyStoredSignature ec message timestamp t\<rparr>))"

fun loadHistory :: "'k ecdsa \<Rightarrow> gcm \<Rightarrow> byte list \<Rightarrow> stored_message list \<Rightarrow> js_error + history_item list" where
  "loadHistory ec g key [] = Inr []"
| "loadHistory ec g key (m # ms) =
     (case history_item_of ec g key m of
        Inl e \<Rightarrow> Inl e
      | Inr i \<Rightarrow> map_sum (\<lambda>e. e) ((#) i) (loadHistory ec g key ms))"

section \<open>chat-message\<close>

definition chat_message :: "jsstr \<Rightarrow> jsval \<Rightarrow> millis \<Rightarrow> chat \<Rightarrow> chat" where
  "chat_message sid raw now s =
     (case sd_username (ch_sockets s sid) of
        None \<Rightarrow> emit [ToSocket sid (MessageError NotJoined)] s
      | Some username \<Rightarrow>
          if username = [] then emit [ToSocket sid (MessageError NotJoined)] s
          else
            let (allowed, h) = allow now sid (ch_limiter s);
                s1 = s\<lparr>ch_limiter := h\<rparr>;
                refuse = (\<lambda>r. emit [ToSocket sid (MessageError r)] s1)
            in if \<not> allowed then refuse TooFast
               else if \<not> is_object raw then refuse NotSigned
               else (case validateMessage (get_field raw (js ''text'')) of
                   Inl reason \<Rightarrow> refuse (BadText reason)
                 | Inr t \<Rightarrow>
                     (case (sd_publicKey (ch_sockets s sid), string_field raw (js ''signature''),
                            get_field raw (js ''timestamp'')) of
                        (Some (k # ks), Some (c # cs), Number n) \<Rightarrow>
                          if \<not> isTimestampFresh now n then refuse ClockSkew
                          else await sid (VerifyMessage \<lparr>dr_username = username, dr_clientTimestamp = n,
                                  dr_text = t, dr_signatureB64 = c # cs, dr_publicKey = k # ks\<rparr>) s1
                      | _ \<Rightarrow> refuse NotSigned)))"

definition message_verified ::
  "gcm \<Rightarrow> byte list \<Rightarrow> jsstr \<Rightarrow> draft \<Rightarrow> bool \<Rightarrow> byte list \<Rightarrow> millis \<Rightarrow> chat \<Rightarrow> chat" where
  "message_verified g key sid d valid nonce now s =
     (if \<not> valid then emit [ToSocket sid (MessageError BadSignature)] s
      else await sid (SaveMessage d now (encrypt g key nonce (dr_text d))) s)"

text \<open>What \<open>saveMessage\<close> is given, and what is sent out once it has returned an id.\<close>

definition draft_args :: "draft \<Rightarrow> millis \<Rightarrow> sealed \<Rightarrow> save_args" where
  "draft_args d now sealed =
     \<lparr>sa_roomId = CHAT_ROOM_ID, sa_senderId = dr_username d, sa_msgId = None,
      sa_ciphertext = sl_ciphertext sealed, sa_nonce = Some (sl_nonce sealed),
      sa_signature = Some (from_base64 (dr_signatureB64 d)),
      sa_senderPublicKey = Some (from_base64 (dr_publicKey d)),
      sa_timestamp = Some now, sa_clientTimestamp = Some (dr_clientTimestamp d)\<rparr>"

definition message_saved :: "jsstr \<Rightarrow> draft \<Rightarrow> millis \<Rightarrow> sealed \<Rightarrow> jsstr option \<Rightarrow> chat \<Rightarrow> chat" where
  "message_saved sid d now sealed msgId s =
     (case msgId of
        None \<Rightarrow> emit [ToSocket sid ServerError] s
      | Some i \<Rightarrow>
          emit [ToAll (ChatMessage \<lparr>cb_id = i, cb_username = dr_username d, cb_text = dr_text d, cb_timestamp = now,
            cb_senderPublicKey = dr_publicKey d,
            cb_stored = storedForm (Some (sl_ciphertext sealed)) (Some (sl_nonce sealed))
                          (Some (from_base64 (dr_signatureB64 d))) (Some (dr_clientTimestamp d))\<rparr>)] s)"

section \<open>typing and disconnect\<close>

fun truthy :: "jsval \<Rightarrow> bool" where
  "truthy Undefined = False"
| "truthy Null = False"
| "truthy (Bool b) = b"
| "truthy (Number (Finite r t)) = (r \<noteq> 0)"
| "truthy (Number (NotFinite t)) = (t \<noteq> js ''NaN'')"
| "truthy (String s) = (s \<noteq> [])"
| "truthy (Array vs) = True"
| "truthy (Object kvs) = True"

definition typing :: "jsstr \<Rightarrow> jsval \<Rightarrow> chat \<Rightarrow> chat" where
  "typing sid isTyping s =
     (if logged_in sid s
      then emit [ToOthers sid (UserTyping (the (sd_username (ch_sockets s sid))) (truthy isTyping))] s
      else s)"

definition disconnect :: "jsstr \<Rightarrow> millis \<Rightarrow> chat \<Rightarrow> chat" where
  "disconnect sid now s =
     (let (username, p) = Presence.remove now sid (ch_presence s);
          s1 = s\<lparr>ch_presence := p, ch_limiter := clear sid (ch_limiter s)\<rparr>
      in (case username of
            None \<Rightarrow> s1
          | Some u \<Rightarrow> if u = [] then s1
              else emit [ToOthers sid (UserLeft u now), ToAll (OnlineUsers (list_users p))] s1))"

section \<open>Interleavings\<close>

text \<open>What a waiting handler is answered: the database's answer or the random bytes and time that the
  rest of the handler uses. The results of the two verifications are not free: they are computed.\<close>

datatype answer =
    SenderAnswer "sender option option" "byte list" millis
  | Checked "byte list" millis
  | Stored bool
  | History "history_item list option" millis
  | Saved "jsstr option"

fun resume :: "'k ecdsa \<Rightarrow> gcm \<Rightarrow> byte list \<Rightarrow> jsstr \<Rightarrow> waiting \<Rightarrow> answer \<Rightarrow> chat \<Rightarrow> chat" where
  "resume ec g key sid (FindSender username publicKey) (SenderAnswer existing random now) s =
     sender_found sid username publicKey existing random now s"
| "resume ec g key sid (VerifyLogin pending signature) (Checked nonce now) s =
     login_verified sid pending
       (verifyBytes ec (from_base64 (pa_challenge pending)) signature (pa_publicKey pending)) now s"
| "resume ec g key sid (RegisterSender pending) (Stored ok) s = sender_registered sid pending ok s"
| "resume ec g key sid (ReadHistory pending) (History items now) s = history_read sid pending items now s"
| "resume ec g key sid (VerifyMessage d) (Checked nonce now) s =
     message_verified g key sid d
       (verifySignature ec (dr_username d) (dr_clientTimestamp d) (dr_text d) (dr_signatureB64 d) (dr_publicKey d))
       nonce now s"
| "resume ec g key sid (SaveMessage d now sealed) (Saved msgId) s = message_saved sid d now sealed msgId s"
| "resume ec g key sid w a s = await sid w s"

datatype chat_event =
    EAuthStart jsstr jsval
  | EAuthResponse jsstr jsval millis
  | EChatMessage jsstr jsval millis
  | ETyping jsstr jsval
  | EDisconnect jsstr millis
  | EAnswer nat answer

fun chat_apply :: "'k ecdsa \<Rightarrow> gcm \<Rightarrow> byte list \<Rightarrow> chat \<Rightarrow> chat_event \<Rightarrow> chat" where
  "chat_apply ec g key s (EAuthStart sid raw) = auth_start sid raw s"
| "chat_apply ec g key s (EAuthResponse sid raw now) = auth_response sid raw now s"
| "chat_apply ec g key s (EChatMessage sid raw now) = chat_message sid raw now s"
| "chat_apply ec g key s (ETyping sid raw) = typing sid raw s"
| "chat_apply ec g key s (EDisconnect sid now) = disconnect sid now s"
| "chat_apply ec g key s (EAnswer i a) =
     (if length (ch_waiting s) \<le> i then s
      else (case ch_waiting s ! i of
          (sid, w) \<Rightarrow> resume ec g key sid w a
                        (s\<lparr>ch_waiting := take i (ch_waiting s) @ drop (Suc i) (ch_waiting s)\<rparr>)))"

section \<open>Invariants\<close>

text \<open>The holder of this public key has signed a challenge that this server sent to a socket.\<close>

definition key_proved :: "'k ecdsa \<Rightarrow> ('k \<Rightarrow> byte list \<Rightarrow> bool) \<Rightarrow> emission list \<Rightarrow> jsstr \<Rightarrow> bool" where
  "key_proved ec attested out pk \<longleftrightarrow> (\<exists>k sid challenge. importKey ec (from_base64 pk) = Some k
     \<and> ToSocket sid (AuthChallenge challenge) \<in> set out \<and> attested k (from_base64 challenge))"

definition message_signed :: "'k ecdsa \<Rightarrow> ('k \<Rightarrow> byte list \<Rightarrow> bool) \<Rightarrow> jsstr \<Rightarrow> number \<Rightarrow> jsstr \<Rightarrow> jsstr \<Rightarrow> bool" where
  "message_signed ec attested pk n u t \<longleftrightarrow> (\<exists>k. importKey ec (from_base64 pk) = Some k
     \<and> attested k (buildCanonicalBytes u n t))"

definition good_name :: "jsstr \<Rightarrow> bool" where
  "good_name u \<longleftrightarrow> js_trim u = u \<and> matches_USERNAME_PATTERN u"

fun good_waiting :: "'k ecdsa \<Rightarrow> ('k \<Rightarrow> byte list \<Rightarrow> bool) \<Rightarrow> emission list \<Rightarrow> jsstr \<Rightarrow> waiting \<Rightarrow> bool" where
  "good_waiting ec attested out sid (FindSender u pk) = good_name u"
| "good_waiting ec attested out sid (VerifyLogin p sig) =
     (good_name (pa_username p) \<and> ToSocket sid (AuthChallenge (pa_challenge p)) \<in> set out)"
| "good_waiting ec attested out sid (VerifyMessage d) = (good_name (dr_username d) \<and> key_proved ec attested out (dr_publicKey d))"
| "good_waiting ec attested out sid (SaveMessage d now sealed) =
     (good_name (dr_username d) \<and> key_proved ec attested out (dr_publicKey d)
      \<and> message_signed ec attested (dr_publicKey d) (dr_clientTimestamp d) (dr_username d) (dr_text d))"
| "good_waiting ec attested out sid w = True"

fun good_emission :: "'k ecdsa \<Rightarrow> ('k \<Rightarrow> byte list \<Rightarrow> bool) \<Rightarrow> emission list \<Rightarrow> emission \<Rightarrow> bool" where
  "good_emission ec attested out (ToAll (ChatMessage cb)) =
     (\<exists>n. sf_clientTimestamp (cb_stored cb) = Some n \<and> good_name (cb_username cb)
        \<and> key_proved ec attested out (cb_senderPublicKey cb)
        \<and> message_signed ec attested (cb_senderPublicKey cb) n (cb_username cb) (cb_text cb))"
| "good_emission ec attested out e = True"

definition good_socket :: "'k ecdsa \<Rightarrow> ('k \<Rightarrow> byte list \<Rightarrow> bool) \<Rightarrow> emission list \<Rightarrow> jsstr \<Rightarrow> socket_data \<Rightarrow> bool" where
  "good_socket ec attested out sid d \<longleftrightarrow>
     (\<forall>p. sd_pendingAuth d = Some p \<longrightarrow> good_name (pa_username p) \<and> ToSocket sid (AuthChallenge (pa_challenge p)) \<in> set out)
     \<and> (\<forall>u. sd_username d = Some u \<longrightarrow> good_name u \<and> (\<exists>pk. sd_publicKey d = Some pk \<and> key_proved ec attested out pk))"

definition chat_inv :: "'k ecdsa \<Rightarrow> ('k \<Rightarrow> byte list \<Rightarrow> bool) \<Rightarrow> chat \<Rightarrow> bool" where
  "chat_inv ec attested s \<longleftrightarrow>
     (\<forall>sid. good_socket ec attested (ch_out s) sid (ch_sockets s sid))
     \<and> (\<forall>(sid, w) \<in> set (ch_waiting s). good_waiting ec attested (ch_out s) sid w)
     \<and> (\<forall>e \<in> set (ch_out s). good_emission ec attested (ch_out s) e)
     \<and> presence_inv (ch_presence s)
     \<and> (\<forall>sid u. Presence.get sid (ch_presence s) = Some u \<longrightarrow> sd_username (ch_sockets s sid) = Some u)"

lemma key_proved_mono: "key_proved ec att out pk \<Longrightarrow> key_proved ec att (out @ es) pk"
  by (auto simp: key_proved_def)

lemma good_waiting_mono: "good_waiting ec att out sid w \<Longrightarrow> good_waiting ec att (out @ es) sid w"
  by (cases w) (auto simp: key_proved_mono)

lemma good_emission_mono: "good_emission ec att out e \<Longrightarrow> good_emission ec att (out @ es) e"
  by (induction ec att out e rule: good_emission.induct) (auto simp: key_proved_mono)

lemma good_socket_mono: "good_socket ec att out sid d \<Longrightarrow> good_socket ec att (out @ es) sid d"
  by (auto simp: good_socket_def key_proved_mono)

lemma emit_inv:
  "chat_inv ec att s \<Longrightarrow> (\<And>e. e \<in> set es \<Longrightarrow> good_emission ec att (ch_out s @ es) e) \<Longrightarrow> chat_inv ec att (emit es s)"
  by (auto simp: chat_inv_def emit_def good_waiting_mono good_emission_mono good_socket_mono)

lemma emit_plain_inv:
  "chat_inv ec att s \<Longrightarrow> (\<And>e out. e \<in> set es \<Longrightarrow> good_emission ec att out e) \<Longrightarrow> chat_inv ec att (emit es s)"
  by (rule emit_inv)

lemma await_inv:
  "chat_inv ec att s \<Longrightarrow> good_waiting ec att (ch_out s) sid w \<Longrightarrow> chat_inv ec att (await sid w s)"
  by (auto simp: chat_inv_def await_def)

lemma unwait_inv:
  "chat_inv ec att s \<Longrightarrow> chat_inv ec att (s\<lparr>ch_waiting := take i (ch_waiting s) @ drop (Suc i) (ch_waiting s)\<rparr>)"
  by (auto simp: chat_inv_def dest: in_set_takeD in_set_dropD)

lemma limiter_inv [simp]: "chat_inv ec att (s\<lparr>ch_limiter := h\<rparr>) = chat_inv ec att s"
  by (simp add: chat_inv_def)

lemma new_chat_inv: "chat_inv ec att new_chat"
  using new_inv by (simp add: chat_inv_def new_chat_def good_socket_def new_socket_def Presence.get_def new_Presence_def)

lemma good_name_valid: "validateUsername raw = Inr (Inr u) \<Longrightarrow> good_name u"
  using validateUsername_Inr by (simp add: good_name_def)

lemma good_name_nonempty: "good_name u \<Longrightarrow> u \<noteq> []"
  by (auto simp: good_name_def matches_USERNAME_PATTERN_def)

lemma auth_start_inv: "chat_inv ec att s \<Longrightarrow> chat_inv ec att (auth_start sid raw s)"
  by (auto simp: auth_start_def intro!: emit_plain_inv await_inv dest: good_name_valid
      split: sum.splits option.splits list.splits)

lemma logged_in_facts:
  "chat_inv ec att s \<Longrightarrow> sd_username (ch_sockets s sid) = Some u \<Longrightarrow> sd_publicKey (ch_sockets s sid) = Some pk \<Longrightarrow>
   good_name u \<and> key_proved ec att (ch_out s) pk"
  by (fastforce simp: chat_inv_def good_socket_def)

lemma chat_message_inv: "chat_inv ec att s \<Longrightarrow> chat_inv ec att (chat_message sid raw now s)"
  by (auto simp: chat_message_def Let_def case_prod_beta' intro!: emit_plain_inv await_inv
      dest: logged_in_facts split: sum.splits option.splits list.splits jsval.splits)

text \<open>Replacing a socket's data by data that is good keeps the invariant.\<close>

lemma set_data_inv:
  assumes "chat_inv ec att s" and "good_socket ec att (ch_out s) sid d"
    and "\<And>u. Presence.get sid (ch_presence s) = Some u \<Longrightarrow> sd_username d = Some u"
  shows "chat_inv ec att (set_data sid d s)"
  using assms by (auto simp: chat_inv_def set_data_def)

lemma sender_found_inv:
  assumes inv: "chat_inv ec att s" and u: "good_name u"
  shows "chat_inv ec att (sender_found sid u pk existing random now s)"
proof -
  let ?p = "\<lparr>pa_username = u, pa_publicKey = pk, pa_challenge = createChallenge random,
      pa_expiresAt = now + CHALLENGE_TTL_MS\<rparr>"
  let ?e = "ToSocket sid (AuthChallenge (createChallenge random))"
  have "chat_inv ec att (emit [?e] s)" by (rule emit_plain_inv[OF inv]) auto
  moreover have "good_socket ec att (ch_out (emit [?e] s)) sid ((ch_sockets s sid)\<lparr>sd_pendingAuth := Some ?p\<rparr>)"
    using inv u good_socket_mono[of ec att "ch_out s" sid "ch_sockets s sid" "[?e]"]
    by (auto simp: chat_inv_def good_socket_def emit_def)
  ultimately have "chat_inv ec att (set_data sid ((ch_sockets s sid)\<lparr>sd_pendingAuth := Some ?p\<rparr>) (emit [?e] s))"
    by (rule set_data_inv) (use inv in \<open>auto simp: chat_inv_def emit_def\<close>)
  moreover have "set_data sid d (emit es s) = emit es (set_data sid d s)" for d es
    by (simp add: set_data_def emit_def)
  ultimately show ?thesis
    using inv by (auto simp: sender_found_def Let_def intro!: emit_plain_inv split: option.splits)
qed

lemma auth_response_inv:
  assumes inv: "chat_inv ec att s"
  shows "chat_inv ec att (auth_response sid raw now s)"
proof (cases "logged_in sid s \<or> sd_pendingAuth (ch_sockets s sid) = None")
  case True
  then show ?thesis using inv by (auto simp: auth_response_def intro!: emit_plain_inv)
next
  case False
  then obtain p where p: "sd_pendingAuth (ch_sockets s sid) = Some p" by auto
  let ?s1 = "set_data sid ((ch_sockets s sid)\<lparr>sd_pendingAuth := None\<rparr>) s"
  have g: "good_socket ec att (ch_out s) sid (ch_sockets s sid)" using inv by (simp add: chat_inv_def)
  have "chat_inv ec att ?s1"
    by (rule set_data_inv[OF inv]) (use g inv in \<open>auto simp: good_socket_def chat_inv_def\<close>)
  moreover have "good_waiting ec att (ch_out ?s1) sid (VerifyLogin p sig)" for sig
    using g p by (simp add: good_socket_def set_data_def)
  ultimately show ?thesis using False p
    by (auto simp: auth_response_def Let_def intro!: emit_plain_inv await_inv split: option.splits)
qed

lemma verified_key_proved:
  assumes "ecdsa_law ec att" and "verifyBytes ec (from_base64 ch) sig pk" and "ToSocket sid (AuthChallenge ch) \<in> set out"
  shows "key_proved ec att out pk"
  using verifyBytes_signed[OF assms(1,2)] assms(3) by (auto simp: key_proved_def)

lemma login_verified_inv:
  assumes law: "ecdsa_law ec att" and inv: "chat_inv ec att s" and w: "good_waiting ec att (ch_out s) sid (VerifyLogin p sig)"
  shows "chat_inv ec att (login_verified sid p (verifyBytes ec (from_base64 (pa_challenge p)) sig (pa_publicKey p)) now s)"
proof (cases "verifyBytes ec (from_base64 (pa_challenge p)) sig (pa_publicKey p)")
  case False
  then show ?thesis using inv by (auto simp: login_verified_def intro!: emit_plain_inv)
next
  case True
  let ?u = "pa_username p" and ?pk = "pa_publicKey p"
  have u: "good_name ?u" and ch: "ToSocket sid (AuthChallenge (pa_challenge p)) \<in> set (ch_out s)" using w by auto
  have trimmed: "js_trim ?u = ?u" "?u \<noteq> []" using u good_name_nonempty by (auto simp: good_name_def)
  have pinv: "presence_inv (ch_presence s)" using inv by (simp add: chat_inv_def)
  have key: "key_proved ec att (ch_out s) ?pk" by (rule verified_key_proved[OF law True ch])
  show ?thesis
  proof (cases "isUsernameTaken ?u (ch_presence s)")
    case taken: True
    then show ?thesis using True inv admit_taken[OF pinv trimmed, of now sid]
      by (auto simp: login_verified_def intro!: emit_plain_inv)
  next
    case False
    let ?p = "add sid ?u (ch_presence s)"
    let ?d = "(ch_sockets s sid)\<lparr>sd_username := Some ?u, sd_publicKey := Some ?pk\<rparr>"
    have "good_socket ec att (ch_out s) sid ?d"
      using inv key u by (auto simp: chat_inv_def good_socket_def)
    then have "chat_inv ec att (set_data sid ?d (s\<lparr>ch_presence := ?p\<rparr>))"
      using inv add_inv[OF pinv trimmed False, of sid]
      by (auto simp: chat_inv_def set_data_def Presence.get_def add_def)
    then show ?thesis
      using True False admit_taken[OF pinv trimmed, of now sid]
      by (auto simp: login_verified_def Let_def intro!: await_inv)
  qed
qed

lemma disconnect_inv:
  assumes inv: "chat_inv ec att s"
  shows "chat_inv ec att (disconnect sid now s)"
proof -
  obtain u p where r: "Presence.remove now sid (ch_presence s) = (u, p)" by fastforce
  have "presence_inv p" using logout_inv[of "ch_presence s" now sid] inv r by (simp add: chat_inv_def)
  moreover have "Presence.get j p = Some v \<Longrightarrow> Presence.get j (ch_presence s) = Some v" for j v
    using r by (auto simp: Presence.remove_def Presence.get_def markDisconnected_def Let_def
        split: option.splits if_splits)
  ultimately have "chat_inv ec att (s\<lparr>ch_presence := p, ch_limiter := clear sid (ch_limiter s)\<rparr>)"
    using inv by (auto simp: chat_inv_def)
  then show ?thesis using r by (auto simp: disconnect_def Let_def intro!: emit_plain_inv split: option.splits)
qed

lemma resume_inv:
  assumes law: "ecdsa_law ec att" and inv: "chat_inv ec att s" and w: "good_waiting ec att (ch_out s) sid w"
  shows "chat_inv ec att (resume ec g key sid w a s)"
proof -
  consider u pk ex r now where "w = FindSender u pk" "a = SenderAnswer ex r now"
    | p sig n now where "w = VerifyLogin p sig" "a = Checked n now"
    | p ok where "w = RegisterSender p" "a = Stored ok"
    | p items now where "w = ReadHistory p" "a = History items now"
    | d n now where "w = VerifyMessage d" "a = Checked n now"
    | d now sl i where "w = SaveMessage d now sl" "a = Saved i"
    | "resume ec g key sid w a s = await sid w s"
    by (cases w; cases a) auto
  then show ?thesis
  proof cases
    case 1
    then show ?thesis using sender_found_inv[OF inv] w by simp
  next
    case 2
    then show ?thesis using login_verified_inv[OF law inv] w by simp
  next
    case 3
    then show ?thesis using inv by (auto simp: sender_registered_def intro!: await_inv emit_plain_inv)
  next
    case 4
    then show ?thesis using inv by (auto simp: history_read_def intro!: emit_plain_inv split: option.splits)
  next
    case 5
    then show ?thesis
      using inv w verifyBytes_signed[OF law, of "buildCanonicalBytes (dr_username d) (dr_clientTimestamp d) (dr_text d)"]
      by (auto simp: message_verified_def verifySignature_def message_signed_def intro!: await_inv emit_plain_inv)
  next
    case 6
    then show ?thesis
      using inv w by (auto simp: message_saved_def storedForm_def key_proved_mono intro!: emit_inv split: option.splits)
  next
    case 7
    then show ?thesis using inv w by (simp add: await_inv)
  qed
qed

lemma chat_event_inv:
  assumes law: "ecdsa_law ec att" and inv: "chat_inv ec att s"
  shows "chat_inv ec att (chat_apply ec g key s e)"
proof (cases e)
  case (EAnswer i a)
  show ?thesis
  proof (cases "length (ch_waiting s) \<le> i")
    case True
    then show ?thesis using EAnswer inv by simp
  next
    case False
    obtain sid w where w: "ch_waiting s ! i = (sid, w)" by fastforce
    then have "good_waiting ec att (ch_out s) sid w"
      using inv False nth_mem[of i "ch_waiting s"] by (auto simp: chat_inv_def)
    then have "chat_inv ec att (resume ec g key sid w a
        (s\<lparr>ch_waiting := take i (ch_waiting s) @ drop (Suc i) (ch_waiting s)\<rparr>))"
      by (intro resume_inv[OF law unwait_inv[OF inv]]) simp
    then show ?thesis using EAnswer False w by simp
  qed
qed (use inv in \<open>auto simp: auth_start_inv auth_response_inv chat_message_inv disconnect_inv typing_def intro!: emit_plain_inv\<close>)

text \<open>The law of the signature scheme is part of the invariant, so that the locale applies.\<close>

interpretation chat: event_invariant "chat_apply ec g key" "\<lambda>e. True" "\<lambda>s. ecdsa_law ec att \<longrightarrow> chat_inv ec att s"
  for ec g key att
  by unfold_locales (auto intro: chat_event_inv)

definition chat_run :: "'k ecdsa \<Rightarrow> gcm \<Rightarrow> byte list \<Rightarrow> chat_event list \<Rightarrow> chat" where
  "chat_run ec g key es = run_events (chat_apply ec g key) new_chat es"

lemma chat_run_inv: "ecdsa_law ec att \<Longrightarrow> chat_inv ec att (chat_run ec g key es)"
proof -
  assume law: "ecdsa_law ec att"
  have "list_all (\<lambda>e. True) es" by (induction es) auto
  then show ?thesis
    using chat.inv_run[of ec att new_chat es g key] new_chat_inv[of ec att] law by (simp add: chat_run_def)
qed

lemma chat_inv_listed:
  "chat_inv ec att s \<Longrightarrow> Presence.get sid (ch_presence s) = Some u \<Longrightarrow> sd_username (ch_sockets s sid) = Some u"
  by (simp add: chat_inv_def)

lemma chat_inv_login:
  "chat_inv ec att s \<Longrightarrow> sd_username (ch_sockets s sid) = Some u \<Longrightarrow>
   good_name u \<and> (\<exists>pk. sd_publicKey (ch_sockets s sid) = Some pk \<and> key_proved ec att (ch_out s) pk)"
  unfolding chat_inv_def good_socket_def by blast

section \<open>Properties\<close>

text \<open>
  One challenge, one attempt, half a minute. Answering a pending challenge, whatever the answer
  is, uses it up: the next answer from that socket is told that no login is in progress; and an
  answer that comes later than thirty seconds after the challenge never reaches verification.
\<close>

theorem challenge_used_up:
  assumes "\<not> logged_in sid s" and "sd_pendingAuth (ch_sockets s sid) = Some p"
  shows "auth_response sid raw' later (auth_response sid raw now s)
      = emit [ToSocket sid (JoinError NoLoginInProgress)] (auth_response sid raw now s)
    \<and> (pa_expiresAt p < now \<longrightarrow> ch_waiting (auth_response sid raw now s) = ch_waiting s)"
proof -
  let ?s1 = "auth_response sid raw now s"
  have "\<not> logged_in sid ?s1 \<and> sd_pendingAuth (ch_sockets ?s1 sid) = None"
    using assms by (auto simp: auth_response_def Let_def emit_def await_def set_data_def logged_in_def split: option.splits)
  then have "auth_response sid raw' later ?s1 = emit [ToSocket sid (JoinError NoLoginInProgress)] ?s1"
    by (simp add: auth_response_def[of sid raw' later ?s1])
  moreover have "pa_expiresAt p < now \<longrightarrow> ch_waiting ?s1 = ch_waiting s"
    using assms by (simp add: auth_response_def Let_def emit_def set_data_def)
  ultimately show ?thesis by simp
qed

theorem challenge_used_up_witness:
  "ch_waiting (auth_response [1] Null 31001 (set_data [1] \<lparr>sd_username = None, sd_publicKey = None,
       sd_pendingAuth = Some \<lparr>pa_username = [65], pa_publicKey = [66], pa_challenge = [], pa_expiresAt = 31000\<rparr>\<rparr> new_chat)) = []"
  using challenge_used_up[of "[1]" "set_data [1] \<lparr>sd_username = None, sd_publicKey = None,
       sd_pendingAuth = Some \<lparr>pa_username = [65], pa_publicKey = [66], pa_challenge = [], pa_expiresAt = 31000\<rparr>\<rparr> new_chat"
     _ Null 0 Null 31001]
  by (simp add: set_data_def logged_in_def new_chat_def)

end
