(* ===== verification/Chat_Runs.thy ===== *)
theory Chat_Runs
  imports SocketHandlers
begin

text \<open>
  Whole conversations of \<open>src/socketHandlers.js\<close>: what an honest client achieves, what any
  interleaving keeps, and what the history says of a message that was broadcast. The runs here
  are lists of the events of \<open>SocketHandlers\<close>; \<open>login_script\<close> and \<open>message_script\<close> are the events
  of one login and of one message, with the answers of the database in between.
\<close>

section \<open>Scripts\<close>

text \<open>\<open>n\<close> is the position of the handler among those that wait; a script that is played while others
  wait leaves them where they are.\<close>

definition login_script ::
  "nat \<Rightarrow> jsstr \<Rightarrow> jsval \<Rightarrow> sender option \<Rightarrow> byte list \<Rightarrow> jsval \<Rightarrow> history_item list \<Rightarrow> millis \<Rightarrow> millis \<Rightarrow> chat_event list" where
  "login_script n sid hello existing random evidence items began ended =
     [EAuthStart sid hello, EAnswer n (SenderAnswer (Some existing) random began),
      EAuthResponse sid evidence ended, EAnswer n (Checked [] ended), EAnswer n (Stored True),
      EAnswer n (History (Some items) ended)]"

definition after_login ::
  "jsstr \<Rightarrow> jsstr \<Rightarrow> jsstr \<Rightarrow> byte list \<Rightarrow> history_item list \<Rightarrow> millis \<Rightarrow> chat \<Rightarrow> chat" where
  "after_login sid u pk random items ended s =
     s\<lparr>ch_sockets := (ch_sockets s)(sid := \<lparr>sd_username = Some u, sd_publicKey = Some pk, sd_pendingAuth = None\<rparr>),
       ch_presence := add sid u (ch_presence s),
       ch_out := ch_out s @ [ToSocket sid (AuthChallenge (createChallenge random)), ToSocket sid (JoinSuccess u),
         ToSocket sid (ChatHistory items), ToOthers sid (UserJoined u ended),
         ToAll (OnlineUsers (list_users (add sid u (ch_presence s))))]\<rparr>"

lemma answer_last:
  assumes "ch_waiting s = ws @ [(sid, w)]"
  shows "chat_apply ec g key s (EAnswer (length ws) a) = resume ec g key sid w a (s\<lparr>ch_waiting := ws\<rparr>)"
  using assms by simp

text \<open>The states between the events of a login, each with the handler that waits last.\<close>

lemma login_stages:
  assumes "\<not> logged_in sid s"
    and hello: "is_object hello" "validateUsername (get_field hello (js ''username'')) = Inr (Inr u)"
      "string_field hello (js ''publicKey'') = Some pk" "pk \<noteq> []"
    and existing: "\<And>e. existing = Some e \<Longrightarrow> s_publicKey e = pk"
    and evidence: "string_field evidence (js ''signature'') = Some sig"
      "verifyBytes ec (from_base64 (createChallenge random)) sig pk"
    and "ended \<le> began + CHALLENGE_TTL_MS"
    and free: "\<not> isUsernameTaken u (ch_presence s)"
    and p: "p = \<lparr>pa_username = u, pa_publicKey = pk, pa_challenge = createChallenge random, pa_expiresAt = began + CHALLENGE_TTL_MS\<rparr>"
  obtains s1 s2 s3 s4 s5
    where "chat_apply ec g key s (EAuthStart sid hello) = s1" "ch_waiting s1 = ch_waiting s @ [(sid, FindSender u pk)]"
      "chat_apply ec g key s1 (EAnswer (length (ch_waiting s)) (SenderAnswer (Some existing) random began)) = s2"
      "chat_apply ec g key s2 (EAuthResponse sid evidence ended) = s3" "ch_waiting s3 = ch_waiting s @ [(sid, VerifyLogin p sig)]"
      "chat_apply ec g key s3 (EAnswer (length (ch_waiting s)) (Checked [] ended)) = s4"
      "ch_waiting s4 = ch_waiting s @ [(sid, RegisterSender p)]"
      "chat_apply ec g key s4 (EAnswer (length (ch_waiting s)) (Stored True)) = s5"
      "ch_waiting s5 = ch_waiting s @ [(sid, ReadHistory p)]"
      "\<And>items. chat_apply ec g key s5 (EAnswer (length (ch_waiting s)) (History (Some items) ended))
         = after_login sid u pk random items ended s"
proof -
  let ?ws = "ch_waiting s" and ?out = "ch_out s @ [ToSocket sid (AuthChallenge (createChallenge random))]"
  let ?s1 = "s\<lparr>ch_waiting := ?ws @ [(sid, FindSender u pk)]\<rparr>"
  have 1: "chat_apply ec g key s (EAuthStart sid hello) = ?s1"
    using assms(1) hello by (cases pk) (simp_all add: auth_start_def await_def)
  let ?s2 = "s\<lparr>ch_sockets := (ch_sockets s)(sid := (ch_sockets s sid)\<lparr>sd_pendingAuth := Some p\<rparr>), ch_out := ?out\<rparr>"
  have 2: "chat_apply ec g key ?s1 (EAnswer (length ?ws) (SenderAnswer (Some existing) random began)) = ?s2"
    using existing by (simp add: sender_found_def Let_def emit_def set_data_def p split: option.split)
  let ?s3 = "s\<lparr>ch_sockets := (ch_sockets s)(sid := (ch_sockets s sid)\<lparr>sd_pendingAuth := None\<rparr>),
      ch_out := ?out, ch_waiting := ?ws @ [(sid, VerifyLogin p sig)]\<rparr>"
  have "\<not> logged_in sid ?s2" using assms(1) by (simp add: logged_in_def)
  then have 3: "chat_apply ec g key ?s2 (EAuthResponse sid evidence ended) = ?s3"
    using evidence(1) assms(9) by (simp add: auth_response_def Let_def set_data_def await_def p)
  let ?d = "\<lparr>sd_username = Some u, sd_publicKey = Some pk, sd_pendingAuth = None\<rparr>"
  let ?s4 = "s\<lparr>ch_sockets := (ch_sockets s)(sid := ?d), ch_presence := add sid u (ch_presence s),
      ch_out := ?out, ch_waiting := ?ws @ [(sid, RegisterSender p)]\<rparr>"
  have 4: "chat_apply ec g key ?s3 (EAnswer (length ?ws) (Checked [] ended)) = ?s4"
    using evidence(2) free by (cases "ch_sockets s sid") (simp add: login_verified_def admit_def set_data_def await_def p)
  let ?s5 = "?s4\<lparr>ch_out := ?out @ [ToSocket sid (JoinSuccess u)], ch_waiting := ?ws @ [(sid, ReadHistory p)]\<rparr>"
  have 5: "chat_apply ec g key ?s4 (EAnswer (length ?ws) (Stored True)) = ?s5"
    by (simp add: sender_registered_def emit_def await_def p)
  have 6: "chat_apply ec g key ?s5 (EAnswer (length ?ws) (History (Some items) ended))
      = after_login sid u pk random items ended s" for items
    by (simp add: history_read_def emit_def after_login_def p)
  show ?thesis by (rule that[OF 1 _ 2 3 _ 4 _ 5 _ 6]) simp_all
qed

lemma login_script_run:
  assumes "\<not> logged_in sid s"
    and hello: "is_object hello" "validateUsername (get_field hello (js ''username'')) = Inr (Inr u)"
      "string_field hello (js ''publicKey'') = Some pk" "pk \<noteq> []"
    and existing: "\<And>e. existing = Some e \<Longrightarrow> s_publicKey e = pk"
    and evidence: "string_field evidence (js ''signature'') = Some sig"
      "verifyBytes ec (from_base64 (createChallenge random)) sig pk"
    and "ended \<le> began + CHALLENGE_TTL_MS"
    and free: "\<not> isUsernameTaken u (ch_presence s)"
  shows "run_events (chat_apply ec g key) s
      (login_script (length (ch_waiting s)) sid hello existing random evidence items began ended)
    = after_login sid u pk random items ended s"
  using login_stages[OF assms(1) hello existing evidence assms(9) free refl, where g = g and key = key]
  unfolding login_script_def run_events.simps by metis

text \<open>One message of a socket that is logged in.\<close>

definition message_script ::
  "nat \<Rightarrow> jsstr \<Rightarrow> jsval \<Rightarrow> byte list \<Rightarrow> jsstr \<Rightarrow> millis \<Rightarrow> millis \<Rightarrow> chat_event list" where
  "message_script n sid payload nonce msgId received stored =
     [EChatMessage sid payload received, EAnswer n (Checked nonce stored), EAnswer n (Saved (Some msgId))]"

definition broadcast_of :: "gcm \<Rightarrow> byte list \<Rightarrow> byte list \<Rightarrow> jsstr \<Rightarrow> millis \<Rightarrow> draft \<Rightarrow> chat_broadcast" where
  "broadcast_of g key nonce msgId stored d =
     \<lparr>cb_id = msgId, cb_username = dr_username d, cb_text = dr_text d, cb_timestamp = stored,
      cb_senderPublicKey = dr_publicKey d,
      cb_stored = storedForm (Some (sl_ciphertext (encrypt g key nonce (dr_text d)))) (Some nonce)
        (Some (from_base64 (dr_signatureB64 d))) (Some (dr_clientTimestamp d))\<rparr>"

lemma nonce_of_encrypt [simp]: "sl_nonce (encrypt g key nonce t) = nonce"
  by (simp add: encrypt_def case_prod_beta' Let_def)

lemma message_stages:
  assumes who: "sd_username (ch_sockets s sid) = Some u" "u \<noteq> []" "sd_publicKey (ch_sockets s sid) = Some pk" "pk \<noteq> []"
    and "allow received sid (ch_limiter s) = (True, h)"
    and payload: "is_object payload" "validateMessage (get_field payload (js ''text'')) = Inr t"
      "string_field payload (js ''signature'') = Some sig" "sig \<noteq> []"
      "get_field payload (js ''timestamp'') = Number n" "isTimestampFresh received n"
    and "verifySignature ec u n t sig pk"
    and d: "d = \<lparr>dr_username = u, dr_clientTimestamp = n, dr_text = t, dr_signatureB64 = sig, dr_publicKey = pk\<rparr>"
  obtains s1 s2
    where "chat_apply ec g key s (EChatMessage sid payload received) = s1" "ch_waiting s1 = ch_waiting s @ [(sid, VerifyMessage d)]"
      "chat_apply ec g key s1 (EAnswer (length (ch_waiting s)) (Checked nonce stored)) = s2"
      "ch_waiting s2 = ch_waiting s @ [(sid, SaveMessage d stored (encrypt g key nonce t))]"
      "\<And>msgId. chat_apply ec g key s2 (EAnswer (length (ch_waiting s)) (Saved (Some msgId)))
         = s\<lparr>ch_limiter := h, ch_out := ch_out s @ [ToAll (ChatMessage (broadcast_of g key nonce msgId stored d))]\<rparr>"
proof -
  let ?ws = "ch_waiting s"
  let ?s1 = "s\<lparr>ch_limiter := h, ch_waiting := ?ws @ [(sid, VerifyMessage d)]\<rparr>"
  have 1: "chat_apply ec g key s (EChatMessage sid payload received) = ?s1"
    using assms by (cases pk; cases sig) (simp_all add: chat_message_def await_def)
  let ?s2 = "s\<lparr>ch_limiter := h, ch_waiting := ?ws @ [(sid, SaveMessage d stored (encrypt g key nonce t))]\<rparr>"
  have 2: "chat_apply ec g key ?s1 (EAnswer (length ?ws) (Checked nonce stored)) = ?s2"
    using assms(12) by (simp add: message_verified_def await_def d)
  have 3: "chat_apply ec g key ?s2 (EAnswer (length ?ws) (Saved (Some msgId)))
      = s\<lparr>ch_limiter := h, ch_out := ch_out s @ [ToAll (ChatMessage (broadcast_of g key nonce msgId stored d))]\<rparr>" for msgId
    by (simp add: message_saved_def emit_def broadcast_of_def d)
  show ?thesis by (rule that[OF 1 _ 2 _ 3]) simp_all
qed

lemma message_script_run:
  assumes who: "sd_username (ch_sockets s sid) = Some u" "u \<noteq> []" "sd_publicKey (ch_sockets s sid) = Some pk" "pk \<noteq> []"
    and "allow received sid (ch_limiter s) = (True, h)"
    and payload: "is_object payload" "validateMessage (get_field payload (js ''text'')) = Inr t"
      "string_field payload (js ''signature'') = Some sig" "sig \<noteq> []"
      "get_field payload (js ''timestamp'') = Number n" "isTimestampFresh received n"
    and "verifySignature ec u n t sig pk"
  shows "run_events (chat_apply ec g key) s (message_script (length (ch_waiting s)) sid payload nonce msgId received stored)
    = s\<lparr>ch_limiter := h, ch_out := ch_out s @ [ToAll (ChatMessage (broadcast_of g key nonce msgId stored
        \<lparr>dr_username = u, dr_clientTimestamp = n, dr_text = t, dr_signatureB64 = sig, dr_publicKey = pk\<rparr>))]\<rparr>"
  using message_stages[OF assms refl, where g = g and key = key and nonce = nonce and stored = stored]
  unfolding message_script_def run_events.simps by metis

section \<open>A conversation of one\<close>

text \<open>A signature scheme in which the bytes of a signature are the key itself, for closed examples;
  every key's holder has then signed everything.\<close>

definition echo_ecdsa :: "byte list ecdsa" where
  "echo_ecdsa = \<lparr>importKey = Some, ec_verify = (\<lambda>key sig bytes. Some (sig = key))\<rparr>"

definition hello_of :: "jsstr \<Rightarrow> jsstr \<Rightarrow> jsval" where
  "hello_of name pk = Object [(js ''username'', String name), (js ''publicKey'', String pk)]"

definition evidence_of :: "jsstr \<Rightarrow> jsval" where
  "evidence_of pk = Object [(js ''signature'', String pk)]"

definition payload_of :: "jsstr \<Rightarrow> jsstr \<Rightarrow> int \<Rightarrow> jsval" where
  "payload_of t pk n = Object [(js ''text'', String t), (js ''signature'', String pk), (js ''timestamp'', Number (int_number n))]"

lemma talk_fields:
  "is_object (hello_of u pk)" "get_field (hello_of u pk) (js ''username'') = String u"
  "string_field (hello_of u pk) (js ''publicKey'') = Some pk"
  "string_field (evidence_of pk) (js ''signature'') = Some pk"
  "is_object (payload_of t pk n)" "get_field (payload_of t pk n) (js ''text'') = String t"
  "string_field (payload_of t pk n) (js ''signature'') = Some pk"
  "get_field (payload_of t pk n) (js ''timestamp'') = Number (int_number n)"
  by (simp_all add: hello_of_def evidence_of_def payload_of_def is_object_def get_field_def string_field_def of_char_Char)

text \<open>\<open>talk_fields\<close> speaks of field names as literals, which \<open>js_Cons\<close> would unfold.\<close>

lemmas talk_simps = talk_fields CHALLENGE_TTL_MS_def

lemma echo_verifies [simp]: "verifyBytes echo_ecdsa bytes pk pk" "verifySignature echo_ecdsa u n t pk pk"
  by (simp_all add: verifySignature_def verifyBytes_def echo_ecdsa_def)

lemma echo_law: "ecdsa_law echo_ecdsa (\<lambda>k bytes. True)"
  by (simp add: ecdsa_law_def)

definition thor :: jsstr where
  "thor = js ''Thor''"

definition key1 :: jsstr where
  "key1 = js ''key1''"

definition hi :: jsstr where
  "hi = js ''hi''"

lemma literals [simp]: "thor \<noteq> []" "key1 \<noteq> []" "hi \<noteq> []"
  by (simp_all add: thor_def key1_def hi_def)

definition sample_talk :: "chat_event list" where
  "sample_talk = login_script 0 [1] (hello_of thor key1) None [7] (evidence_of key1) [] 1000 1500
     @ message_script 0 [1] (payload_of hi key1 2000) (replicate 12 0) (js ''id1'') 2000 2001"

definition sample_draft :: draft where
  "sample_draft = \<lparr>dr_username = thor, dr_clientTimestamp = int_number 2000, dr_text = hi,
     dr_signatureB64 = key1, dr_publicKey = key1\<rparr>"

lemma thor_valid: "validateUsername (String thor) = Inr (Inr thor)"
  by (simp add: thor_def validateUsername_def string_or_empty_def absent_def js_trim_def is_js_space_def
      matches_USERNAME_PATTERN_def username_unit_def of_char_Char)

lemma hi_valid: "validateMessage (String hi) = Inr hi"
  by (simp add: hi_def js_slice0_def validateMessage_def js_trim_def is_js_space_def MAX_MESSAGE_LENGTH_def of_char_Char)

lemma fresh_socket [simp]: "\<not> logged_in sid new_chat" "\<not> isUsernameTaken u new_Presence"
  by (simp_all add: logged_in_def new_chat_def new_socket_def isUsernameTaken_def new_Presence_def Let_def)

lemma new_chat_parts [simp]:
  "ch_presence new_chat = new_Presence" "ch_waiting new_chat = []" "ch_out new_chat = []" "ch_limiter new_chat = []"
  by (simp_all add: new_chat_def)

section \<open>Properties\<close>



lemma sample_talk_out:
  "ToAll (ChatMessage (broadcast_of plain_gcm [] (replicate 12 0) (js ''id1'') 2001 sample_draft))
     \<in> set (ch_out (chat_run echo_ecdsa plain_gcm [] sample_talk))"
  "sd_username (ch_sockets (chat_run echo_ecdsa plain_gcm [] sample_talk) [1]) = Some thor"
proof -
  let ?s1 = "after_login [1] thor key1 [7] [] 1500 new_chat"
  have 1: "run_events (chat_apply echo_ecdsa plain_gcm []) new_chat
      (login_script 0 [1] (hello_of thor key1) None [7] (evidence_of key1) [] 1000 1500) = ?s1"
    using login_script_run[of "[1]" new_chat "hello_of thor key1" thor key1 None "evidence_of key1" key1 echo_ecdsa "[7]" 1500 1000
        plain_gcm "[]" "[]"]
    by (simp add: thor_valid talk_simps del: js_Cons)
  have "allow 2000 [1] (ch_limiter ?s1) = (True, [([1], [2000])])"
    by (simp add: after_login_def allow_def hits_of_def MAX_EVENTS_PER_WINDOW_def)
  from message_script_run[of ?s1 "[1]" thor key1, OF _ _ _ _ this, of "payload_of hi key1 2000" hi key1 "int_number 2000"
      echo_ecdsa plain_gcm "[]" "replicate 12 0" "js ''id1''" 2001]
  have 2: "run_events (chat_apply echo_ecdsa plain_gcm []) ?s1
      (message_script 0 [1] (payload_of hi key1 2000) (replicate 12 0) (js ''id1'') 2000 2001)
    = ?s1\<lparr>ch_limiter := [([1], [2000])], ch_out := ch_out ?s1
        @ [ToAll (ChatMessage (broadcast_of plain_gcm [] (replicate 12 0) (js ''id1'') 2001 sample_draft))]\<rparr>"
    by (simp add: hi_valid talk_simps after_login_def sample_draft_def int_number_def maxSkewMs_def del: js_Cons)
  show "ToAll (ChatMessage (broadcast_of plain_gcm [] (replicate 12 0) (js ''id1'') 2001 sample_draft))
     \<in> set (ch_out (chat_run echo_ecdsa plain_gcm [] sample_talk))"
    "sd_username (ch_sockets (chat_run echo_ecdsa plain_gcm [] sample_talk) [1]) = Some thor"
    unfolding chat_run_def sample_talk_def run_events_append 1 2 by (simp_all add: after_login_def)
qed

text \<open>
  Nothing unsigned is ever broadcast. In any interleaving of logins, messages, disconnects and
  database answers, every chat message sent out names a valid username, carries a public key whose
  holder has signed a login challenge of this server, and carries a text and a client timestamp
  that the holder of that key signed under that very name.
\<close>

theorem broadcasts_are_signed:
  assumes "ecdsa_law ec attested"
    and "ToAll (ChatMessage cb) \<in> set (ch_out (chat_run ec g key es))"
  shows "\<exists>k n sid challenge. importKey ec (from_base64 (cb_senderPublicKey cb)) = Some k
    \<and> sf_clientTimestamp (cb_stored cb) = Some n
    \<and> attested k (buildCanonicalBytes (cb_username cb) n (cb_text cb))
    \<and> ToSocket sid (AuthChallenge challenge) \<in> set (ch_out (chat_run ec g key es))
    \<and> attested k (from_base64 challenge) \<and> matches_USERNAME_PATTERN (cb_username cb)"
proof -
  let ?s = "chat_run ec g key es"
  have "good_emission ec attested (ch_out ?s) (ToAll (ChatMessage cb))"
    using chat_run_inv[OF assms(1), of g key es] assms(2) unfolding chat_inv_def by blast
  then show ?thesis by (auto simp: key_proved_def message_signed_def good_name_def) blast
qed

theorem broadcasts_are_signed_witness:
  "\<exists>k n sid challenge. importKey echo_ecdsa (from_base64 key1) = Some k
    \<and> sf_clientTimestamp (cb_stored (broadcast_of plain_gcm [] (replicate 12 0) (js ''id1'') 2001 sample_draft)) = Some n
    \<and> ToSocket sid (AuthChallenge challenge) \<in> set (ch_out (chat_run echo_ecdsa plain_gcm [] sample_talk))"
proof -
  have "cb_senderPublicKey (broadcast_of plain_gcm [] (replicate 12 0) (js ''id1'') 2001 sample_draft) = key1"
    by (simp add: broadcast_of_def sample_draft_def)
  then show ?thesis using broadcasts_are_signed[OF echo_law sample_talk_out(1)] by auto
qed

text \<open>
  C20: a login proves a key. In any interleaving, a socket that is logged in has a valid name and a
  public key whose holder signed one of this server's challenges; the names online on the server
  are exclusive, and the name under which a socket is listed is the one it is logged in with.
\<close>

theorem login_proves_key:
  assumes "ecdsa_law ec attested" and "s = chat_run ec g key es"
    and "sd_username (ch_sockets s sid) = Some u"
  shows "\<exists>pk k sid' challenge. sd_publicKey (ch_sockets s sid) = Some pk \<and> importKey ec (from_base64 pk) = Some k
    \<and> ToSocket sid' (AuthChallenge challenge) \<in> set (ch_out s) \<and> attested k (from_base64 challenge)
    \<and> matches_USERNAME_PATTERN u
    \<and> distinct (map to_lower (list_users (ch_presence s)))
    \<and> (case Presence.get sid (ch_presence s) of None \<Rightarrow> True | Some v \<Rightarrow> v = u)"
proof -
  have inv: "chat_inv ec attested s" using chat_run_inv[OF assms(1)] assms(2) by simp
  then have "presence_ok (ch_presence s)" by (simp add: chat_inv_def presence_inv_def)
  then have "distinct (map to_lower (list_users (ch_presence s)))"
    by (simp add: presence_ok_def list_users_def case_prod_beta' comp_def)
  moreover have "case Presence.get sid (ch_presence s) of None \<Rightarrow> True | Some v \<Rightarrow> v = u"
    using chat_inv_listed[OF inv, of sid] assms(3) by (cases "Presence.get sid (ch_presence s)") simp_all
  moreover obtain pk where "sd_publicKey (ch_sockets s sid) = Some pk" "good_name u" "key_proved ec attested (ch_out s) pk"
    using chat_inv_login[OF inv assms(3)] by blast
  moreover from this(3) obtain k sid' challenge where "importKey ec (from_base64 pk) = Some k"
    "ToSocket sid' (AuthChallenge challenge) \<in> set (ch_out s)" "attested k (from_base64 challenge)"
    by (auto simp: key_proved_def)
  ultimately show ?thesis unfolding good_name_def by blast
qed

theorem login_proves_key_witness:
  "\<exists>pk. sd_publicKey (ch_sockets (chat_run echo_ecdsa plain_gcm [] sample_talk) [1]) = Some pk
    \<and> matches_USERNAME_PATTERN thor"
  using login_proves_key[OF echo_law refl sample_talk_out(2)] by blast

section \<open>Broadcast and history\<close>

text \<open>The document of a draft, as it is stored.\<close>

definition document_of :: "gcm \<Rightarrow> byte list \<Rightarrow> byte list \<Rightarrow> objectid \<Rightarrow> jsstr \<Rightarrow> millis \<Rightarrow> draft \<Rightarrow> document" where
  "document_of g key nonce oid uuid stored d =
     message_document oid uuid stored (draft_args d stored (encrypt g key nonce (dr_text d)))"

text \<open>The row that a draft is stored as.\<close>

definition row_of :: "gcm \<Rightarrow> byte list \<Rightarrow> byte list \<Rightarrow> objectid \<Rightarrow> jsstr \<Rightarrow> millis \<Rightarrow> draft \<Rightarrow> stored_message" where
  "row_of g key nonce oid uuid stored d =
     stored_message_of (document_of g key nonce oid uuid stored d)"

lemma row_fields [simp]:
  "sm_id (row_of g key nonce oid uuid stored d) = toHexString oid"
  "sm_senderId (row_of g key nonce oid uuid stored d) = dr_username d"
  "sm_ciphertext (row_of g key nonce oid uuid stored d) = Some (sl_ciphertext (encrypt g key nonce (dr_text d)))"
  "sm_nonce (row_of g key nonce oid uuid stored d) = Some nonce"
  "sm_signature (row_of g key nonce oid uuid stored d) = Some (from_base64 (dr_signatureB64 d))"
  "sm_senderPublicKey (row_of g key nonce oid uuid stored d) = Some (from_base64 (dr_publicKey d))"
  "sm_timestamp (row_of g key nonce oid uuid stored d) = Some stored"
  "sm_clientTimestamp (row_of g key nonce oid uuid stored d) = Some (dr_clientTimestamp d)"
  by (simp_all add: row_of_def document_of_def stored_message_of_def message_document_def draft_args_def Let_def)

lemma verifySignature_canonical:
  "verifySignature ec u n t (to_base64 (from_base64 sig)) (to_base64 (from_base64 pk)) = verifySignature ec u n t sig pk"
  by (simp add: verifySignature_def verifyBytes_def from_to_base64 cong: option.case_cong)

lemma history_item_of_row:
  assumes law: "gcm_law g" and size: "length key = KEY_BYTES" "length nonce = NONCE_BYTES"
    and wf: "well_formed (dr_text d)"
    and valid: "verifySignature ec (dr_username d) (dr_clientTimestamp d) (dr_text d) (dr_signatureB64 d) (dr_publicKey d)"
    and cb: "cb = broadcast_of g key nonce (toHexString oid) stored d"
  shows "history_item_of ec g key (row_of g key nonce oid uuid stored d)
    = Inr \<lparr>hi_id = cb_id cb, hi_username = cb_username cb, hi_timestamp = cb_timestamp cb,
           hi_senderPublicKey = Some (to_base64 (from_base64 (cb_senderPublicKey cb))),
           hi_stored = cb_stored cb, hi_text = Some (cb_text cb), hi_signature = Valid\<rparr>"
  using decrypt_encrypt[OF law size, of "dr_text d"] wf valid
  by (simp add: history_item_of_def Let_def cb broadcast_of_def verifyStoredSignature_def
      verifySignature_canonical to_well_formed_id)



lemma loadHistory_append:
  "loadHistory ec g key (ms @ [m]) =
     (case loadHistory ec g key ms of Inl e \<Rightarrow> Inl e
      | Inr items \<Rightarrow> (case history_item_of ec g key m of Inl e \<Rightarrow> Inl e | Inr i \<Rightarrow> Inr (items @ [i])))"
  by (induction ms) (auto split: sum.split)

text \<open>What an entry may say of its row.\<close>

definition fair_item ::
  "'k ecdsa \<Rightarrow> ('k \<Rightarrow> byte list \<Rightarrow> bool) \<Rightarrow> gcm \<Rightarrow> byte list \<Rightarrow> stored_message \<Rightarrow> history_item \<Rightarrow> bool" where
  "fair_item ec attested g key m i \<longleftrightarrow> hi_id i = sm_id m \<and> hi_username i = sm_senderId m \<and>
     (case hi_text i of
        None \<Rightarrow> hi_signature i = Unknown \<and> (\<exists>e. decrypt g key (sm_ciphertext m) (sm_nonce m) = Inl e)
      | Some t \<Rightarrow> decrypt g key (sm_ciphertext m) (sm_nonce m) = Inr t
          \<and> hi_signature i \<noteq> Unknown
          \<and> (hi_signature i = Unsigned \<longleftrightarrow> sm_signature m = None \<or> sm_senderPublicKey m = None)
          \<and> (hi_signature i = Valid \<longrightarrow> (\<exists>pk k n. sm_senderPublicKey m = Some pk \<and> importKey ec pk = Some k
               \<and> (sm_clientTimestamp m = Some n \<or> sm_clientTimestamp m = None \<and> map_option int_number (sm_timestamp m) = Some n)
               \<and> attested k (buildCanonicalBytes (sm_senderId m) n t))))"

lemma fair_history_item:
  assumes law: "ecdsa_law ec attested" and i: "history_item_of ec g key m = Inr i"
  shows "fair_item ec attested g key m i"
proof -
  obtain ts where ts: "sm_timestamp m = Some ts" using i by (auto simp: history_item_of_def split: option.splits)
  show ?thesis
  proof (cases "decrypt g key (sm_ciphertext m) (sm_nonce m)")
    case (Inl e)
    then show ?thesis using i ts by (auto simp: history_item_of_def fair_item_def)
  next
    case (Inr t)
    then show ?thesis using i ts
      by (auto simp: history_item_of_def fair_item_def verifyStoredSignature_def verifySignature_def from_to_base64
          dest!: verifyBytes_signed[OF law] split: option.splits if_splits)
  qed
qed

text \<open>
  C26: every stored message is judged on its own and honestly. When the history loads, there is
  one entry per row, in order; an entry without text is a row whose bytes are no sealing under
  the server's key, and is blamed on nobody; an entry with text is called valid only if the
  holder of the row's key signed that very text under that name and time, and one that was
  stored without a signature is called unsigned.
\<close>

theorem history_is_fair:
  assumes "ecdsa_law ec attested" and "loadHistory ec g key ms = Inr items"
  shows "list_all2 (fair_item ec attested g key) ms items"
  using assms(2)
proof (induction ms arbitrary: items)
  case (Cons m ms)
  then obtain i rest where "history_item_of ec g key m = Inr i" "loadHistory ec g key ms = Inr rest" "items = i # rest"
    by (auto split: sum.splits simp: map_sum_def)
  then show ?case using Cons.IH fair_history_item[OF assms(1)] by simp
qed simp

theorem history_is_fair_witness:
  "\<exists>i. loadHistory echo_ecdsa plain_gcm [] [stored_message_of (sample_doc 3)] = Inr [i] \<and> hi_text i = None
     \<and> hi_signature i = Unknown"
proof -
  obtain i where i: "loadHistory echo_ecdsa plain_gcm [] [stored_message_of (sample_doc 3)] = Inr [i]" "hi_text i = None"
    by (simp add: history_item_of_def decrypt_def stored_message_of_def sample_doc_def)
  from history_is_fair[OF echo_law i(1)] i show ?thesis by (simp add: fair_item_def)
qed

section \<open>Trust on first use under a race\<close>

text \<open>
  Two sockets start a login for one new name with different keys; both lookups are answered before
  either registers. The first completes, registers its key and leaves; the second completes.
\<close>

definition race_script ::
  "jsval \<Rightarrow> byte list \<Rightarrow> jsval \<Rightarrow> jsval \<Rightarrow> byte list \<Rightarrow> jsval \<Rightarrow> jsstr \<Rightarrow> jsstr \<Rightarrow> millis \<Rightarrow> chat_event list" where
  "race_script hello1 random1 evidence1 hello2 random2 evidence2 a b now =
     [EAuthStart a hello1, EAuthStart b hello2,
      EAnswer 0 (SenderAnswer (Some None) random1 now), EAnswer 0 (SenderAnswer (Some None) random2 now),
      EAuthResponse a evidence1 now, EAnswer 0 (Checked [] now), EAnswer 0 (Stored True), EAnswer 0 (History (Some []) now),
      EDisconnect a now,
      EAuthResponse b evidence2 now, EAnswer 0 (Checked [] now), EAnswer 0 (Stored True)]"

text \<open>
  C36: the binding of a name to a key is checked once only. Contrary to the comment in \<open>auth-start\<close>,
  the key is not compared again after the proof: two clients with different keys that look a new
  name up at the same time both log in under it, one after the other, although the senders
  collection binds the name to the first key only.
\<close>

theorem two_keys_one_name:
  assumes "a \<noteq> b" and law: "sender_law so" and new: "findSender so u db = None"
    and hello1: "is_object hello1" "validateUsername (get_field hello1 (js ''username'')) = Inr (Inr u)"
      "string_field hello1 (js ''publicKey'') = Some pk1" "pk1 \<noteq> []"
    and hello2: "is_object hello2" "validateUsername (get_field hello2 (js ''username'')) = Inr (Inr u)"
      "string_field hello2 (js ''publicKey'') = Some pk2" "pk2 \<noteq> []"
    and evidence1: "string_field evidence1 (js ''signature'') = Some sig1"
      "verifyBytes ec (from_base64 (createChallenge r1)) sig1 pk1"
    and evidence2: "string_field evidence2 (js ''signature'') = Some sig2"
      "verifyBytes ec (from_base64 (createChallenge r2)) sig2 pk2"
    and s: "s = chat_run ec g key (race_script hello1 r1 evidence1 hello2 r2 evidence2 a b now)"
  shows "ToSocket a (JoinSuccess u) \<in> set (ch_out s) \<and> ToSocket b (JoinSuccess u) \<in> set (ch_out s)
    \<and> sd_publicKey (ch_sockets s b) = Some pk2
    \<and> map_option s_publicKey (findSender so u (register_all so [(now, u, pk1), (now, u, pk2)] db)) = Some pk1"
proof -
  have u: "u \<noteq> []" using good_name_valid[OF hello1(2)] good_name_nonempty by blast
  obtain c1 k1 c2 k2 where pk: "pk1 = c1 # k1" "pk2 = c2 # k2" using hello1(4) hello2(4) by (cases pk1; cases pk2) auto
  have names: "findSender so u (register_all so [(now, u, pk1), (now, u, pk2)] db)
      = Some \<lparr>s_id = to_lower u, s_publicKey = pk1, s_firstSeen = now\<rparr>"
    using new law by (simp add: find_register)
  obtain gone where gone: "Presence.remove now a (add a u new_Presence) = (Some u, gone)" "\<not> isUsernameTaken u gone"
    using u by (simp add: isUsernameTaken_def Presence.remove_def Presence.get_def add_def markDisconnected_def
        new_Presence_def Let_def)
  have "ToSocket a (JoinSuccess u) \<in> set (ch_out s) \<and> ToSocket b (JoinSuccess u) \<in> set (ch_out s)
    \<and> sd_publicKey (ch_sockets s b) = Some pk2"
    using assms(1) hello1(1-3) hello2(1-3) evidence1 evidence2 u gone unfolding s chat_run_def race_script_def pk
    by (simp add: auth_start_def logged_in_def new_chat_def new_socket_def await_def sender_found_def Let_def emit_def
        set_data_def auth_response_def login_verified_def admit_def sender_registered_def history_read_def
        disconnect_def CHALLENGE_TTL_MS_def)
  with names show ?thesis by simp
qed

theorem two_keys_one_name_witness:
  "ToSocket [2] (JoinSuccess thor) \<in> set (ch_out (chat_run echo_ecdsa plain_gcm []
      (race_script (hello_of thor key1) [7] (evidence_of key1) (hello_of thor hi) [8] (evidence_of hi) [1] [2] 1000)))
   \<and> map_option s_publicKey (findSender map_senders thor (register_all map_senders [(1000, thor, key1), (1000, thor, hi)] Map.empty)) = Some key1"
proof -
  have "sender_law map_senders" by (auto simp: sender_law_def map_senders_def split: option.splits)
  moreover have "findSender map_senders thor Map.empty = None" by (simp add: findSender_def map_senders_def)
  ultimately show ?thesis
    using two_keys_one_name[of "[1]" "[2]" map_senders thor Map.empty "hello_of thor key1" key1 "hello_of thor hi" hi
      "evidence_of key1" key1 echo_ecdsa "[7]" "evidence_of hi" hi "[8]" _ plain_gcm "[]" 1000]
    by (simp add: talk_fields thor_valid del: js_Cons register_all.simps)
qed

end
