(* ===== verification/Chat_Races.thy ===== *)
theory Chat_Races
  imports Chat_Runs
begin

text \<open>
  A race of \<open>src/socketHandlers.js\<close>: \<open>auth-response\<close> goes on after its \<open>await\<close> without asking whether
  the socket is still there. A client that leaves while its signature is being verified is
  entered among the online users after its \<open>disconnect\<close> handler has run, and nothing removes it
  again.
\<close>

section \<open>Leaving during the verification\<close>

definition leaving_script ::
  "nat \<Rightarrow> jsstr \<Rightarrow> jsval \<Rightarrow> sender option \<Rightarrow> byte list \<Rightarrow> jsval \<Rightarrow> millis \<Rightarrow> millis \<Rightarrow> chat_event list" where
  "leaving_script n sid hello existing random evidence began ended =
     [EAuthStart sid hello, EAnswer n (SenderAnswer (Some existing) random began),
      EAuthResponse sid evidence ended, EDisconnect sid ended, EAnswer n (Checked [] ended)]"

text \<open>The socket that an event comes from; an answer comes from none.\<close>

fun event_socket :: "chat_event \<Rightarrow> jsstr option" where
  "event_socket (EAuthStart sid raw) = Some sid"
| "event_socket (EAuthResponse sid raw now) = Some sid"
| "event_socket (EChatMessage sid raw now) = Some sid"
| "event_socket (ETyping sid raw) = Some sid"
| "event_socket (EDisconnect sid now) = Some sid"
| "event_socket (EAnswer i a) = None"

section \<open>A socket that is gone and listed\<close>

definition ghost :: "jsstr \<Rightarrow> jsstr \<Rightarrow> chat \<Rightarrow> bool" where
  "ghost sid u s \<longleftrightarrow> Presence.get sid (ch_presence s) = Some u
     \<and> (\<forall>w. (sid, w) \<in> set (ch_waiting s) \<longrightarrow> (\<forall>p sig. w \<noteq> VerifyLogin p sig))"

lemma ghost_emit [simp]: "ghost sid u (emit es s) = ghost sid u s"
  by (simp add: ghost_def emit_def)

lemma ghost_set_data [simp]: "ghost sid u (set_data sid' d s) = ghost sid u s"
  by (simp add: ghost_def set_data_def)

lemma ghost_limiter [simp]: "ghost sid u (s\<lparr>ch_limiter := h\<rparr>) = ghost sid u s"
  by (simp add: ghost_def)

lemma ghost_await: "ghost sid u s \<Longrightarrow> sid' \<noteq> sid \<or> (\<forall>p sig. w \<noteq> VerifyLogin p sig) \<Longrightarrow> ghost sid u (await sid' w s)"
  by (auto simp: ghost_def await_def)

lemma ghost_unwait:
  "ghost sid u s \<Longrightarrow> ghost sid u (s\<lparr>ch_waiting := take i (ch_waiting s) @ drop (Suc i) (ch_waiting s)\<rparr>)"
  by (auto simp: ghost_def dest: in_set_takeD in_set_dropD)

lemma ghost_add: "ghost sid u s \<Longrightarrow> sid' \<noteq> sid \<Longrightarrow> ghost sid u (s\<lparr>ch_presence := add sid' v (ch_presence s)\<rparr>)"
  by (simp add: ghost_def add_def Presence.get_def update_conv')

lemma ghost_disconnect: "ghost sid u s \<Longrightarrow> sid' \<noteq> sid \<Longrightarrow> ghost sid u (disconnect sid' now s)"
proof -
  assume g: "ghost sid u s" and ne: "sid' \<noteq> sid"
  have "Presence.get sid (snd (Presence.remove now sid' (ch_presence s))) = Presence.get sid (ch_presence s)"
    using ne by (auto simp: Presence.remove_def Presence.get_def markDisconnected_def Let_def delete_conv' split: option.split)
  then have "ghost sid u (s\<lparr>ch_presence := snd (Presence.remove now sid' (ch_presence s)), ch_limiter := clear sid' (ch_limiter s)\<rparr>)"
    using g by (simp add: ghost_def)
  then show ?thesis by (auto simp: disconnect_def Let_def case_prod_beta' split: option.split)
qed

lemma ghost_login_verified:
  assumes "ghost sid u s" "presence_inv (ch_presence s)" "good_name (pa_username p)" "sid' \<noteq> sid"
  shows "ghost sid u (login_verified sid' p proved now s)"
proof -
  have "js_trim (pa_username p) = pa_username p" "pa_username p \<noteq> []"
    using assms(3) good_name_nonempty by (auto simp: good_name_def)
  from admit_taken[OF assms(2) this, of now sid'] show ?thesis
    using assms(1,4) by (auto simp: login_verified_def Let_def intro!: ghost_await ghost_add)
qed

lemma ghost_resume:
  assumes "ghost sid u s" "presence_inv (ch_presence s)" "good_waiting ec att out sid' w"
    and "sid' \<noteq> sid \<or> (\<forall>p sig. w \<noteq> VerifyLogin p sig)"
  shows "ghost sid u (resume ec g key sid' w a s)"
  using assms
  by (cases w; cases a)
     (auto simp: sender_found_def sender_registered_def history_read_def message_verified_def message_saved_def Let_def
       intro!: ghost_await ghost_login_verified split: option.split)

lemma ghost_event:
  assumes inv: "chat_inv ec att s" and g: "ghost sid u s" and e: "event_socket e \<noteq> Some sid"
  shows "ghost sid u (chat_apply ec g key s e)"
proof (cases e)
  case (EAnswer i a)
  show ?thesis
  proof (cases "length (ch_waiting s) \<le> i")
    case False
    obtain sid' w where w: "ch_waiting s ! i = (sid', w)" by fastforce
    then have mem: "(sid', w) \<in> set (ch_waiting s)" using False by (metis not_le nth_mem)
    let ?s1 = "s\<lparr>ch_waiting := take i (ch_waiting s) @ drop (Suc i) (ch_waiting s)\<rparr>"
    have "ghost sid u (resume ec g key sid' w a ?s1)"
    proof (rule ghost_resume)
      show "good_waiting ec att (ch_out s) sid' w" "presence_inv (ch_presence ?s1)"
        using inv mem by (auto simp: chat_inv_def)
      show "sid' \<noteq> sid \<or> (\<forall>p sig. w \<noteq> VerifyLogin p sig)" using g mem by (auto simp: ghost_def)
    qed (rule ghost_unwait[OF g])
    then show ?thesis using EAnswer False w by simp
  qed (use EAnswer g in simp)
qed (use g e in \<open>auto simp: auth_start_def auth_response_def chat_message_def typing_def Let_def case_prod_beta'
      intro!: ghost_await ghost_disconnect split: option.split sum.split list.split jsval.split\<close>)

interpretation haunted: event_invariant "chat_apply ec g key" "\<lambda>e. event_socket e \<noteq> Some sid"
    "\<lambda>s. ecdsa_law ec att \<longrightarrow> chat_inv ec att s \<and> ghost sid u s" for ec g key att sid u
  by unfold_locales (auto intro: chat_event_inv ghost_event)

lemma leaving_script_run:
  assumes "\<not> logged_in sid s" "Presence.get sid (ch_presence s) = None"
    and hello: "is_object hello" "validateUsername (get_field hello (js ''username'')) = Inr (Inr u)"
      "string_field hello (js ''publicKey'') = Some pk" "pk \<noteq> []"
    and existing: "\<And>e. existing = Some e \<Longrightarrow> s_publicKey e = pk"
    and evidence: "string_field evidence (js ''signature'') = Some sig"
      "verifyBytes ec (from_base64 (createChallenge random)) sig pk" "ended \<le> began + CHALLENGE_TTL_MS"
    and free: "\<not> isUsernameTaken u (ch_presence s)"
  shows "\<exists>d p h. run_events (chat_apply ec g key) s
      (leaving_script (length (ch_waiting s)) sid hello existing random evidence began ended)
    = s\<lparr>ch_sockets := (ch_sockets s)(sid := d), ch_presence := add sid u (ch_presence s), ch_limiter := h,
        ch_waiting := ch_waiting s @ [(sid, RegisterSender p)],
        ch_out := ch_out s @ [ToSocket sid (AuthChallenge (createChallenge random))]\<rparr>"
proof -
  let ?ws = "ch_waiting s"
  let ?p = "\<lparr>pa_username = u, pa_publicKey = pk, pa_challenge = createChallenge random,
      pa_expiresAt = began + CHALLENGE_TTL_MS\<rparr>"
  let ?out = "ch_out s @ [ToSocket sid (AuthChallenge (createChallenge random))]"
  let ?s1 = "s\<lparr>ch_waiting := ?ws @ [(sid, FindSender u pk)]\<rparr>"
  have 1: "chat_apply ec g key s (EAuthStart sid hello) = ?s1"
    using assms(1) hello by (cases pk) (simp_all add: auth_start_def await_def)
  let ?s2 = "s\<lparr>ch_sockets := (ch_sockets s)(sid := (ch_sockets s sid)\<lparr>sd_pendingAuth := Some ?p\<rparr>), ch_out := ?out\<rparr>"
  have 2: "chat_apply ec g key ?s1 (EAnswer (length ?ws) (SenderAnswer (Some existing) random began)) = ?s2"
    using existing by (simp add: sender_found_def Let_def emit_def set_data_def split: option.split)
  let ?d3 = "(ch_sockets s sid)\<lparr>sd_pendingAuth := None\<rparr>"
  let ?s3 = "s\<lparr>ch_sockets := (ch_sockets s)(sid := ?d3), ch_out := ?out, ch_waiting := ?ws @ [(sid, VerifyLogin ?p sig)]\<rparr>"
  have "\<not> logged_in sid ?s2" using assms(1) by (simp add: logged_in_def)
  then have 3: "chat_apply ec g key ?s2 (EAuthResponse sid evidence ended) = ?s3"
    using evidence(1,3) by (simp add: auth_response_def Let_def set_data_def await_def)
  let ?s4 = "?s3\<lparr>ch_limiter := clear sid (ch_limiter s)\<rparr>"
  have "AList.delete sid (usersBySocketId (ch_presence s)) = usersBySocketId (ch_presence s)"
    using assms(2) by (simp add: Presence.get_def delete_id map_of_eq_None_iff)
  then have 4: "chat_apply ec g key ?s3 (EDisconnect sid ended) = ?s4"
    using assms(2) by (simp add: disconnect_def Presence.remove_def Let_def)
  let ?d5 = "?d3\<lparr>sd_username := Some u, sd_publicKey := Some pk\<rparr>"
  have 5: "chat_apply ec g key ?s4 (EAnswer (length ?ws) (Checked [] ended)) =
      s\<lparr>ch_sockets := (ch_sockets s)(sid := ?d5), ch_presence := add sid u (ch_presence s), ch_limiter := clear sid (ch_limiter s),
        ch_waiting := ?ws @ [(sid, RegisterSender ?p)], ch_out := ?out\<rparr>"
    using evidence(2) free by (simp add: login_verified_def admit_def set_data_def await_def)
  show ?thesis unfolding leaving_script_def run_events.simps 1 2 3 4 5 by blast
qed

section \<open>Properties\<close>

text \<open>
  C23: Whoever leaves too early stays for ever. A client that sends a valid answer to its challenge and
  disconnects before the answer is verified is listed as online from then on, whatever happens
  afterwards on the server (the socket itself being gone); every later login under its name, with
  the right key and a correct signature, is refused as already taken.
\<close>

theorem early_leaver_blocks_name:
  assumes law: "ecdsa_law ec attested" and s: "s = chat_run ec g key es0"
    and new: "\<not> logged_in sid s" "Presence.get sid (ch_presence s) = None" "\<forall>w. (sid, w) \<notin> set (ch_waiting s)"
    and hello: "is_object hello" "validateUsername (get_field hello (js ''username'')) = Inr (Inr u)"
      "string_field hello (js ''publicKey'') = Some pk" "pk \<noteq> []"
    and existing: "\<And>e. existing = Some e \<Longrightarrow> s_publicKey e = pk"
    and evidence: "string_field evidence (js ''signature'') = Some sig"
      "verifyBytes ec (from_base64 (createChallenge random)) sig pk" "ended \<le> began + CHALLENGE_TTL_MS"
    and free: "\<not> isUsernameTaken u (ch_presence s)"
    and gone: "list_all (\<lambda>e. event_socket e \<noteq> Some sid) later"
    and s': "s' = run_events (chat_apply ec g key) s
      (leaving_script (length (ch_waiting s)) sid hello existing random evidence began ended @ later)"
  shows "u \<in> set (list_users (ch_presence s'))
    \<and> (\<forall>sid' p now. pa_username p = u \<longrightarrow>
         login_verified sid' p True now s' = emit [ToSocket sid' (JoinError NameTaken)] s')"
proof -
  obtain d p h where left: "run_events (chat_apply ec g key) s
      (leaving_script (length (ch_waiting s)) sid hello existing random evidence began ended)
    = s\<lparr>ch_sockets := (ch_sockets s)(sid := d), ch_presence := add sid u (ch_presence s), ch_limiter := h,
        ch_waiting := ch_waiting s @ [(sid, RegisterSender p)],
        ch_out := ch_out s @ [ToSocket sid (AuthChallenge (createChallenge random))]\<rparr>" (is "?run = ?left")
    using leaving_script_run[OF new(1,2) hello existing evidence free] by blast
  have "?left = chat_run ec g key (es0 @ leaving_script (length (ch_waiting s)) sid hello existing random evidence began ended)"
    unfolding left[symmetric] by (simp add: s chat_run_def run_events_append)
  then have "chat_inv ec attested ?left" using chat_run_inv[OF law] by simp
  moreover have "ghost sid u ?left" using new(3) by (auto simp: ghost_def add_def Presence.get_def)
  ultimately have "chat_inv ec attested s' \<and> ghost sid u s'"
    using haunted.inv_run[OF _ gone, where ec = ec and att = attested and u = u and s = ?left and g = g and key = key] law by (simp add: s' run_events_append left)
  then have inv: "presence_inv (ch_presence s')" and get: "Presence.get sid (ch_presence s') = Some u"
    by (simp_all add: chat_inv_def ghost_def)
  then have mem: "(sid, u) \<in> set (usersBySocketId (ch_presence s'))" by (simp add: Presence.get_def map_of_SomeD)
  have u: "js_trim u = u" "u \<noteq> []" using good_name_valid[OF hello(2)] good_name_nonempty by (auto simp: good_name_def)
  have "isUsernameTaken u (ch_presence s')" using mem taken_iff[OF u] by auto
  then have "login_verified sid' p True now s' = emit [ToSocket sid' (JoinError NameTaken)] s'" if "pa_username p = u" for sid' p now
    using that admit_taken[OF inv u] by (simp add: login_verified_def)
  moreover have "u \<in> set (list_users (ch_presence s'))" using mem by (force simp: list_users_def)
  ultimately show ?thesis by blast
qed

theorem early_leaver_blocks_name_witness:
  "thor \<in> set (list_users (ch_presence (run_events (chat_apply echo_ecdsa plain_gcm []) new_chat
     (leaving_script 0 [1] (hello_of thor key1) None [7] (evidence_of key1) 1000 1500 @ [EAnswer 0 (Stored True), EDisconnect [2] 9]))))"
proof -
  have run: "new_chat = chat_run echo_ecdsa plain_gcm [] []" by (simp add: chat_run_def)
  have nobody: "Presence.get [1] new_Presence = None" by (simp add: Presence.get_def new_Presence_def)
  have none: "\<And>e. None = Some e \<Longrightarrow> s_publicKey e = key1" by simp
  from early_leaver_blocks_name[OF echo_law run, where sid = "[1]" and hello = "hello_of thor key1" and evidence = "evidence_of key1"
      and existing = None and random = "[7]" and began = 1000 and ended = 1500 and later = "[EAnswer 0 (Stored True), EDisconnect [2] 9]",
      OF _ _ _ talk_fields(1) _ talk_fields(3) literals(2) none talk_fields(4) echo_verifies(1) _ _ _ refl]
  show ?thesis by (simp add: nobody thor_valid talk_simps del: js_Cons)
qed

end
