(* ===== verification/Database.thy ===== *)
theory Database
  imports Messages Js_Numbers
begin

text \<open>
  \<open>src/db/index.js\<close>: the connection that the module holds, the settings it is opened with, and the
  indexes. The driver's answers (whether the connection and the two index commands succeed) are
  arguments; connections are numbered as they are made, and \<open>dm_live\<close> are those not closed yet.
\<close>

section \<open>Settings\<close>

definition DEFAULT_DB_NAME :: jsstr where
  "DEFAULT_DB_NAME = js ''csd_group_chat''"

datatype db_error = UriMissing | ConnectFailed | IndexFailed | NotConnected

definition readUri :: "jsstr option \<Rightarrow> db_error + jsstr" where
  "readUri env =
     (let uri = js_trim (case env of None \<Rightarrow> [] | Some t \<Rightarrow> t)
      in if uri = [] then Inl UriMissing else Inr uri)"

text \<open>\<open>String(process.env.MONGODB_DB_NAME || '').trim() || DEFAULT_DB_NAME\<close>.\<close>

definition database_name :: "jsstr option \<Rightarrow> jsstr" where
  "database_name env =
     (let name = js_trim (case env of None \<Rightarrow> [] | Some t \<Rightarrow> t)
      in if name = [] then DEFAULT_DB_NAME else name)"

record client_options =
  co_serverSelectionTimeoutMS :: int
  co_maxPoolSize :: numeric
  co_minPoolSize :: int
  co_writeConcern :: "int \<times> bool"

definition client_options_for :: "jsstr option \<Rightarrow> client_options" where
  "client_options_for poolSize =
     \<lparr>co_serverSelectionTimeoutMS = 10000,
      co_maxPoolSize = (case env_number poolSize of None \<Rightarrow> Num 6 | Some n \<Rightarrow> n),
      co_minPoolSize = 1, co_writeConcern = (1, False)\<rparr>"

section \<open>Indexes\<close>

record index_spec =
  ix_name :: "jsstr option"
  ix_key :: "(jsstr \<times> int) list"
  ix_unique :: bool
  ix_strings_only :: bool

definition room_index :: index_spec where
  "room_index = \<lparr>ix_name = None, ix_key = [(js ''roomId'', 1), (js ''_id'', 1)], ix_unique = False,
     ix_strings_only = False\<rparr>"

definition msgId_index :: index_spec where
  "msgId_index = \<lparr>ix_name = Some (js ''msgId_unique''), ix_key = [(js ''msgId'', 1)], ix_unique = True,
     ix_strings_only = True\<rparr>"

text \<open>\<open>createIndexes\<close>: two commands, the second only after the first; creating an index that is there
  changes nothing.\<close>

definition createIndexes :: "bool \<Rightarrow> bool \<Rightarrow> index_spec list \<Rightarrow> bool \<times> index_spec list" where
  "createIndexes first_ok second_ok held =
     (if \<not> first_ok then (False, held)
      else if \<not> second_ok then (False, List.insert room_index held)
      else (True, List.insert msgId_index (List.insert room_index held)))"

text \<open>What MongoDB documents of these indexes: a unique partial index refuses a document whose \<open>msgId\<close>
  is a string that another document has; without it every insert goes through.\<close>

definition msgId_taken :: "document list \<Rightarrow> jsstr \<Rightarrow> bool" where
  "msgId_taken docs i \<longleftrightarrow> (\<exists>d \<in> set docs. d_msgId d = Some i)"

definition insertOne :: "index_spec list \<Rightarrow> document \<Rightarrow> document list \<Rightarrow> bool \<times> document list" where
  "insertOne held doc docs =
     (case d_msgId doc of
        Some i \<Rightarrow> if msgId_index \<in> set held \<and> msgId_taken docs i then (False, docs) else (True, docs @ [doc])
      | None \<Rightarrow> (True, docs @ [doc]))"

section \<open>The module\<close>

record db_module =
  dm_client :: "nat option"
  dm_db :: "jsstr option"
  dm_made :: nat
  dm_live :: "nat list"
  dm_indexes :: "index_spec list"

definition new_db_module :: "index_spec list \<Rightarrow> db_module" where
  "new_db_module held = \<lparr>dm_client = None, dm_db = None, dm_made = 0, dm_live = [], dm_indexes = held\<rparr>"

record connect_answers =
  ca_connected :: bool
  ca_first_index :: bool
  ca_second_index :: bool

definition connect ::
  "jsstr option \<Rightarrow> jsstr option \<Rightarrow> connect_answers \<Rightarrow> db_module \<Rightarrow> (db_error + jsstr) \<times> db_module" where
  "connect env_uri env_name a m =
     (case dm_db m of
        Some db \<Rightarrow> (Inr db, m)
      | None \<Rightarrow>
          (case readUri env_uri of
             Inl e \<Rightarrow> (Inl e, m)
           | Inr uri \<Rightarrow>
               let name = database_name env_name;
                   m1 = m\<lparr>dm_client := Some (dm_made m), dm_made := Suc (dm_made m)\<rparr>
               in if \<not> ca_connected a then (Inl ConnectFailed, m1)
                  else
                    let m2 = m1\<lparr>dm_db := Some name, dm_live := dm_made m # dm_live m\<rparr>;
                        (ok, held) = createIndexes (ca_first_index a) (ca_second_index a) (dm_indexes m);
                        m3 = m2\<lparr>dm_indexes := held\<rparr>
                    in if ok then (Inr name, m3) else (Inl IndexFailed, m3)))"

definition getDb :: "db_module \<Rightarrow> db_error + jsstr" where
  "getDb m = (case dm_db m of None \<Rightarrow> Inl NotConnected | Some db \<Rightarrow> Inr db)"

text \<open>\<open>close\<close> when the driver's \<open>close\<close> resolves; otherwise nothing is reset.\<close>

definition close_db :: "bool \<Rightarrow> db_module \<Rightarrow> bool \<times> db_module" where
  "close_db resolves m =
     (case dm_client m of
        None \<Rightarrow> (True, m)
      | Some c \<Rightarrow>
          if \<not> resolves then (False, m)
          else (True, m\<lparr>dm_client := None, dm_db := None, dm_live := removeAll c (dm_live m)\<rparr>))"

section \<open>Calls in any order\<close>

datatype db_call = CallConnect connect_answers | CallClose bool

fun db_apply :: "jsstr option \<Rightarrow> jsstr option \<Rightarrow> db_module \<Rightarrow> db_call \<Rightarrow> db_module" where
  "db_apply uri name m (CallConnect a) = snd (connect uri name a m)"
| "db_apply uri name m (CallClose ok) = snd (close_db ok m)"

text \<open>An open database belongs to the client that is held, and no connection is left behind.\<close>

definition db_ok :: "db_module \<Rightarrow> bool" where
  "db_ok m \<longleftrightarrow> dm_live m = (case dm_db m of None \<Rightarrow> [] | Some d \<Rightarrow> [the (dm_client m)])
     \<and> (dm_db m \<noteq> None \<longrightarrow> dm_client m \<noteq> None)"

lemma db_apply_ok: "db_ok m \<Longrightarrow> db_ok (db_apply uri name m c)"
  by (cases c) (auto simp: db_ok_def connect_def close_db_def Let_def case_prod_beta' readUri_def split: option.splits sum.splits if_splits)

interpretation db: event_invariant "db_apply uri name" "\<lambda>c. True" db_ok for uri name
  by unfold_locales (rule db_apply_ok)

lemma createIndexes_keeps: "i \<in> set held \<Longrightarrow> i \<in> set (snd (createIndexes f s held))"
  by (simp add: createIndexes_def)

lemma insertOne_distinct:
  assumes "msgId_index \<in> set held" and "distinct (List.map_filter d_msgId docs)"
  shows "distinct (List.map_filter d_msgId (snd (insertOne held doc docs)))"
proof -
  have mf: "List.map_filter d_msgId (xs @ [doc]) = List.map_filter d_msgId xs @ List.map_filter d_msgId [doc]" for xs
    by (simp add: map_filter_def)
  have "set (List.map_filter d_msgId docs) = {i. msgId_taken docs i}"
    by (force simp: map_filter_def msgId_taken_def)
  then show ?thesis using assms mf[of docs]
    by (auto simp: insertOne_def map_filter_simps split: option.splits)
qed

section \<open>Properties\<close>

text \<open>
  The module never hands out a database that is not open. After any sequence of calls, with any
  answers of the driver, at most one connection is open and it is the one the module holds;
  \<open>getDb\<close> succeeds exactly while it is open, and then names the database that \<open>connect\<close> was
  configured with or an earlier one; \<open>connect\<close> on an open module is that database at once.
\<close>

theorem database_open_when_handed_out:
  assumes "m = run_events (db_apply uri name) (new_db_module held) calls"
  shows "length (dm_live m) \<le> 1 \<and> ((\<exists>d. getDb m = Inr d) \<longleftrightarrow> dm_live m \<noteq> [])
    \<and> (case getDb m of Inr d \<Rightarrow> connect uri name a m = (Inr d, m) \<and> dm_live (snd (close_db True m)) = []
        | Inl e \<Rightarrow> e = NotConnected)"
proof -
  have "list_all (\<lambda>c. True) calls" by (induction calls) auto
  moreover have "db_ok (new_db_module held)" by (simp add: db_ok_def new_db_module_def)
  ultimately have "db_ok m" unfolding assms by (intro db.inv_run)
  then show ?thesis by (auto simp: db_ok_def getDb_def connect_def close_db_def split: option.splits)
qed

theorem database_open_when_handed_out_witness:
  "length (dm_live (run_events (db_apply (Some [109]) None) (new_db_module [])
     [CallConnect \<lparr>ca_connected = True, ca_first_index = True, ca_second_index = False\<rparr>, CallConnect
       \<lparr>ca_connected = True, ca_first_index = True, ca_second_index = True\<rparr>])) \<le> 1"
  using database_open_when_handed_out[OF refl] by blast

text \<open>
  \<open>connect\<close> can succeed without the indexes. If an index command fails, \<open>connect\<close> fails, but the
  database is held already; the next \<open>connect\<close> returns it without creating anything, and
  duplicates of a message id are then accepted.
\<close>

theorem connect_without_indexes:
  assumes "readUri uri = Inr u" and "d_msgId doc = Some i"
    and "connect uri name \<lparr>ca_connected = True, ca_first_index = True, ca_second_index = False\<rparr> (new_db_module []) = (r, m)"
  shows "r = Inl IndexFailed \<and> connect uri name a m = (Inr (database_name name), m)
    \<and> insertOne (dm_indexes m) doc [doc] = (True, [doc, doc])"
proof -
  have "room_index \<noteq> msgId_index" by (simp add: room_index_def msgId_index_def)
  then show ?thesis using assms
    by (auto simp: connect_def new_db_module_def createIndexes_def insertOne_def Let_def)
qed

theorem connect_without_indexes_witness:
  "insertOne [room_index] (sample_doc 1\<lparr>d_msgId := Some [65]\<rparr>) [sample_doc 1\<lparr>d_msgId := Some [65]\<rparr>]
    = (True, [sample_doc 1\<lparr>d_msgId := Some [65]\<rparr>, sample_doc 1\<lparr>d_msgId := Some [65]\<rparr>])"
proof -
  have u: "readUri (Some [109]) = Inr [109]" by (simp add: readUri_def js_trim_def is_js_space_def)
  have c: "connect (Some [109]) None \<lparr>ca_connected = True, ca_first_index = True, ca_second_index = False\<rparr> (new_db_module [])
    = (Inl IndexFailed, \<lparr>dm_client = Some 0, dm_db = Some (database_name None), dm_made = 1, dm_live = [0], dm_indexes = [room_index]\<rparr>)"
    using u by (simp add: connect_def new_db_module_def createIndexes_def)
  show ?thesis
    using connect_without_indexes[OF u _ c, of "sample_doc 1\<lparr>d_msgId := Some [65]\<rparr>" "[65]"] by simp
qed

end
