(* ===== verification/Replicas.thy ===== *)
theory Replicas
  imports Router Database FeedSync Chat_Runs
begin

text \<open>
  The deployment: several backends run \<open>server/\<close> against one database, and each hears of the others'
  messages through its change stream. A message is posted to one backend; its document is
  written under the unique index; the backend adds it to its own feed when the write is answered;
  every backend's stream delivers every document in commit order. A message of the chat is saved
  in the same collection and reaches the feeds through the streams alone. All of this interleaves
  freely.
\<close>

section \<open>The cluster\<close>

text \<open>A string goes into the database as UTF-8: a lone surrogate comes back as U+FFFD.\<close>

definition bson :: "document \<Rightarrow> document" where
  "bson d = d\<lparr>d_msgId := map_option to_well_formed (d_msgId d), d_senderId := to_well_formed (d_senderId d)\<rparr>"

text \<open>What happens to a write: it is answered, its answer is lost although the document is stored, or
  it fails without a trace.\<close>

datatype fate = Answered | AnswerLost | NotWritten

datatype cluster_event =
    CPost nat fresh_values request fate
  | CFinish nat
  | CSaid "byte list" objectid jsstr millis draft fate
  | CDeliver nat millis

record 'z cluster =
  cl_docs :: "document list"
  cl_stores :: "nat \<Rightarrow> 'z logged"
  cl_pos :: "nat \<Rightarrow> nat"
  cl_pending :: "(nat \<times> accepted \<times> bool) list"

definition new_cluster :: "'z deflater \<Rightarrow> nat \<Rightarrow> 'z cluster" where
  "new_cluster df maxEntries =
     \<lparr>cl_docs = [], cl_stores = (\<lambda>r. (new_FeedStore df maxEntries ROOM_ID, [])), cl_pos = (\<lambda>r. 0), cl_pending = []\<rparr>"

definition post :: "gcm \<Rightarrow> byte list \<Rightarrow> nat \<Rightarrow> fresh_values \<Rightarrow> request \<Rightarrow> fate \<Rightarrow> 'z cluster \<Rightarrow> 'z cluster" where
  "post g key r fv req how c =
     (case accept_message g key fv req of
        Inr (Inr a) \<Rightarrow>
          (case how of
             NotWritten \<Rightarrow> c
           | _ \<Rightarrow>
               let (stored, docs) = insertOne [room_index, msgId_index] (bson (ac_document a)) (cl_docs c)
               in c\<lparr>cl_docs := docs,
                    cl_pending := cl_pending c @ (if how = Answered then [(r, a, \<not> stored)] else [])\<rparr>)
      | _ \<Rightarrow> c)"

text \<open>A chat message was verified and is saved, by whichever backend: \<open>Chat_Runs.document_of\<close> is the
  document that \<open>saveMessage\<close> inserts. The handler leaves the feed alone.\<close>

definition save_chat :: "gcm \<Rightarrow> byte list \<Rightarrow> byte list \<Rightarrow> objectid \<Rightarrow> jsstr \<Rightarrow> millis \<Rightarrow> draft \<Rightarrow> fate \<Rightarrow> 'z cluster \<Rightarrow> 'z cluster" where
  "save_chat g key nonce oid uuid stored d how c =
     (if how = NotWritten then c
      else c\<lparr>cl_docs := snd (insertOne [room_index, msgId_index] (bson (document_of g key nonce oid uuid stored d)) (cl_docs c))\<rparr>)"

definition finish :: "'z deflater \<Rightarrow> nat \<Rightarrow> 'z cluster \<Rightarrow> 'z cluster" where
  "finish df i c =
     (if length (cl_pending c) \<le> i then c
      else (case cl_pending c ! i of
          (r, a, duplicate) \<Rightarrow>
            let (s, hist) = cl_stores c r;
                m = local_message (ac_id a) (ac_client a) (ac_text a) (ac_ts a)
            in c\<lparr>cl_pending := take i (cl_pending c) @ drop (Suc i) (cl_pending c),
                 cl_stores := (cl_stores c)(r := (snd (finish_message df [] a (Resolved duplicate) s),
                   if ac_id a \<in> fs_seen s then hist else hist @ [m]))\<rparr>))"

definition hear :: "'z deflater \<Rightarrow> gcm \<Rightarrow> byte list \<Rightarrow> nat \<Rightarrow> millis \<Rightarrow> 'z cluster \<Rightarrow> 'z cluster" where
  "hear df g key r now c =
     (if length (cl_docs c) \<le> cl_pos c r then c
      else
        let doc = cl_docs c ! cl_pos c r;
            c1 = c\<lparr>cl_pos := (cl_pos c)(r := Suc (cl_pos c r))\<rparr>
        in if d_roomId doc \<noteq> ROOM_ID then c1
           else c1\<lparr>cl_stores := (cl_stores c)(r := feed_apply df g key (cl_stores c r) (FDocument now doc))\<rparr>)"

fun cluster_apply :: "'z deflater \<Rightarrow> gcm \<Rightarrow> byte list \<Rightarrow> 'z cluster \<Rightarrow> cluster_event \<Rightarrow> 'z cluster" where
  "cluster_apply df g key c (CPost r fv req how) = post g key r fv req how c"
| "cluster_apply df g key c (CFinish i) = finish df i c"
| "cluster_apply df g key c (CSaid nonce oid uuid stored d how) = save_chat g key nonce oid uuid stored d how c"
| "cluster_apply df g key c (CDeliver r now) = hear df g key r now c"

definition cluster_run :: "'z deflater \<Rightarrow> gcm \<Rightarrow> byte list \<Rightarrow> nat \<Rightarrow> cluster_event list \<Rightarrow> 'z cluster" where
  "cluster_run df g key maxEntries es = run_events (cluster_apply df g key) (new_cluster df maxEntries) es"

text \<open>The stream of this backend has delivered everything.\<close>

definition caught_up :: "nat \<Rightarrow> 'z cluster \<Rightarrow> bool" where
  "caught_up r c \<longleftrightarrow> cl_pos c r = length (cl_docs c)"

text \<open>The messages that a run brings, in order, and the condition on each: the randomness has its size,
  and the strings survive the database.\<close>

definition message_of_accepted :: "accepted \<Rightarrow> feed_message" where
  "message_of_accepted a = local_message (ac_id a) (ac_client a) (ac_text a) (ac_ts a)"

definition said_message :: "jsstr \<Rightarrow> millis \<Rightarrow> draft \<Rightarrow> feed_message" where
  "said_message uuid stored d = local_message uuid (dr_username d) (dr_text d) stored"

fun posted :: "gcm \<Rightarrow> byte list \<Rightarrow> cluster_event list \<Rightarrow> feed_message list" where
  "posted g key [] = []"
| "posted g key (CPost r fv req how # es) =
     (case accept_message g key fv req of Inr (Inr a) \<Rightarrow> message_of_accepted a # posted g key es | _ \<Rightarrow> posted g key es)"
| "posted g key (CSaid nonce oid uuid stored d how # es) = said_message uuid stored d # posted g key es"
| "posted g key (e # es) = posted g key es"

definition survives :: "accepted \<Rightarrow> bool" where
  "survives a \<longleftrightarrow> well_formed (ac_id a) \<and> well_formed (ac_client a) \<and> well_formed (ac_text a)"

fun good_post :: "gcm \<Rightarrow> byte list \<Rightarrow> cluster_event \<Rightarrow> bool" where
  "good_post g key (CPost r fv req how) =
     (length (fv_nonce fv) = NONCE_BYTES \<and> fv_uuid fv \<noteq> []
      \<and> (case accept_message g key fv req of Inr (Inr a) \<Rightarrow> survives a | _ \<Rightarrow> True))"
| "good_post g key (CSaid nonce oid uuid stored d how) =
     (length nonce = NONCE_BYTES \<and> uuid \<noteq> [] \<and> well_formed uuid \<and> well_formed (dr_username d) \<and> well_formed (dr_text d))"
| "good_post g key e = True"

section \<open>Every backend hears the same messages\<close>

text \<open>\<open>M\<close> are the messages that may be shown, \<open>K\<close> the ids of the documents.\<close>

definition replica_ok :: "'z deflater \<Rightarrow> nat \<Rightarrow> feed_message set \<Rightarrow> document list \<Rightarrow> nat \<Rightarrow> 'z logged \<Rightarrow> bool" where
  "replica_ok df cap M docs pos sh \<longleftrightarrow> run_ok df sh \<and> fs_maxEntries (fst sh) = cap \<and> set (snd sh) \<subseteq> M
     \<and> fm_id ` set (snd sh) \<subseteq> document_key ` set docs
     \<and> (length docs \<le> cap \<longrightarrow> fs_dropped (fst sh) = 0)
     \<and> pos \<le> length docs \<and> document_key ` set (take pos docs) \<subseteq> fm_id ` set (snd sh)"

definition cluster_ok :: "'z deflater \<Rightarrow> gcm \<Rightarrow> byte list \<Rightarrow> nat \<Rightarrow> feed_message set \<Rightarrow> 'z cluster \<Rightarrow> bool" where
  "cluster_ok df g key cap M c \<longleftrightarrow>
     (\<forall>r. replica_ok df cap M (cl_docs c) (cl_pos c r) (cl_stores c r))
     \<and> (\<forall>d \<in> set (cl_docs c). d_roomId d = ROOM_ID \<and> (\<exists>i. d_msgId d = Some i \<and> i \<noteq> []) \<and> (\<forall>now. message_of g key now d \<in> M))
     \<and> distinct (map document_key (cl_docs c))
     \<and> (\<forall>(r, a, dup) \<in> set (cl_pending c). message_of_accepted a \<in> M \<and> ac_id a \<in> document_key ` set (cl_docs c))"

lemma push_maxEntries [simp]: "fs_maxEntries (snd (push df i j s)) = fs_maxEntries s"
  by (simp add: push_def trim_def Let_def)

lemma log_if_push:
  "log_if m hist (push df (fm_id m) (entry_of m) s) =
     (snd (push df (fm_id m) (entry_of m) s), if fm_id m \<in> fs_seen s then hist else hist @ [m])"
  by (simp add: log_if_def push_def Let_def)

lemma message_of_id [simp]: "fm_id (message_of g key now doc) = document_key doc"
  by (simp add: message_of_def Let_def)

lemma message_of_accepted_id [simp]: "fm_id (message_of_accepted a) = ac_id a"
  by (simp add: message_of_accepted_def local_message_def)

text \<open>What an event changes of the collection and of the streams' positions.\<close>

definition advance :: "nat \<Rightarrow> nat \<Rightarrow> nat" where
  "advance n p = (if n \<le> p then p else Suc p)"

lemma cluster_fields:
  "cl_docs (finish df i c) = cl_docs c" "cl_pos (finish df i c) = cl_pos c" "cl_docs (hear df g key r now c) = cl_docs c"
  "cl_pos (hear df g key r now c) q = (if q = r then advance (length (cl_docs c)) (cl_pos c r) else cl_pos c q)"
  "cl_pos (post g key r fv req how c) = cl_pos c" "cl_pos (save_chat g key nonce oid uuid stored d how c) = cl_pos c"
  "cl_docs (save_chat g key nonce oid uuid stored d how c) = (if how = NotWritten then cl_docs c
     else snd (insertOne [room_index, msgId_index] (bson (document_of g key nonce oid uuid stored d)) (cl_docs c)))"
  "cl_docs (post g key r fv req how c) = (case accept_message g key fv req of
      Inr (Inr a) \<Rightarrow> if how = NotWritten then cl_docs c
        else snd (insertOne [room_index, msgId_index] (bson (ac_document a)) (cl_docs c))
    | _ \<Rightarrow> cl_docs c)"
  by (auto simp: finish_def hear_def post_def save_chat_def advance_def Let_def split: prod.splits sum.splits fate.splits)

lemma run_ok_ids:
  "run_ok df (s, hist) \<Longrightarrow> fs_dropped s = 0 \<Longrightarrow>
     distinct (map fm_id hist) \<and> fs_seen s = fm_id ` set hist \<and> fs_entries s = map entry_of hist \<and> fs_ids s = map fm_id hist"
  by (auto simp: run_ok_def store_ok_def ids_ok_def log_ok_def)

lemma run_ok_seen: "run_ok df (s, hist) \<Longrightarrow> fs_seen s \<subseteq> fm_id ` set hist"
  by (auto simp: run_ok_def store_ok_def ids_ok_def log_ok_def dest: in_set_dropD)

text \<open>A message under a known id, heard by whichever route.\<close>

lemma receive_ok:
  assumes ok: "replica_ok df cap M docs pos (s, hist)" and m: "m \<in> M" "fm_id m \<in> document_key ` set docs"
  shows "replica_ok df cap M docs pos (log_if m hist (push df (fm_id m) (entry_of m) s))"
    and "fm_id m \<in> fm_id ` set (snd (log_if m hist (push df (fm_id m) (entry_of m) s)))"
proof -
  let ?r = "log_if m hist (push df (fm_id m) (entry_of m) s)"
  have run: "run_ok df (s, hist)" and cap: "fs_maxEntries s = cap" using ok by (simp_all add: replica_ok_def)
  have run': "run_ok df ?r" using run push_log[of df s hist m] by (simp add: run_ok_def)
  have drop: "fs_dropped (snd (push df (fm_id m) (entry_of m) s)) = 0" if len: "length docs \<le> cap"
  proof (cases "fm_id m \<in> fs_seen s")
    case True
    then show ?thesis using ok len by (simp add: replica_ok_def push_def)
  next
    case False
    have d0: "fs_dropped s = 0" using ok len by (simp add: replica_ok_def)
    note ids = run_ok_ids[OF run d0]
    have "card (insert (fm_id m) (fm_id ` set hist)) \<le> card (document_key ` set docs)"
      using ok m(2) by (intro card_mono) (auto simp: replica_ok_def)
    also have "\<dots> \<le> length docs" by (metis card_length set_map length_map)
    finally have "Suc (card (fm_id ` set hist)) \<le> length docs" using False ids by simp
    moreover have "card (fm_id ` set hist) = length hist" using ids distinct_card[of "map fm_id hist"] by simp
    ultimately have "length (fs_entries s) < cap" using len ids by simp
    moreover have "cap \<le> fs_trimAt s" using run cap trim_at_ge by (simp add: run_ok_def store_ok_def cap_ok_def)
    ultimately show ?thesis using False d0 by (simp add: push_def Let_def)
  qed
  show "replica_ok df cap M docs pos ?r"
    using ok m run' drop unfolding log_if_push replica_ok_def by auto
  show "fm_id m \<in> fm_id ` set (snd ?r)"
    using run_ok_seen[OF run] unfolding log_if_push by auto
qed

lemma finish_store:
  "snd (finish_message df n a (Resolved dup) s) = snd (push df (ac_id a) (entry_of (message_of_accepted a)) s)"
  by (simp add: finish_message_def addLocal_push message_of_accepted_def local_message_def)

lemma finish_ok: "cluster_ok df g key cap M c \<Longrightarrow> cluster_ok df g key cap M (finish df i c)"
proof (cases "length (cl_pending c) \<le> i")
  case False
  assume ok: "cluster_ok df g key cap M c"
  obtain r a dup where p: "cl_pending c ! i = (r, a, dup)" by (cases "cl_pending c ! i")
  obtain s hist where sh: "cl_stores c r = (s, hist)" by fastforce
  let ?m = "message_of_accepted a"
  have in_set: "(r, a, dup) \<in> set (cl_pending c)" using p False by (metis not_le nth_mem)
  then have m: "?m \<in> M" "fm_id ?m \<in> document_key ` set (cl_docs c)"
    using ok by (auto simp: cluster_ok_def message_of_accepted_def local_message_def)
  have rep: "replica_ok df cap M (cl_docs c) (cl_pos c r) (s, hist)" using ok sh by (metis cluster_ok_def)
  have "finish df i c = c\<lparr>cl_pending := take i (cl_pending c) @ drop (Suc i) (cl_pending c),
      cl_stores := (cl_stores c)(r := log_if ?m hist (push df (fm_id ?m) (entry_of ?m) s))\<rparr>"
    unfolding log_if_push using False p sh by (simp add: finish_def finish_store Let_def message_of_accepted_def[symmetric])
  moreover have "set (take i (cl_pending c) @ drop (Suc i) (cl_pending c)) \<subseteq> set (cl_pending c)"
    by (auto dest: in_set_takeD in_set_dropD)
  ultimately show ?thesis using ok receive_ok(1)[OF rep m] by (auto simp: cluster_ok_def)
qed (simp add: finish_def)

lemma hear_ok: "cluster_ok df g key cap M c \<Longrightarrow> cluster_ok df g key cap M (hear df g key r now c)"
proof (cases "length (cl_docs c) \<le> cl_pos c r")
  case False
  assume ok: "cluster_ok df g key cap M c"
  let ?d = "cl_docs c ! cl_pos c r"
  obtain s hist where sh: "cl_stores c r = (s, hist)" by fastforce
  have d: "?d \<in> set (cl_docs c)" using False by simp
  let ?m = "message_of g key now ?d"
  have m: "?m \<in> M" "fm_id ?m \<in> document_key ` set (cl_docs c)" and room: "d_roomId ?d = ROOM_ID"
    using ok d by (auto simp: cluster_ok_def)
  have rep: "replica_ok df cap M (cl_docs c) (cl_pos c r) (s, hist)" using ok sh by (metis cluster_ok_def)
  let ?sh = "log_if ?m hist (push df (fm_id ?m) (entry_of ?m) s)"
  have h: "hear df g key r now c = c\<lparr>cl_pos := (cl_pos c)(r := Suc (cl_pos c r)), cl_stores := (cl_stores c)(r := ?sh)\<rparr>"
    using False sh room by (simp add: hear_def Let_def addDocument_push)
  have "take (Suc (cl_pos c r)) (cl_docs c) = take (cl_pos c r) (cl_docs c) @ [?d]"
    using False by (simp add: take_Suc_conv_app_nth)
  then have "replica_ok df cap M (cl_docs c) (Suc (cl_pos c r)) ?sh"
    using receive_ok[OF rep m] False by (auto simp: replica_ok_def)
  then show ?thesis using ok unfolding h by (auto simp: cluster_ok_def)
qed (simp add: hear_def)

lemma accepted_document:
  assumes law: "gcm_law g" "length key = KEY_BYTES" and a: "accept_message g key fv req = Inr (Inr a)"
    and fv: "length (fv_nonce fv) = NONCE_BYTES" "fv_uuid fv \<noteq> []" and wf: "survives a"
  shows "bson (ac_document a) = ac_document a" "d_roomId (ac_document a) = ROOM_ID" "d_msgId (ac_document a) = Some (ac_id a)"
    "ac_id a \<noteq> []" "document_key (ac_document a) = ac_id a"
    "message_of g key now (ac_document a) = message_of_accepted a"
proof -
  have d: "ac_document a = http_document g key fv (ac_id a) (ac_client a) (ac_text a)" and ts: "ac_ts a = fv_now fv"
    and i: "message_id req (fv_uuid fv) = Inr (ac_id a)"
    using accepted_cases[OF a] by auto
  show ne: "ac_id a \<noteq> []" using message_id_given[OF i fv(2)] .
  show "bson (ac_document a) = ac_document a" "d_roomId (ac_document a) = ROOM_ID" "d_msgId (ac_document a) = Some (ac_id a)"
    using wf unfolding d by (simp_all add: bson_def http_document_def Let_def survives_def to_well_formed_id)
  show "document_key (ac_document a) = ac_id a" unfolding d by (rule http_document_key[OF ne])
  show "message_of g key now (ac_document a) = message_of_accepted a"
    using http_document_message[OF law fv(1) ne] wf ts unfolding d
    by (simp add: message_of_accepted_def survives_def to_well_formed_id)
qed

lemma said_document:
  assumes law: "gcm_law g" "length key = KEY_BYTES" and good: "good_post g key (CSaid nonce oid uuid stored d how)"
  shows "bson (document_of g key nonce oid uuid stored d) = document_of g key nonce oid uuid stored d"
    "d_roomId (document_of g key nonce oid uuid stored d) = ROOM_ID" "d_msgId (document_of g key nonce oid uuid stored d) = Some uuid"
    "document_key (document_of g key nonce oid uuid stored d) = uuid"
    "message_of g key now (document_of g key nonce oid uuid stored d) = said_message uuid stored d"
proof -
  let ?doc = "document_of g key nonce oid uuid stored d"
  have size: "length nonce = NONCE_BYTES" and uuid: "uuid \<noteq> []" "well_formed uuid"
    and wf: "well_formed (dr_username d)" "well_formed (dr_text d)" using good by simp_all
  have parts: "d_roomId ?doc = CHAT_ROOM_ID" "d_msgId ?doc = Some uuid" "d_senderId ?doc = dr_username d" "d_timestamp ?doc = Some stored"
    "d_ciphertext ?doc = IsBuffer (sl_ciphertext (encrypt g key nonce (dr_text d)))" "d_nonce ?doc = IsBuffer nonce"
    by (simp_all add: document_of_def message_document_def draft_args_def Let_def buffer_or_null_def)
  show "bson ?doc = ?doc" using uuid wf parts by (simp add: bson_def to_well_formed_id)
  show "d_roomId ?doc = ROOM_ID" "d_msgId ?doc = Some uuid" using parts by (simp_all add: CHAT_ROOM_ID_def ROOM_ID_def)
  show k: "document_key ?doc = uuid" using uuid parts by (simp add: document_key_def)
  show "message_of g key now ?doc = said_message uuid stored d"
    using decrypt_encrypt[OF law size, of "dr_text d"] k parts wf
    by (simp add: message_of_def said_message_def local_message_def to_well_formed_id Let_def)
qed

lemma replica_ok_more:
  "replica_ok df cap M docs pos sh \<Longrightarrow> replica_ok df cap M (docs @ [d]) pos sh"
  by (auto simp: replica_ok_def)

text \<open>A document of the room whose message may be shown is written, or refused as a duplicate.\<close>

lemma insert_ok:
  assumes ok: "cluster_ok df g key cap M c"
    and doc: "d_roomId doc = ROOM_ID" "d_msgId doc = Some i" "i \<noteq> []" "\<And>now. message_of g key now doc \<in> M"
    and docs: "docs = snd (insertOne [room_index, msgId_index] doc (cl_docs c))"
  shows "cluster_ok df g key cap M (c\<lparr>cl_docs := docs\<rparr>)" and "i \<in> document_key ` set docs"
proof -
  have key: "document_key doc = i" using doc(2,3) by (simp add: document_key_def)
  have docs': "docs = (if msgId_taken (cl_docs c) i then cl_docs c else cl_docs c @ [doc])"
    unfolding docs by (simp add: insertOne_def doc)
  have "cluster_ok df g key cap M (c\<lparr>cl_docs := docs\<rparr>) \<and> i \<in> document_key ` set docs"
  proof (cases "msgId_taken (cl_docs c) i")
    case True
    then obtain e where "e \<in> set (cl_docs c)" "d_msgId e = Some i" by (auto simp: msgId_taken_def)
    then have "i \<in> document_key ` set (cl_docs c)" using doc(3) by (force simp: document_key_def)
    then show ?thesis using True docs' ok by simp
  next
    case False
    have new: "i \<notin> document_key ` set (cl_docs c)"
    proof
      assume "i \<in> document_key ` set (cl_docs c)"
      then obtain e where e: "e \<in> set (cl_docs c)" "document_key e = i" by auto
      then obtain j where "d_msgId e = Some j" "j \<noteq> []" using ok by (auto simp: cluster_ok_def)
      then show False using e False by (auto simp: document_key_def msgId_taken_def)
    qed
    have rep: "replica_ok df cap M (cl_docs c @ [doc]) (cl_pos c x) (cl_stores c x)" for x
      using ok by (intro replica_ok_more) (simp add: cluster_ok_def)
    have "\<forall>(r, b, dup) \<in> set (cl_pending c). message_of_accepted b \<in> M
        \<and> (ac_id b = i \<or> ac_id b \<in> document_key ` set (cl_docs c))"
      using ok by (auto simp: cluster_ok_def)
    then have "cluster_ok df g key cap M (c\<lparr>cl_docs := cl_docs c @ [doc]\<rparr>)"
      using ok doc new rep key by (simp add: cluster_ok_def ball_Un)
    then show ?thesis using False docs' key by simp
  qed
  then show "cluster_ok df g key cap M (c\<lparr>cl_docs := docs\<rparr>)" and "i \<in> document_key ` set docs" by simp_all
qed

lemma post_ok:
  assumes law: "gcm_law g" "length key = KEY_BYTES" and ok: "cluster_ok df g key cap M c"
    and good: "good_post g key (CPost r fv req how)"
    and M: "set (posted g key [CPost r fv req how]) \<subseteq> M"
  shows "cluster_ok df g key cap M (post g key r fv req how c)"
proof (cases "\<exists>a. accept_message g key fv req = Inr (Inr a) \<and> how \<noteq> NotWritten")
  case True
  then obtain a where a: "accept_message g key fv req = Inr (Inr a)" and how: "how \<noteq> NotWritten" by blast
  have g: "length (fv_nonce fv) = NONCE_BYTES" "fv_uuid fv \<noteq> []" "survives a" and m: "message_of_accepted a \<in> M"
    using good M a by auto
  note d = accepted_document[OF law a g]
  obtain stored docs where ins: "insertOne [room_index, msgId_index] (ac_document a) (cl_docs c) = (stored, docs)"
    by (cases "insertOne [room_index, msgId_index] (ac_document a) (cl_docs c)")
  have "cluster_ok df g key cap M (c\<lparr>cl_docs := docs\<rparr>)" "ac_id a \<in> document_key ` set docs"
    using insert_ok[OF ok d(2,3,4), of docs] d(6) m ins by simp_all
  moreover have "post g key r fv req how c = c\<lparr>cl_docs := docs,
      cl_pending := cl_pending c @ (if how = Answered then [(r, a, \<not> stored)] else [])\<rparr>"
    using a how d(1) ins by (cases how) (simp_all add: post_def)
  ultimately show ?thesis using m by (auto simp: cluster_ok_def)
next
  case False
  then show ?thesis using ok by (auto simp: post_def split: sum.splits)
qed

lemma said_ok:
  assumes law: "gcm_law g" "length key = KEY_BYTES" and ok: "cluster_ok df g key cap M c"
    and good: "good_post g key (CSaid nonce oid uuid stored d how)"
    and M: "set (posted g key [CSaid nonce oid uuid stored d how]) \<subseteq> M"
  shows "cluster_ok df g key cap M (save_chat g key nonce oid uuid stored d how c)"
proof -
  note doc = said_document[OF law good]
  have "uuid \<noteq> []" using good by simp
  then show ?thesis using insert_ok(1)[OF ok doc(2,3) _ _ refl] doc(1,5) M ok by (simp add: save_chat_def)
qed

text \<open>The invariant as a contract of events: what a post or a save brings is in \<open>M\<close>.\<close>

definition allowed_event :: "gcm \<Rightarrow> byte list \<Rightarrow> feed_message set \<Rightarrow> cluster_event \<Rightarrow> bool" where
  "allowed_event g key M e \<longleftrightarrow> gcm_law g \<and> length key = KEY_BYTES \<and> good_post g key e
     \<and> set (posted g key [e]) \<subseteq> M"

interpretation cluster: event_invariant "cluster_apply df g key" "allowed_event g key M" "cluster_ok df g key cap M"
  for df g key M cap
proof
  fix c :: "'a cluster" and e
  assume "cluster_ok df g key cap M c" "allowed_event g key M e"
  then show "cluster_ok df g key cap M (cluster_apply df g key c e)"
    by (cases e) (auto simp: allowed_event_def finish_ok hear_ok simp del: good_post.simps posted.simps intro!: post_ok said_ok)
qed

lemma new_cluster_ok: "1 \<le> cap \<Longrightarrow> cluster_ok df g key cap M (new_cluster df cap)"
  using run_ok_new[of cap df ROOM_ID]
  by (simp add: cluster_ok_def new_cluster_def replica_ok_def new_FeedStore_def)

lemma posted_Cons: "posted g key (e # es) = posted g key [e] @ posted g key es"
  by (cases e) (auto split: sum.splits)

lemma allowed_events:
  assumes "gcm_law g" "length key = KEY_BYTES" "list_all (good_post g key) es"
    and "set (posted g key es) \<subseteq> M"
  shows "list_all (allowed_event g key M) es"
  using assms(3,4)
proof (induction es)
  case (Cons e es)
  then show ?case using assms(1,2) unfolding posted_Cons[of g key e es] by (auto simp: allowed_event_def)
qed simp

lemma cluster_run_ok:
  assumes "gcm_law g" "length key = KEY_BYTES" "1 \<le> cap" "list_all (good_post g key) es"
  shows "cluster_ok df g key cap (set (posted g key es)) (cluster_run df g key cap es)"
  unfolding cluster_run_def
  by (rule cluster.inv_run[OF new_cluster_ok[OF assms(3)] allowed_events[OF assms(1,2,4)]]) simp

text \<open>What a backend holds that has heard everything.\<close>

lemma caught_up_entries:
  assumes "gcm_law g" "length key = KEY_BYTES" "1 \<le> cap" "list_all (good_post g key) es"
    and c: "c = cluster_run df g key cap es" and caught_up: "caught_up r c" and room: "length (cl_docs c) \<le> cap"
    and s: "s = fst (cl_stores c r)"
  shows "set (fs_ids s) = document_key ` set (cl_docs c) \<and> distinct (fs_ids s) \<and> length (fs_ids s) = length (cl_docs c)
    \<and> (inj_on fm_id (set (posted g key es)) \<longrightarrow>
         set (fs_entries s) = (\<lambda>d. entry_of (message_of g key 0 d)) ` set (cl_docs c))"
proof -
  let ?M = "set (posted g key es)"
  obtain hist where sh: "cl_stores c r = (s, hist)" using s by (metis prod.collapse)
  have ok: "cluster_ok df g key cap ?M c" unfolding c by (rule cluster_run_ok[OF assms(1-4)])
  then have rep: "replica_ok df cap ?M (cl_docs c) (length (cl_docs c)) (s, hist)"
    using caught_up sh by (metis cluster_ok_def caught_up_def)
  then have run: "run_ok df (s, hist)" and d0: "fs_dropped s = 0" using room by (simp_all add: replica_ok_def)
  note ids = run_ok_ids[OF run d0]
  have same: "fm_id ` set hist = document_key ` set (cl_docs c)" using rep by (auto simp: replica_ok_def)
  then have 1: "set (fs_ids s) = document_key ` set (cl_docs c)" "distinct (fs_ids s)" using ids by auto
  have "distinct (map document_key (cl_docs c))" using ok by (simp add: cluster_ok_def)
  then have 2: "length (fs_ids s) = length (cl_docs c)"
    using 1 distinct_card[of "fs_ids s"] distinct_card[of "map document_key (cl_docs c)"] by simp
  have "set (fs_entries s) = (\<lambda>d. entry_of (message_of g key 0 d)) ` set (cl_docs c)" if once: "inj_on fm_id (set (posted g key es))"
  proof -
    have inj: "m = n" if "m \<in> ?M" "n \<in> ?M" "fm_id m = fm_id n" for m n
      using once that by (meson inj_onD)
    have hist: "set hist \<subseteq> ?M" using rep by (simp add: replica_ok_def)
    have docs: "message_of g key 0 d \<in> ?M" if "d \<in> set (cl_docs c)" for d using ok that by (auto simp: cluster_ok_def)
    have "set hist = message_of g key 0 ` set (cl_docs c)"
    proof (intro equalityI subsetI)
      fix m assume m: "m \<in> set hist"
      then obtain d where d: "d \<in> set (cl_docs c)" "fm_id m = document_key d" using same by auto
      then have "m = message_of g key 0 d" using inj[of m "message_of g key 0 d"] hist m docs by auto
      then show "m \<in> message_of g key 0 ` set (cl_docs c)" using d(1) by blast
    next
      fix m assume "m \<in> message_of g key 0 ` set (cl_docs c)"
      then obtain d where d: "d \<in> set (cl_docs c)" "m = message_of g key 0 d" by auto
      then obtain n where n: "n \<in> set hist" "fm_id n = document_key d" using same by (metis image_iff)
      then have "n = m" using inj[of n m] hist docs d by auto
      then show "m \<in> set hist" using n(1) by simp
    qed
    moreover have "set (fs_entries s) = entry_of ` set hist" using ids by simp
    ultimately show ?thesis by (simp add: image_image)
  qed
  then show ?thesis using 1 2 by blast
qed

section \<open>Properties\<close>

text \<open>
  The backends converge. After any interleaving of posts to any backend, saved chat messages,
  lost answers, finished writes and deliveries, as long as the room is within the cap, a backend
  whose stream has caught up holds exactly one entry per stored document; and if no message id was used twice, the
  entries are those of the documents, so that any two backends that have caught up agree.
\<close>

theorem backends_converge:
  assumes "gcm_law g" "length key = KEY_BYTES" "1 \<le> cap" "list_all (good_post g key) es"
    and c: "c = cluster_run df g key cap es" and caught_up: "caught_up r c" and room: "length (cl_docs c) \<le> cap"
    and s: "s = fst (cl_stores c r)"
  shows "set (fs_ids s) = document_key ` set (cl_docs c) \<and> distinct (fs_ids s) \<and> length (fs_ids s) = length (cl_docs c)
    \<and> (distinct (map fm_id (posted g key es)) \<longrightarrow>
         set (fs_entries s) = (\<lambda>d. entry_of (message_of g key 0 d)) ` set (cl_docs c))"
  using caught_up_entries[OF assms] by (simp add: distinct_map)

text \<open>A request that posts \<open>t\<close> under the id \<open>i\<close>.\<close>

definition plain_request :: "jsstr \<Rightarrow> jsstr \<Rightarrow> request" where
  "plain_request i t = \<lparr>rq_body = Object [(js ''name'', String (js ''al'')), (js ''msg'', String t), (js ''id'', String i)],
     rq_query = Object [], rq_x_message_id = None, rq_accept_encoding = None\<rparr>"

definition plain_values :: "millis \<Rightarrow> objectid \<Rightarrow> fresh_values" where
  "plain_values now oid = \<lparr>fv_now = now, fv_uuid = [1], fv_nonce = replicate 12 0, fv_oid = oid\<rparr>"

lemma plain_request_accepted:
  assumes "js_trim i = i" "i \<noteq> []" "js_trim t \<noteq> []" "length (utf8 t) \<le> 16384"
  shows "accept_message g key fv (plain_request i t) = Inr (Inr \<lparr>ac_id = i, ac_client = js ''al'', ac_text = t,
    ac_ts = fv_now fv, ac_document = http_document g key fv i (js ''al'') t\<rparr>)"
proof -
  have "t \<noteq> []" using assms(3) by (auto simp: js_trim_def)
  then show ?thesis
    using assms by (simp add: accept_message_def message_id_def plain_request_def field_def pick_def is_object_def NAME_FIELDS_def
        MESSAGE_FIELDS_def ID_FIELDS_def given_def absent_def get_field_def of_char_Char Let_def MAX_MESSAGE_BYTES_def
        MAX_NAME_LENGTH_def js_slice0_def) (simp add: js_trim_def is_js_space_def)
qed

lemma plain_post_good:
  assumes "js_trim i = i" "i \<noteq> []" "js_trim t \<noteq> []" "length (utf8 t) \<le> 16384" "well_formed i" "well_formed t"
  shows "good_post g key (CPost r (plain_values now oid) (plain_request i t) how)"
  using assms by (simp add: plain_request_accepted plain_values_def NONCE_BYTES_def survives_def is_high_def is_low_def of_char_Char)

text \<open>
  C29: A replayed post diverges. When the balancer replays a request onto a second backend and that
  backend finishes before its stream brings the stored document, the two backends show different
  entries for the one stored message: each has its own time, and its own text if the two requests
  differed, although both have heard everything there is to hear.
\<close>

theorem replayed_post_diverges:
  assumes law: "gcm_law g" "length key = KEY_BYTES" and "1 \<le> cap"
    and a: "accept_message g key fv0 req0 = Inr (Inr a0)" "accept_message g key fv1 req1 = Inr (Inr a1)"
    and good: "good_post g key (CPost 0 fv0 req0 Answered)" "good_post g key (CPost 1 fv1 req1 Answered)"
    and same: "ac_id a0 = ac_id a1"
    and c: "c = cluster_run df g key cap [CPost 0 fv0 req0 Answered, CPost 1 fv1 req1 Answered,
        CFinish 0, CFinish 0, CDeliver 0 now, CDeliver 1 now]"
  shows "cl_docs c = [ac_document a0] \<and> cl_pending c = [] \<and> cl_pos c 0 = 1 \<and> cl_pos c 1 = 1
    \<and> fs_entries (fst (cl_stores c 0)) = [entry_of (message_of_accepted a0)]
    \<and> fs_entries (fst (cl_stores c 1)) = [entry_of (message_of_accepted a1)]
    \<and> (entry_of (message_of_accepted a0) = entry_of (message_of_accepted a1) \<longleftrightarrow>
         ac_client a0 = ac_client a1 \<and> ac_text a0 = ac_text a1 \<and> ac_ts a0 = ac_ts a1)"
proof -
  note d0 = accepted_document[OF law a(1)] and d1 = accepted_document[OF law a(2)]
  have g0: "length (fv_nonce fv0) = NONCE_BYTES" "fv_uuid fv0 \<noteq> []" "survives a0" using good(1) a(1) by auto
  have g1: "length (fv_nonce fv1) = NONCE_BYTES" "fv_uuid fv1 \<noteq> []" "survives a1" using good(2) a(2) by auto
  note d0 = d0[OF g0] and d1 = d1[OF g1]
  have "\<not> trim_at cap < 1" using trim_at_ge[of cap] assms(3) by simp
  moreover have "entry_of (message_of_accepted a0) = entry_of (message_of_accepted a1) \<longleftrightarrow>
      ac_client a0 = ac_client a1 \<and> ac_text a0 = ac_text a1 \<and> ac_ts a0 = ac_ts a1"
    using entry_of_inject[of "message_of_accepted a0" "message_of_accepted a1"] same
    by (auto simp: message_of_accepted_def local_message_def)
  ultimately show ?thesis
    using a same d0 d1 unfolding c cluster_run_def
    by (simp add: new_cluster_def post_def insertOne_def msgId_taken_def finish_def finish_store hear_def Let_def
        push_def new_FeedStore_def addDocument_push log_if_def message_of_accepted_def[symmetric])
qed

theorem replayed_post_diverges_witness:
  "fs_entries (fst (cl_stores (cluster_run storing_df plain_gcm (replicate 32 1) 9
      [CPost 0 (plain_values 5 1) (plain_request [65] [66]) Answered, CPost 1 (plain_values 6 2) (plain_request [65] [66]) Answered,
       CFinish 0, CFinish 0, CDeliver 0 7, CDeliver 1 7]) 0))
   \<noteq> fs_entries (fst (cl_stores (cluster_run storing_df plain_gcm (replicate 32 1) 9
      [CPost 0 (plain_values 5 1) (plain_request [65] [66]) Answered, CPost 1 (plain_values 6 2) (plain_request [65] [66]) Answered,
       CFinish 0, CFinish 0, CDeliver 0 7, CDeliver 1 7]) 1))"
proof -
  have small: "js_trim [65] = [65 :: code_unit]" "js_trim [66] \<noteq> ([] :: jsstr)" "length (utf8 [66]) \<le> 16384"
    "well_formed [65]" "well_formed [66]"
    by (simp_all add: js_trim_def is_js_space_def is_high_def is_low_def utf8_def utf8_nats_def single_point_def utf8_point_def)
  note acc = plain_request_accepted[OF small(1) _ small(2,3)]
  note good = plain_post_good[OF small(1) _ small(2,3,4,5)]
  from replayed_post_diverges[OF plain_gcm_law _ _ acc acc good good _ refl, of "replicate 32 1" 9 5 1 6 2 storing_df 7]
  show ?thesis by (simp add: KEY_BYTES_def plain_values_def)
qed

definition sample_posts :: "cluster_event list" where
  "sample_posts = [CPost 0 (plain_values 5 1) (plain_request [65] [66]) Answered,
     CPost 1 (plain_values 6 2) (plain_request [66] [65]) AnswerLost, CDeliver 1 7, CFinish 0,
     CSaid (replicate 12 0) 3 [67] 2001 sample_draft Answered, CDeliver 0 7, CDeliver 0 8, CDeliver 1 9, CDeliver 1 10, CDeliver 0 11]"

lemma sample_posts_run:
  defines "c \<equiv> cluster_run storing_df plain_gcm (replicate 32 1) 9 sample_posts"
  shows "list_all (good_post plain_gcm (replicate 32 1)) sample_posts"
    and "length (cl_docs c) = 3 \<and> cl_pos c 0 = 3 \<and> cl_pos c 1 = 3"
    and "distinct (map fm_id (posted plain_gcm (replicate 32 1) sample_posts))"
proof -
  let ?key = "replicate 32 (1 :: byte)"
  have small: "js_trim [n] = [n]" "length (utf8 [n]) \<le> 16384" "well_formed [n]" if "n = 65 \<or> n = 66 \<or> n = 67" for n :: code_unit
    using that by (auto simp: js_trim_def is_js_space_def is_high_def is_low_def utf8_def utf8_nats_def single_point_def utf8_point_def)
  have acc: "accept_message plain_gcm ?key (plain_values now oid) (plain_request [i] [t]) = Inr (Inr \<lparr>ac_id = [i], ac_client = js ''al'',
      ac_text = [t], ac_ts = now, ac_document = http_document plain_gcm ?key (plain_values now oid) [i] (js ''al'') [t]\<rparr>)"
    if "i = 65 \<or> i = 66" "t = 65 \<or> t = 66" for i t now oid
    using plain_request_accepted[of "[i]" "[t]" plain_gcm ?key "plain_values now oid"] small[of i] small[of t] that
    by (auto simp: plain_values_def)
  show "list_all (good_post plain_gcm ?key) sample_posts"
    using plain_post_good[of "[65]" "[66]"] plain_post_good[of "[66]" "[65]"] small[of 65] small[of 66]
    by (simp add: sample_posts_def NONCE_BYTES_def sample_draft_def thor_def hi_def is_high_def is_low_def of_char_Char del: good_post.simps(1))
  have http: "d_msgId (http_document plain_gcm ?key fv i n t) = Some i" "d_roomId (http_document plain_gcm ?key fv i n t) = ROOM_ID"
    "d_msgId (bson d) = map_option to_well_formed (d_msgId d)" "d_roomId (bson d) = d_roomId d" for fv i n t d
    by (simp_all add: http_document_def bson_def Let_def)
  have chat: "d_msgId (document_of plain_gcm ?key n oid u st d) = Some u" "d_roomId (document_of plain_gcm ?key n oid u st d) = ROOM_ID" for n oid u st d
    by (simp_all add: document_of_def message_document_def draft_args_def ROOM_ID_def CHAT_ROOM_ID_def Let_def)
  show "length (cl_docs c) = 3 \<and> cl_pos c 0 = 3 \<and> cl_pos c 1 = 3"
    using small[of 65] small[of 66] small[of 67]
    by (simp add: c_def cluster_run_def sample_posts_def cluster_fields advance_def new_cluster_def acc insertOne_def msgId_taken_def http chat to_well_formed_id)
  show "distinct (map fm_id (posted plain_gcm ?key sample_posts))" by (simp add: sample_posts_def acc said_message_def local_message_def)
qed

theorem backends_converge_witness:
  "set (fs_entries (fst (cl_stores (cluster_run storing_df plain_gcm (replicate 32 1) 9 sample_posts) 0)))
   = set (fs_entries (fst (cl_stores (cluster_run storing_df plain_gcm (replicate 32 1) 9 sample_posts) 1)))"
  using backends_converge[OF plain_gcm_law _ _ sample_posts_run(1) refl _ _ refl, of 9 0 storing_df]
    backends_converge[OF plain_gcm_law _ _ sample_posts_run(1) refl _ _ refl, of 9 1 storing_df] sample_posts_run(2,3)
  by (simp add: KEY_BYTES_def caught_up_def)

end
