(* ===== verification/Chat_Network.thy ===== *)
theory Chat_Network
  imports Chat_Races Replicas
begin

text \<open>
  The chat across backends: \<open>io.adapter(createAdapter(...))\<close> of \<open>server.js\<close> around the handlers of
  \<open>src/socketHandlers.js\<close>, and the two collections that the backends share. What one backend emits to
  all or to all others reaches its own sockets at once and, by way of a capped collection that
  every backend follows, those of the others later; \<open>socket.emit\<close> stays on its backend. The answers
  that a handler waits for are computed from the shared collections. \<open>cross_replica_test.js\<close> plays
  three clients against this.
\<close>

section \<open>State\<close>

text \<open>\<open>nw_sending\<close> are events on their way into the adapter's collection, in any order; \<open>nw_bus\<close> is that
  collection, each event with the backend that wrote it; \<open>nw_pos\<close> is how far a backend has
  followed it. \<open>nw_keys\<close> are the registrations that reached the senders collection.\<close>

record network =
  nw_chat :: "nat \<Rightarrow> chat"
  nw_open :: "nat \<Rightarrow> jsstr list"
  nw_used :: "nat \<Rightarrow> jsstr list"
  nw_inbox :: "nat \<Rightarrow> jsstr \<Rightarrow> server_event list"
  nw_sending :: "(nat \<times> emission) list"
  nw_bus :: "(nat \<times> emission) list"
  nw_pos :: "nat \<Rightarrow> nat"
  nw_keys :: "(millis \<times> jsstr \<times> jsstr) list"
  nw_docs :: "document list"

definition new_network :: network where
  "new_network = \<lparr>nw_chat = (\<lambda>r. new_chat), nw_open = (\<lambda>r. []), nw_used = (\<lambda>r. []), nw_inbox = (\<lambda>r sid. []),
     nw_sending = [], nw_bus = [], nw_pos = (\<lambda>r. 0), nw_keys = [], nw_docs = []\<rparr>"

section \<open>Emissions\<close>

fun event_of :: "emission \<Rightarrow> server_event" where
  "event_of (ToSocket sid ev) = ev"
| "event_of (ToOthers sid ev) = ev"
| "event_of (ToAll ev) = ev"

fun crosses :: "emission \<Rightarrow> bool" where
  "crosses (ToSocket sid ev) = False"
| "crosses e = True"

fun meant_for :: "jsstr \<Rightarrow> emission \<Rightarrow> bool" where
  "meant_for sid (ToSocket s ev) = (sid = s)"
| "meant_for sid (ToOthers s ev) = (sid \<noteq> s)"
| "meant_for sid (ToAll ev) = True"

definition emit_to :: "jsstr list \<Rightarrow> emission list \<Rightarrow> (jsstr \<Rightarrow> server_event list) \<Rightarrow> jsstr \<Rightarrow> server_event list" where
  "emit_to listening es inbox sid =
     inbox sid @ (if sid \<in> set listening then map event_of (filter (meant_for sid) es) else [])"

text \<open>A handler, or the part of one up to its next \<open>await\<close>, has run on backend \<open>r\<close>.\<close>

definition handled :: "nat \<Rightarrow> chat \<Rightarrow> network \<Rightarrow> network" where
  "handled r s w =
     (let new = drop (length (ch_out (nw_chat w r))) (ch_out s)
      in w\<lparr>nw_chat := (nw_chat w)(r := s),
           nw_inbox := (nw_inbox w)(r := emit_to (nw_open w r) new (nw_inbox w r)),
           nw_sending := nw_sending w @ map (Pair r) (filter crosses new)\<rparr>)"

section \<open>Clients\<close>

text \<open>A socket gets an id that was not used before; one that disconnects has left every room by the time
  its handler runs.\<close>

definition open_socket :: "nat \<Rightarrow> jsstr \<Rightarrow> network \<Rightarrow> network" where
  "open_socket r sid w =
     (if sid \<in> set (nw_used w r) then w
      else w\<lparr>nw_open := (nw_open w)(r := nw_open w r @ [sid]), nw_used := (nw_used w)(r := nw_used w r @ [sid])\<rparr>)"

fun leaves :: "jsstr \<Rightarrow> chat_event \<Rightarrow> bool" where
  "leaves sid (EDisconnect s now) = (sid = s)"
| "leaves sid e = False"

definition client :: "'k ecdsa \<Rightarrow> gcm \<Rightarrow> byte list \<Rightarrow> nat \<Rightarrow> chat_event \<Rightarrow> network \<Rightarrow> network" where
  "client ec g key r e w =
     (case event_socket e of
        None \<Rightarrow> w
      | Some sid \<Rightarrow>
          if sid \<notin> set (nw_open w r) then w
          else handled r (chat_apply ec g key (nw_chat w r) e)
                 (w\<lparr>nw_open := (nw_open w)(r := filter (\<lambda>s. \<not> leaves s e) (nw_open w r))\<rparr>))"

section \<open>The shared database\<close>

text \<open>What surrounds one answer: whether it came, how much of the collection the query had seen, the
  random bytes, the clock and the ids that the rest of the handler draws.\<close>

record surroundings =
  rp_fate :: fate
  rp_seen :: nat
  rp_random :: "byte list"
  rp_now :: millis
  rp_oid :: objectid
  rp_uuid :: jsstr

definition shared_insert :: "document \<Rightarrow> document list \<Rightarrow> (unit + unit) \<times> document list" where
  "shared_insert doc docs =
     (case insertOne [room_index, msgId_index] (bson doc) docs of
        (stored, docs') \<Rightarrow> (if stored then Inr () else Inl (), docs'))"

definition known_sender :: "'db sender_ops \<Rightarrow> 'db \<Rightarrow> nat \<Rightarrow> jsstr \<Rightarrow> network \<Rightarrow> sender option" where
  "known_sender so db n u w = findSender so u (register_all so (take n (nw_keys w)) db)"

definition shared_history :: "'k ecdsa \<Rightarrow> gcm \<Rightarrow> byte list \<Rightarrow> nat \<Rightarrow> network \<Rightarrow> history_item list option" where
  "shared_history ec g key n w =
     (case loadHistory ec g key (getHistory (newest_first (take n (nw_docs w))) CHAT_ROOM_ID DEFAULT_HISTORY_LIMIT) of
        Inl e \<Rightarrow> None | Inr items \<Rightarrow> Some items)"

fun ask :: "'db sender_ops \<Rightarrow> 'db \<Rightarrow> 'k ecdsa \<Rightarrow> gcm \<Rightarrow> byte list \<Rightarrow> surroundings \<Rightarrow> waiting \<Rightarrow> network \<Rightarrow> answer \<times> network" where
  "ask so db ec g key rp (FindSender u pk) w =
     (SenderAnswer (if rp_fate rp = Answered then Some (known_sender so db (rp_seen rp) u w) else None)
        (rp_random rp) (rp_now rp), w)"
| "ask so db ec g key rp (RegisterSender p) w =
     (Stored (rp_fate rp = Answered),
      if rp_fate rp = NotWritten then w
      else w\<lparr>nw_keys := nw_keys w @ [(rp_now rp, pa_username p, pa_publicKey p)]\<rparr>)"
| "ask so db ec g key rp (ReadHistory p) w =
     (History (if rp_fate rp = Answered then shared_history ec g key (rp_seen rp) w else None) (rp_now rp), w)"
| "ask so db ec g key rp (SaveMessage d now sealed) w =
     (if rp_fate rp = NotWritten then (Saved None, w)
      else (case saveMessage shared_insert (rp_oid rp) (rp_uuid rp) (rp_now rp) (draft_args d now sealed) (nw_docs w) of
          (result, docs) \<Rightarrow>
            (Saved (if rp_fate rp = Answered then case_sum (\<lambda>e. None) Some result else None), w\<lparr>nw_docs := docs\<rparr>)))"
| "ask so db ec g key rp v w = (Checked (rp_random rp) (rp_now rp), w)"

definition reply_to ::
  "'db sender_ops \<Rightarrow> 'db \<Rightarrow> 'k ecdsa \<Rightarrow> gcm \<Rightarrow> byte list \<Rightarrow> nat \<Rightarrow> nat \<Rightarrow> surroundings \<Rightarrow> network \<Rightarrow> network" where
  "reply_to so db ec g key r i rp w =
     (if length (ch_waiting (nw_chat w r)) \<le> i then w
      else (case ask so db ec g key rp (snd (ch_waiting (nw_chat w r) ! i)) w of
          (a, w1) \<Rightarrow> handled r (chat_apply ec g key (nw_chat w r) (EAnswer i a)) w1))"

section \<open>The adapter\<close>

definition publish :: "nat \<Rightarrow> network \<Rightarrow> network" where
  "publish i w =
     (if length (nw_sending w) \<le> i then w
      else w\<lparr>nw_sending := take i (nw_sending w) @ drop (Suc i) (nw_sending w),
             nw_bus := nw_bus w @ [nw_sending w ! i]\<rparr>)"

definition follow :: "nat \<Rightarrow> network \<Rightarrow> network" where
  "follow r w =
     (if length (nw_bus w) \<le> nw_pos w r then w
      else
        let (q, e) = nw_bus w ! nw_pos w r;
            w1 = w\<lparr>nw_pos := (nw_pos w)(r := Suc (nw_pos w r))\<rparr>
        in if q = r then w1
           else w1\<lparr>nw_inbox := (nw_inbox w)(r := emit_to (nw_open w r) [e] (nw_inbox w r))\<rparr>)"

section \<open>Runs\<close>

datatype network_event =
    NConnect nat jsstr | NClient nat chat_event | NReply nat nat surroundings | NPublish nat | NFollow nat

fun network_apply ::
  "'db sender_ops \<Rightarrow> 'db \<Rightarrow> 'k ecdsa \<Rightarrow> gcm \<Rightarrow> byte list \<Rightarrow> network \<Rightarrow> network_event \<Rightarrow> network" where
  "network_apply so db ec g key w (NConnect r sid) = open_socket r sid w"
| "network_apply so db ec g key w (NClient r e) = client ec g key r e w"
| "network_apply so db ec g key w (NReply r i rp) = reply_to so db ec g key r i rp w"
| "network_apply so db ec g key w (NPublish i) = publish i w"
| "network_apply so db ec g key w (NFollow r) = follow r w"

definition network_run ::
  "'db sender_ops \<Rightarrow> 'db \<Rightarrow> 'k ecdsa \<Rightarrow> gcm \<Rightarrow> byte list \<Rightarrow> network_event list \<Rightarrow> network" where
  "network_run so db ec g key es = run_events (network_apply so db ec g key) new_network es"

section \<open>What a handler emits\<close>

text \<open>Emissions are only added, and a chat message goes out to all or not at all.\<close>

fun to_all :: "emission \<Rightarrow> bool" where
  "to_all (ToSocket sid (ChatMessage cb)) = False"
| "to_all (ToOthers sid (ChatMessage cb)) = False"
| "to_all e = True"

definition grows :: "chat \<Rightarrow> chat \<Rightarrow> bool" where
  "grows s t \<longleftrightarrow> (\<exists>new. ch_out t = ch_out s @ new \<and> list_all to_all new)"

lemma grows_refl [simp]: "grows s s"
  by (simp add: grows_def)

lemma grows_trans: "grows s t \<Longrightarrow> grows t u \<Longrightarrow> grows s u"
  by (auto simp: grows_def)

lemma grows_emit: "list_all to_all es \<Longrightarrow> ch_out s = ch_out t \<Longrightarrow> grows s (emit es t)"
  by (simp add: grows_def emit_def)

lemma grows_same: "ch_out s = ch_out t \<Longrightarrow> grows s t"
  by (simp add: grows_def)

lemmas out_simps = emit_def await_def set_data_def

lemma grows_resume: "grows s (resume ec g key sid w a s)"
  by (cases w; cases a)
     (auto simp: sender_found_def login_verified_def sender_registered_def history_read_def message_verified_def
       message_saved_def Let_def out_simps grows_def case_prod_beta' split: option.split)

lemma grows_apply: "grows s (chat_apply ec g key s e)"
proof (cases e)
  case (EAnswer i a)
  let ?s1 = "s\<lparr>ch_waiting := take i (ch_waiting s) @ drop (Suc i) (ch_waiting s)\<rparr>"
  have "grows s ?s1" by (rule grows_same) simp
  then have "grows s (resume ec g key sid w a ?s1)" for sid w by (rule grows_trans) (rule grows_resume)
  then show ?thesis using EAnswer by (auto simp: case_prod_beta')
qed (auto simp: auth_start_def auth_response_def chat_message_def typing_def disconnect_def Let_def out_simps grows_def
      case_prod_beta' split: option.split sum.split list.split jsval.split)

lemma chat_run_to_all: "e \<in> set (ch_out (chat_run ec g key es)) \<Longrightarrow> to_all e"
proof -
  have "grows s (run_events (chat_apply ec g key) s es)" for s
    by (induction es arbitrary: s) (auto intro: grows_trans grows_apply)
  from this[of new_chat] show "e \<in> set (ch_out (chat_run ec g key es)) \<Longrightarrow> to_all e"
    by (auto simp: grows_def chat_run_def list_all_iff)
qed

lemma chat_run_snoc: "chat_apply ec g key (chat_run ec g key es) e = chat_run ec g key (es @ [e])"
  by (simp add: chat_run_def run_events_append)

section \<open>Every backend runs the chat\<close>

text \<open>Each backend is a run of its own handlers; whatever is on its way or was heard, some backend
  emitted.\<close>

definition all_out :: "network \<Rightarrow> emission set" where
  "all_out w = (\<Union>r. set (ch_out (nw_chat w r)))"

definition network_ok :: "'k ecdsa \<Rightarrow> gcm \<Rightarrow> byte list \<Rightarrow> network \<Rightarrow> bool" where
  "network_ok ec g key w \<longleftrightarrow> (\<forall>r. \<exists>es. nw_chat w r = chat_run ec g key es)
     \<and> snd ` set (nw_sending w @ nw_bus w) \<subseteq> all_out w
     \<and> (\<forall>r sid. set (nw_inbox w r sid) \<subseteq> event_of ` all_out w)"

lemma all_out_handled:
  "grows (nw_chat w r) s \<Longrightarrow> all_out (handled r s w) = all_out w \<union> set (drop (length (ch_out (nw_chat w r))) (ch_out s))"
proof -
  assume "grows (nw_chat w r) s"
  then obtain new where "ch_out s = ch_out (nw_chat w r) @ new" by (auto simp: grows_def)
  then show ?thesis by (auto simp: all_out_def handled_def Let_def split: if_splits)
qed

lemma handled_ok:
  assumes ok: "network_ok ec g key w" and s: "s = chat_apply ec g key (nw_chat w r) e"
  shows "network_ok ec g key (handled r s w)"
proof -
  have g: "grows (nw_chat w r) s" using s grows_apply by blast
  have "\<exists>es. s = chat_run ec g key es" using ok s chat_run_snoc by (metis network_ok_def)
  then have 1: "\<exists>es. nw_chat (handled r s w) q = chat_run ec g key es" for q
    using ok by (auto simp: network_ok_def handled_def Let_def)
  have 2: "snd ` set (nw_sending (handled r s w) @ nw_bus (handled r s w)) \<subseteq> all_out (handled r s w)"
    using ok unfolding all_out_handled[OF g] by (auto simp: network_ok_def handled_def Let_def)
  have "set (nw_inbox (handled r s w) q sid) \<subseteq> set (nw_inbox w q sid) \<union> event_of ` set (drop (length (ch_out (nw_chat w r))) (ch_out s))" for q sid
    by (auto simp: handled_def Let_def emit_to_def)
  moreover have "set (nw_inbox w q sid) \<subseteq> event_of ` all_out w" for q sid using ok by (simp add: network_ok_def)
  ultimately have 3: "set (nw_inbox (handled r s w) q sid) \<subseteq> event_of ` all_out (handled r s w)" for q sid
    unfolding all_out_handled[OF g] image_Un by blast
  show ?thesis unfolding network_ok_def using 1 2 3 by blast
qed

lemma network_ok_cong:
  assumes "network_ok ec g key w" "nw_chat v = nw_chat w" "nw_inbox v = nw_inbox w"
    and sub: "set (nw_sending v @ nw_bus v) \<subseteq> set (nw_sending w @ nw_bus w)"
  shows "network_ok ec g key v"
proof -
  have "all_out v = all_out w" by (simp add: all_out_def assms(2))
  moreover have "snd ` set (nw_sending w @ nw_bus w) \<subseteq> all_out w" using assms(1) by (simp add: network_ok_def)
  then have "snd ` set (nw_sending v @ nw_bus v) \<subseteq> all_out w" by (rule order_trans[OF image_mono[OF sub]])
  ultimately show ?thesis using assms(1-3) by (simp add: network_ok_def)
qed

lemma ask_chat [simp]:
  "nw_chat (snd (ask so db ec g key rp v w)) = nw_chat w" "nw_inbox (snd (ask so db ec g key rp v w)) = nw_inbox w"
  "nw_sending (snd (ask so db ec g key rp v w)) = nw_sending w" "nw_bus (snd (ask so db ec g key rp v w)) = nw_bus w"
  "nw_open (snd (ask so db ec g key rp v w)) = nw_open w" "nw_pos (snd (ask so db ec g key rp v w)) = nw_pos w"
  "nw_used (snd (ask so db ec g key rp v w)) = nw_used w"
  by (cases v; simp add: case_prod_beta')+

lemma network_event_ok:
  assumes ok: "network_ok ec g key w"
  shows "network_ok ec g key (network_apply so db ec g key w e)"
proof (cases e)
  case (NConnect r sid)
  then show ?thesis using network_ok_cong[OF ok] by (simp add: open_socket_def)
next
  case (NClient r ev)
  let ?w1 = "w\<lparr>nw_open := (nw_open w)(r := filter (\<lambda>s. \<not> leaves s ev) (nw_open w r))\<rparr>"
  have "network_ok ec g key ?w1" by (rule network_ok_cong[OF ok]) simp_all
  then have "network_ok ec g key (handled r (chat_apply ec g key (nw_chat w r) ev) ?w1)"
    by (rule handled_ok) simp
  then show ?thesis using NClient ok by (auto simp: client_def split: option.split)
next
  case (NReply r i rp)
  obtain a w1 where a: "ask so db ec g key rp (snd (ch_waiting (nw_chat w r) ! i)) w = (a, w1)" by fastforce
  then have w1: "w1 = snd (ask so db ec g key rp (snd (ch_waiting (nw_chat w r) ! i)) w)" by simp
  have "network_ok ec g key w1" by (rule network_ok_cong[OF ok]) (simp_all add: w1)
  then have "network_ok ec g key (handled r (chat_apply ec g key (nw_chat w r) (EAnswer i a)) w1)"
    by (rule handled_ok[where e = "EAnswer i a"]) (simp add: w1)
  then show ?thesis using NReply a ok by (simp add: reply_to_def del: chat_apply.simps)
next
  case (NPublish i)
  have "set (take i xs @ drop (Suc i) xs) \<subseteq> set xs" for xs :: "(nat \<times> emission) list"
    by (auto dest: in_set_takeD in_set_dropD)
  then show ?thesis using NPublish network_ok_cong[OF ok, of "publish i w"] ok
    by (auto simp: publish_def) blast
next
  case (NFollow r)
  show ?thesis
  proof (cases "length (nw_bus w) \<le> nw_pos w r")
    case False
    obtain q m where m: "nw_bus w ! nw_pos w r = (q, m)" by fastforce
    then have "(q, m) \<in> set (nw_bus w)" using False by (metis not_le nth_mem)
    then have "m \<in> all_out w" using ok by (force simp: network_ok_def)
    then have sub: "set (emit_to (nw_open w r) [m] (nw_inbox w r) sid) \<subseteq> event_of ` all_out w" for sid
      using ok by (auto simp: network_ok_def emit_to_def)
    let ?w1 = "w\<lparr>nw_pos := (nw_pos w)(r := Suc (nw_pos w r))\<rparr>"
    have same: "all_out (?w1\<lparr>nw_inbox := f\<rparr>) = all_out w" for f by (simp add: all_out_def)
    have 1: "network_ok ec g key ?w1" by (rule network_ok_cong[OF ok]) simp_all
    have 2: "network_ok ec g key (?w1\<lparr>nw_inbox := (nw_inbox w)(r := emit_to (nw_open w r) [m] (nw_inbox w r))\<rparr>)"
      using ok sub unfolding network_ok_def same by simp
    show ?thesis using NFollow False m 1 2 by (simp add: follow_def Let_def)
  qed (use NFollow ok in \<open>simp add: follow_def\<close>)
qed

interpretation networked: event_invariant "network_apply so db ec g key" "\<lambda>e. True" "network_ok ec g key" for so db ec g key
  by unfold_locales (rule network_event_ok)

lemma network_run_ok: "network_ok ec g key (network_run so db ec g key es)"
proof -
  have "list_all (\<lambda>e. True) es" by (induction es) auto
  moreover have "network_ok ec g key new_network"
    by (auto simp: network_ok_def new_network_def all_out_def chat_run_def intro: exI[of _ "[]"])
  ultimately show ?thesis unfolding network_run_def by (rule networked.inv_run[rotated])
qed

section \<open>What is sent and what is heard\<close>

fun chat_of :: "server_event \<Rightarrow> chat_broadcast list" where
  "chat_of (ChatMessage cb) = [cb]"
| "chat_of ev = []"

definition messages_in :: "server_event list \<Rightarrow> chat_broadcast multiset" where
  "messages_in evs = mset (concat (map chat_of evs))"

text \<open>Every chat message that was sent on any backend; those that a socket has heard; those that are still
  on their way to the sockets of a backend.\<close>

definition sent :: "network \<Rightarrow> chat_broadcast multiset" where
  "sent w = messages_in (map (event_of \<circ> snd) (nw_bus w @ nw_sending w))"

definition heard_by :: "nat \<Rightarrow> jsstr \<Rightarrow> network \<Rightarrow> chat_broadcast multiset" where
  "heard_by r sid w = messages_in (nw_inbox w r sid)"

definition due :: "nat \<Rightarrow> network \<Rightarrow> chat_broadcast multiset" where
  "due r w = messages_in (map (event_of \<circ> snd) (filter (\<lambda>m. fst m \<noteq> r) (drop (nw_pos w r) (nw_bus w) @ nw_sending w)))"

lemma messages_simps [simp]:
  "messages_in [] = {#}" "messages_in (ev # evs) = mset (chat_of ev) + messages_in evs"
  "messages_in (evs @ evs') = messages_in evs + messages_in evs'"
  by (simp_all add: messages_in_def)

lemma messages_crossing:
  "list_all to_all es \<Longrightarrow> messages_in (map event_of (filter crosses es)) = messages_in (map event_of es)"
proof (induction es)
  case (Cons e es)
  then show ?case by (induction e rule: to_all.induct) auto
qed simp

lemma messages_meant:
  "list_all to_all es \<Longrightarrow> messages_in (map event_of (filter (meant_for sid) es)) = messages_in (map event_of es)"
proof (induction es)
  case (Cons e es)
  then show ?case by (induction e rule: to_all.induct) auto
qed simp

definition balance :: "nat \<Rightarrow> jsstr \<Rightarrow> network \<Rightarrow> network \<Rightarrow> bool" where
  "balance r sid w v \<longleftrightarrow> heard_by r sid v + due r v + sent w = heard_by r sid w + due r w + sent v"

lemma balance_refl [simp]: "balance r sid w w"
  by (simp add: balance_def)

lemma exchange:
  fixes a :: "'a multiset"
  assumes "a' + s = a + s'" "a'' + s' = a' + s''"
  shows "a'' + s = a + s''"
proof -
  have "(a'' + s) + (a' + s') = (a'' + s') + (a' + s)" by (simp add: ac_simps)
  also have "\<dots> = (a + s'') + (a' + s')" unfolding assms by (simp add: ac_simps)
  finally show ?thesis by simp
qed

lemma balance_trans: "balance r sid w v \<Longrightarrow> balance r sid v u \<Longrightarrow> balance r sid w u"
  unfolding balance_def by (rule exchange)

lemma balance_same:
  "nw_inbox v = nw_inbox w \<Longrightarrow> nw_bus v = nw_bus w \<Longrightarrow> nw_sending v = nw_sending w \<Longrightarrow> nw_pos v = nw_pos w \<Longrightarrow>
   balance r sid w v"
  by (simp add: balance_def heard_by_def due_def sent_def)

lemma balance_handled:
  assumes "sid \<in> set (nw_open w r)" and g: "grows (nw_chat w q) s"
  shows "balance r sid w (handled q s w)"
proof -
  obtain new where new: "ch_out s = ch_out (nw_chat w q) @ new" "list_all to_all new" using g by (auto simp: grows_def)
  let ?w = "handled q s w" and ?m = "messages_in (map event_of new)"
  have c: "map (event_of \<circ> snd) (map (Pair q) es) = map event_of es" for es by simp
  have "sent ?w = sent w + ?m" using messages_crossing[OF new(2)] new(1) by (simp add: sent_def handled_def c del: map_map)
  moreover have "heard_by r sid ?w + due r ?w = heard_by r sid w + due r w + ?m"
  proof (cases "q = r")
    case True
    then show ?thesis using assms(1) new(1) messages_meant[OF new(2)]
      by (simp add: heard_by_def due_def handled_def emit_to_def filter_empty_conv filter_map comp_def)
  next
    case False
    have "filter (\<lambda>m. fst m \<noteq> r) (map (Pair q) es) = map (Pair q) es" for es :: "emission list"
      using False by (induction es) auto
    then show ?thesis using False new(1) messages_crossing[OF new(2)]
      by (simp add: heard_by_def due_def handled_def c add.assoc del: map_map)
  qed
  ultimately show ?thesis by (simp add: balance_def ac_simps)
qed

lemma messages_take_drop:
  "i < length xs \<Longrightarrow> messages_in (map f (filter P (take i xs @ drop (Suc i) xs))) +
     messages_in (map f (filter P [xs ! i])) = messages_in (map f (filter P xs))"
  by (subst (3) id_take_nth_drop) (auto simp: ac_simps)

definition follows :: "network \<Rightarrow> bool" where
  "follows w \<longleftrightarrow> (\<forall>r. nw_pos w r \<le> length (nw_bus w))"

lemma balance_publish: "follows w \<Longrightarrow> balance r sid w (publish i w)"
proof (cases "i < length (nw_sending w)")
  case True
  assume "follows w"
  then have drop: "nw_pos w r - length (nw_bus w) = 0" by (simp add: follows_def)
  have "sent (publish i w) = sent w"
    using messages_take_drop[OF True, of "event_of \<circ> snd" "\<lambda>m. True"] True by (simp add: sent_def publish_def ac_simps)
  moreover have "due r (publish i w) = due r w"
    using messages_take_drop[OF True, of "event_of \<circ> snd" "\<lambda>m. fst m \<noteq> r"] True
    unfolding due_def publish_def by (simp add: drop ac_simps split: if_splits)
  ultimately show ?thesis by (simp add: balance_def heard_by_def publish_def)
qed (simp add: publish_def)

lemma balance_follow:
  assumes "follows w" and all: "list_all (\<lambda>m. to_all (snd m)) (nw_bus w)" and sid: "sid \<in> set (nw_open w r)"
  shows "balance r sid w (follow q w)"
proof (cases "nw_pos w q < length (nw_bus w)")
  case True
  obtain p e where m: "nw_bus w ! nw_pos w q = (p, e)" by fastforce
  then have d: "drop (nw_pos w q) (nw_bus w) = (p, e) # drop (Suc (nw_pos w q)) (nw_bus w)"
    using True by (metis Cons_nth_drop_Suc)
  have "(p, e) \<in> set (nw_bus w)" using m True by (metis nth_mem)
  then have "list_all to_all [e]" using all by (auto simp: list_all_iff)
  note e = messages_meant[OF this, of sid]
  have s: "sent (follow q w) = sent w" using True m by (simp add: sent_def follow_def Let_def)
  show ?thesis
  proof (cases "q = r")
    case True
    note qr = this
    show ?thesis
    proof (cases "p = r")
      case True
      then show ?thesis using m qr s d \<open>nw_pos w q < _\<close> by (simp add: balance_def heard_by_def due_def follow_def Let_def)
    next
      case False
      then show ?thesis using m qr s d e sid \<open>nw_pos w q < _\<close>
        by (simp add: balance_def heard_by_def due_def follow_def Let_def emit_to_def ac_simps split: if_splits)
    qed
  next
    case False
    then show ?thesis using m s \<open>nw_pos w q < _\<close> by (simp add: balance_def heard_by_def due_def follow_def Let_def)
  qed
qed (simp add: follow_def)

text \<open>What a run keeps for the balance.\<close>

definition traffic_ok :: "'k ecdsa \<Rightarrow> gcm \<Rightarrow> byte list \<Rightarrow> network \<Rightarrow> bool" where
  "traffic_ok ec g key w \<longleftrightarrow> network_ok ec g key w \<and> follows w"

lemma traffic_to_all: "network_ok ec g key w \<Longrightarrow> list_all (\<lambda>m. to_all (snd m)) (nw_bus w)"
proof -
  assume ok: "network_ok ec g key w"
  have "to_all e" if e: "e \<in> all_out w" for e
  proof -
    obtain r where "e \<in> set (ch_out (nw_chat w r))" using e by (auto simp: all_out_def)
    moreover obtain es where "nw_chat w r = chat_run ec g key es" using ok unfolding network_ok_def by blast
    ultimately show ?thesis using chat_run_to_all by metis
  qed
  then show ?thesis using ok by (auto simp: network_ok_def list_all_iff)
qed

lemma follows_event: "follows w \<Longrightarrow> follows (network_apply so db ec g key w e)"
proof (cases e)
  case (NFollow r)
  moreover assume "follows w"
  ultimately show ?thesis by (auto simp: follows_def follow_def Let_def case_prod_beta' Suc_le_eq)
next
  case (NPublish i)
  moreover assume "follows w"
  ultimately show ?thesis by (auto simp: follows_def publish_def le_SucI)
qed (auto simp: follows_def open_socket_def client_def reply_to_def handled_def Let_def case_prod_beta' split: option.split)

text \<open>The sockets that a run does not disconnect.\<close>

fun stays :: "nat \<Rightarrow> jsstr \<Rightarrow> network_event \<Rightarrow> bool" where
  "stays r sid (NClient q e) = (q = r \<longrightarrow> \<not> leaves sid e)"
| "stays r sid e = True"

lemma stays_open:
  "sid \<in> set (nw_open w r) \<Longrightarrow> stays r sid e \<Longrightarrow> sid \<in> set (nw_open (network_apply so db ec g key w e) r)"
  by (cases e) (auto simp: open_socket_def client_def reply_to_def handled_def publish_def follow_def Let_def case_prod_beta'
      split: option.split)

lemma balance_event:
  assumes ok: "traffic_ok ec g key w" and sid: "sid \<in> set (nw_open w r)" and st: "stays r sid e"
  shows "balance r sid w (network_apply so db ec g key w e)"
proof (cases e)
  case (NConnect q s)
  then show ?thesis by (simp add: open_socket_def balance_same)
next
  case (NClient q ev)
  let ?w1 = "w\<lparr>nw_open := (nw_open w)(q := filter (\<lambda>s. \<not> leaves s ev) (nw_open w q))\<rparr>"
  have "sid \<in> set (nw_open ?w1 r)" using sid st NClient by auto
  moreover have "grows (nw_chat ?w1 q) (chat_apply ec g key (nw_chat w q) ev)" by (simp add: grows_apply)
  ultimately have "balance r sid ?w1 (handled q (chat_apply ec g key (nw_chat w q) ev) ?w1)" by (rule balance_handled)
  then have "balance r sid w (handled q (chat_apply ec g key (nw_chat w q) ev) ?w1)"
    by (rule balance_trans[rotated]) (simp add: balance_same)
  then show ?thesis using NClient by (auto simp: client_def split: option.split)
next
  case (NReply q i rp)
  obtain a w1 where a: "ask so db ec g key rp (snd (ch_waiting (nw_chat w q) ! i)) w = (a, w1)" by fastforce
  then have w1: "w1 = snd (ask so db ec g key rp (snd (ch_waiting (nw_chat w q) ! i)) w)" by simp
  have "grows (nw_chat w1 q) (chat_apply ec g key (nw_chat w q) (EAnswer i a))"
    using grows_apply[of "nw_chat w q" ec g key "EAnswer i a"] by (simp only: w1 ask_chat)
  then have "balance r sid w1 (handled q (chat_apply ec g key (nw_chat w q) (EAnswer i a)) w1)"
    by (rule balance_handled[rotated]) (simp add: w1 sid)
  then have "balance r sid w (handled q (chat_apply ec g key (nw_chat w q) (EAnswer i a)) w1)"
    by (rule balance_trans[rotated]) (simp add: balance_same w1)
  then show ?thesis using NReply a by (simp add: reply_to_def del: chat_apply.simps)
next
  case (NPublish i)
  then show ?thesis using ok balance_publish by (simp add: traffic_ok_def)
next
  case (NFollow q)
  then show ?thesis using ok balance_follow[OF _ traffic_to_all[of ec g key] sid] by (simp add: traffic_ok_def)
qed

interpretation counted: event_invariant "network_apply so db ec g key" "stays r sid"
    "\<lambda>v. traffic_ok ec g key v \<and> sid \<in> set (nw_open v r) \<and> balance r sid w v" for so db ec g key r sid w
  by unfold_locales
     (auto simp: traffic_ok_def intro: network_event_ok follows_event stays_open balance_trans balance_event[unfolded traffic_ok_def])

lemma network_run_append:
  "network_run so db ec g key (es @ es') = run_events (network_apply so db ec g key) (network_run so db ec g key es) es'"
  by (simp add: network_run_def run_events_append)

lemma network_run_traffic: "traffic_ok ec g key (network_run so db ec g key es)"
proof -
  have "follows (run_events (network_apply so db ec g key) w es)" if "follows w" for w
    using that by (induction es arbitrary: w) (auto intro: follows_event)
  moreover have "follows new_network" by (simp add: follows_def new_network_def)
  ultimately show ?thesis using network_run_ok by (auto simp: traffic_ok_def network_run_def)
qed

lemma network_balance:
  assumes "sid \<in> set (nw_open (network_run so db ec g key es) r)" and "list_all (stays r sid) es'"
  shows "balance r sid (network_run so db ec g key es) (network_run so db ec g key (es @ es'))"
proof -
  let ?w = "network_run so db ec g key es"
  have "traffic_ok ec g key ?w \<and> sid \<in> set (nw_open ?w r) \<and> balance r sid ?w ?w"
    using assms(1) network_run_traffic by simp
  then show ?thesis using counted.inv_run[OF _ assms(2), where so = so and db = db] unfolding network_run_append by blast
qed

end
