(* ===== verification/Network_Runs.thy ===== *)
theory Network_Runs
  imports Chat_Network
begin

text \<open>
  Conversations across backends: one login and one message as events of the network of
  \<open>Chat_Network\<close>, and what the sockets of all backends hear of everything that is said.
\<close>

section \<open>Handlers one after the other\<close>

lemma emit_to_Nil: "emit_to listening [] inbox = inbox"
  by (simp add: emit_to_def fun_eq_iff)

lemma handled_refl [simp]: "handled r (nw_chat w r) w = w"
  by (simp add: handled_def emit_to_Nil)

lemma nw_handled [simp]:
  "nw_chat (handled r s w) = (nw_chat w)(r := s)" "nw_open (handled r s w) = nw_open w"
  "nw_used (handled r s w) = nw_used w" "nw_bus (handled r s w) = nw_bus w" "nw_pos (handled r s w) = nw_pos w"
  "nw_keys (handled r s w) = nw_keys w" "nw_docs (handled r s w) = nw_docs w"
  by (simp_all add: handled_def Let_def)

lemma handled_open: "(handled r s w)\<lparr>nw_open := nw_open w\<rparr> = handled r s w"
  by (cases w) (simp add: handled_def Let_def)

lemma handled_handled:
  assumes "grows (nw_chat w r) s" "grows s t"
  shows "handled r t (handled r s w) = handled r t w"
proof -
  obtain n1 n2 where "ch_out s = ch_out (nw_chat w r) @ n1" "ch_out t = ch_out (nw_chat w r) @ n1 @ n2"
    using assms by (auto simp: grows_def)
  then show ?thesis by (cases w) (simp add: handled_def emit_to_def[abs_def] fun_upd_def fun_eq_iff)
qed

lemma ask_handled:
  "ask so db ec g key rp v (handled r s w)
     = (fst (ask so db ec g key rp v w), handled r s (snd (ask so db ec g key rp v w)))"
  by (cases v) (simp_all add: known_sender_def shared_history_def handled_def Let_def case_prod_beta')

lemma grows_stage: "grows a s \<Longrightarrow> chat_apply ec g key s e = t \<Longrightarrow> grows a t"
  using grows_trans grows_apply by blast

lemma client_stage:
  assumes g: "grows (nw_chat w r) s" and "event_socket e = Some sid" "sid \<in> set (nw_open w r)" "\<And>x. \<not> leaves x e"
    and t: "chat_apply ec g' key s e = t"
  shows "network_apply so db ec g' key (handled r s w) (NClient r e) = handled r t w"
proof -
  have st: "grows s t" using grows_apply t by blast
  have "filter (\<lambda>s. \<not> leaves s e) xs = xs" for xs using assms(4) by simp
  then show ?thesis using assms(2,3) t handled_handled[OF g st] by (simp add: client_def handled_open)
qed

lemma reply_stage:
  assumes g: "grows (nw_chat w r) s" and ws: "ch_waiting s = ws @ [(sid, v)]" and n: "n = length ws"
    and a: "ask so db ec g' key rp v w = (a, w1)" and t: "chat_apply ec g' key s (EAnswer n a) = t"
  shows "network_apply so db ec g' key (handled r s w) (NReply r n rp) = handled r t w1"
proof -
  have st: "grows s t" using grows_apply t by blast
  have w1: "w1 = snd (ask so db ec g' key rp v w)" using a by simp
  have g1: "grows (nw_chat w1 r) s" using g by (simp add: w1)
  show ?thesis
    using ws n a t handled_handled[OF g1 st] by (simp add: reply_to_def ask_handled del: chat_apply.simps)
qed

section \<open>Scripts\<close>

definition prompt :: "millis \<Rightarrow> nat \<Rightarrow> byte list \<Rightarrow> objectid \<Rightarrow> jsstr \<Rightarrow> surroundings" where
  "prompt now seen random oid uuid =
     \<lparr>rp_fate = Answered, rp_seen = seen, rp_random = random, rp_now = now, rp_oid = oid, rp_uuid = uuid\<rparr>"

definition login_events ::
  "nat \<Rightarrow> nat \<Rightarrow> jsstr \<Rightarrow> jsval \<Rightarrow> nat \<Rightarrow> byte list \<Rightarrow> millis \<Rightarrow> jsval \<Rightarrow> millis \<Rightarrow> nat \<Rightarrow> network_event list" where
  "login_events r n sid hello k random began evidence ended k' =
     [NClient r (EAuthStart sid hello), NReply r n (prompt began k random 0 []),
      NClient r (EAuthResponse sid evidence ended), NReply r n (prompt ended 0 [] 0 []),
      NReply r n (prompt ended 0 [] 0 []), NReply r n (prompt ended k' [] 0 [])]"

definition message_events ::
  "nat \<Rightarrow> nat \<Rightarrow> jsstr \<Rightarrow> jsval \<Rightarrow> millis \<Rightarrow> byte list \<Rightarrow> millis \<Rightarrow> objectid \<Rightarrow> jsstr \<Rightarrow> network_event list" where
  "message_events r n sid said received nonce stored oid uuid =
     [NClient r (EChatMessage sid said received), NReply r n (prompt stored 0 nonce 0 []),
      NReply r n (prompt stored 0 [] oid uuid)]"

lemma network_login:
  assumes "\<not> logged_in sid (nw_chat w r)"
    and hello: "is_object hello" "validateUsername (get_field hello (js ''username'')) = Inr (Inr u)"
      "string_field hello (js ''publicKey'') = Some pk" "pk \<noteq> []"
    and existing: "\<And>e. known_sender so db k u w = Some e \<Longrightarrow> s_publicKey e = pk"
    and evidence: "string_field evidence (js ''signature'') = Some sig"
      "verifyBytes ec (from_base64 (createChallenge random)) sig pk" "ended \<le> began + CHALLENGE_TTL_MS"
    and free: "\<not> isUsernameTaken u (ch_presence (nw_chat w r))"
    and sid: "sid \<in> set (nw_open w r)" and history: "shared_history ec g key k' w = Some items"
    and n: "n = length (ch_waiting (nw_chat w r))"
  shows "run_events (network_apply so db ec g key) w (login_events r n sid hello k random began evidence ended k')
    = handled r (after_login sid u pk random items ended (nw_chat w r)) (w\<lparr>nw_keys := nw_keys w @ [(ended, u, pk)]\<rparr>)"
proof -
  let ?s = "nw_chat w r"
  let ?p = "\<lparr>pa_username = u, pa_publicKey = pk, pa_challenge = createChallenge random,
    pa_expiresAt = began + CHALLENGE_TTL_MS\<rparr>"
  let ?w = "w\<lparr>nw_keys := nw_keys w @ [(ended, u, pk)]\<rparr>"
  obtain s1 s2 s3 s4 s5
    where st: "chat_apply ec g key ?s (EAuthStart sid hello) = s1" "ch_waiting s1 = ch_waiting ?s @ [(sid, FindSender u pk)]"
      "chat_apply ec g key s1 (EAnswer (length (ch_waiting ?s)) (SenderAnswer (Some (known_sender so db k u w)) random began)) = s2"
      "chat_apply ec g key s2 (EAuthResponse sid evidence ended) = s3" "ch_waiting s3 = ch_waiting ?s @ [(sid, VerifyLogin ?p sig)]"
      "chat_apply ec g key s3 (EAnswer (length (ch_waiting ?s)) (Checked [] ended)) = s4"
      "ch_waiting s4 = ch_waiting ?s @ [(sid, RegisterSender ?p)]"
      "chat_apply ec g key s4 (EAnswer (length (ch_waiting ?s)) (Stored True)) = s5"
      "ch_waiting s5 = ch_waiting ?s @ [(sid, ReadHistory ?p)]"
      "\<And>items. chat_apply ec g key s5 (EAnswer (length (ch_waiting ?s)) (History (Some items) ended))
         = after_login sid u pk random items ended ?s"
    using login_stages[OF assms(1) hello existing evidence free refl, where g = g and key = key] by metis
  have h: "shared_history ec g key k' ?w = Some items" using history by (simp add: shared_history_def)
  note g1 = grows_stage[OF grows_refl st(1)]
  note g2 = grows_stage[OF g1 st(3)] note g3 = grows_stage[OF g2 st(4)]
  note g4 = grows_stage[OF g3 st(6)] note g5 = grows_stage[OF g4 st(8)]
  have 1: "network_apply so db ec g key w (NClient r (EAuthStart sid hello)) = handled r s1 w"
    using client_stage[where so = so and db = db, OF grows_refl _ sid _ st(1)] by simp
  have 2: "network_apply so db ec g key (handled r s1 w) (NReply r n (prompt began k random 0 [])) = handled r s2 w"
    using st(3) by (intro reply_stage[OF g1 st(2) n]) (simp_all add: n prompt_def del: chat_apply.simps)
  have 3: "network_apply so db ec g key (handled r s2 w) (NClient r (EAuthResponse sid evidence ended)) = handled r s3 w"
    by (intro client_stage[OF g2 _ sid _ st(4)]) simp_all
  have 4: "network_apply so db ec g key (handled r s3 w) (NReply r n (prompt ended 0 [] 0 [])) = handled r s4 w"
    using st(6) by (intro reply_stage[OF g3 st(5) n]) (simp_all add: n prompt_def del: chat_apply.simps)
  have 5: "network_apply so db ec g key (handled r s4 w) (NReply r n (prompt ended 0 [] 0 [])) = handled r s5 ?w"
    using st(8) by (intro reply_stage[OF g4 st(7) n]) (simp_all add: n prompt_def del: chat_apply.simps)
  have "grows (nw_chat ?w r) s5" using g5 by simp
  then have 6: "network_apply so db ec g key (handled r s5 ?w) (NReply r n (prompt ended k' [] 0 []))
      = handled r (after_login sid u pk random items ended ?s) ?w"
    using st(10)[of items] h by (intro reply_stage[OF _ st(9) n]) (simp_all add: n prompt_def del: chat_apply.simps)
  show ?thesis unfolding login_events_def run_events.simps 1 2 3 4 5 6 ..
qed

lemma shared_save:
  assumes "well_formed uuid" "well_formed (dr_username d)" "\<not> msgId_taken docs uuid"
  shows "saveMessage shared_insert oid uuid now (draft_args d stored (encrypt g key nonce (dr_text d))) docs
    = (Inr (toHexString oid), docs @ [document_of g key nonce oid uuid stored d])"
  using assms
  by (simp add: saveMessage_def shared_insert_def insertOne_def bson_def message_document_def draft_args_def
      document_of_def to_well_formed_id Let_def)

definition spoken_network :: "nat \<Rightarrow> hits \<Rightarrow> chat_broadcast \<Rightarrow> document \<Rightarrow> network \<Rightarrow> network" where
  "spoken_network r h cb doc w =
     handled r ((nw_chat w r)\<lparr>ch_limiter := h, ch_out := ch_out (nw_chat w r) @ [ToAll (ChatMessage cb)]\<rparr>)
       (w\<lparr>nw_docs := nw_docs w @ [doc]\<rparr>)"

lemma spoken_fields [simp]:
  "nw_sending (spoken_network r h cb doc w) = nw_sending w @ [(r, ToAll (ChatMessage cb))]"
  "nw_bus (spoken_network r h cb doc w) = nw_bus w" "nw_pos (spoken_network r h cb doc w) = nw_pos w"
  "nw_open (spoken_network r h cb doc w) = nw_open w" "nw_used (spoken_network r h cb doc w) = nw_used w"
  "nw_keys (spoken_network r h cb doc w) = nw_keys w" "nw_docs (spoken_network r h cb doc w) = nw_docs w @ [doc]"
  "q \<noteq> r \<Longrightarrow> nw_inbox (spoken_network r h cb doc w) q = nw_inbox w q"
  "q \<noteq> r \<Longrightarrow> nw_chat (spoken_network r h cb doc w) q = nw_chat w q"
  by (simp_all add: spoken_network_def handled_def Let_def)

lemma network_message:
  assumes who: "sd_username (ch_sockets (nw_chat w r) sid) = Some u" "u \<noteq> []"
      "sd_publicKey (ch_sockets (nw_chat w r) sid) = Some pk" "pk \<noteq> []"
    and allowed: "allow received sid (ch_limiter (nw_chat w r)) = (True, h)"
    and said: "is_object said" "validateMessage (get_field said (js ''text'')) = Inr t"
      "string_field said (js ''signature'') = Some sig" "sig \<noteq> []"
      "get_field said (js ''timestamp'') = Number m" "isTimestampFresh received m" "verifySignature ec u m t sig pk"
    and d: "d = \<lparr>dr_username = u, dr_clientTimestamp = m, dr_text = t, dr_signatureB64 = sig, dr_publicKey = pk\<rparr>"
    and sid: "sid \<in> set (nw_open w r)" and n: "n = length (ch_waiting (nw_chat w r))"
    and new: "well_formed uuid" "well_formed u" "\<not> msgId_taken (nw_docs w) uuid"
  shows "run_events (network_apply so db ec g key) w (message_events r n sid said received nonce stored oid uuid)
    = spoken_network r h (broadcast_of g key nonce (toHexString oid) stored d) (document_of g key nonce oid uuid stored d) w"
proof -
  let ?s = "nw_chat w r" and ?w = "w\<lparr>nw_docs := nw_docs w @ [document_of g key nonce oid uuid stored d]\<rparr>"
  obtain s1 s2
    where st: "chat_apply ec g key ?s (EChatMessage sid said received) = s1" "ch_waiting s1 = ch_waiting ?s @ [(sid, VerifyMessage d)]"
      "chat_apply ec g key s1 (EAnswer (length (ch_waiting ?s)) (Checked nonce stored)) = s2"
      "ch_waiting s2 = ch_waiting ?s @ [(sid, SaveMessage d stored (encrypt g key nonce t))]"
      "\<And>msgId. chat_apply ec g key s2 (EAnswer (length (ch_waiting ?s)) (Saved (Some msgId)))
         = ?s\<lparr>ch_limiter := h, ch_out := ch_out ?s @ [ToAll (ChatMessage (broadcast_of g key nonce msgId stored d))]\<rparr>"
    using message_stages[OF who allowed said d, where g = g and key = key and nonce = nonce and stored = stored] by metis
  have save: "saveMessage shared_insert oid uuid now (draft_args d stored (encrypt g key nonce t)) (nw_docs w)
      = (Inr (toHexString oid), nw_docs w @ [document_of g key nonce oid uuid stored d])" for now
    using shared_save[of uuid d "nw_docs w"] new by (simp add: d)
  note g1 = grows_stage[OF grows_refl st(1)] note g2 = grows_stage[OF g1 st(3)]
  have 1: "network_apply so db ec g key w (NClient r (EChatMessage sid said received)) = handled r s1 w"
    using client_stage[where so = so and db = db, OF grows_refl _ sid _ st(1)] by simp
  have 2: "network_apply so db ec g key (handled r s1 w) (NReply r n (prompt stored 0 nonce 0 [])) = handled r s2 w"
    using st(3) by (intro reply_stage[OF g1 st(2) n]) (simp_all add: n prompt_def del: chat_apply.simps)
  have 3: "network_apply so db ec g key (handled r s2 w) (NReply r n (prompt stored 0 [] oid uuid))
      = handled r (?s\<lparr>ch_limiter := h, ch_out := ch_out ?s
          @ [ToAll (ChatMessage (broadcast_of g key nonce (toHexString oid) stored d))]\<rparr>) ?w"
    using st(5) by (intro reply_stage[OF g2 st(4) n]) (simp_all add: n prompt_def save del: chat_apply.simps)
  show ?thesis unfolding message_events_def spoken_network_def run_events.simps 1 2 3 ..
qed

section \<open>The adapter catches up\<close>

lemma publish_all:
  "run_events (network_apply so db ec g key) w (replicate (length (nw_sending w)) (NPublish 0))
     = w\<lparr>nw_sending := [], nw_bus := nw_bus w @ nw_sending w\<rparr>"
proof (induction "nw_sending w" arbitrary: w)
  case (Cons m ms)
  let ?w = "w\<lparr>nw_sending := ms, nw_bus := nw_bus w @ [m]\<rparr>"
  have "network_apply so db ec g key w (NPublish 0) = ?w" using Cons.hyps(2)[symmetric] by (simp add: publish_def)
  then have "run_events (network_apply so db ec g key) w (replicate (length (nw_sending w)) (NPublish 0))
      = run_events (network_apply so db ec g key) ?w (replicate (length (nw_sending ?w)) (NPublish 0))"
    unfolding Cons.hyps(2)[symmetric] by simp
  also have "\<dots> = ?w\<lparr>nw_sending := [], nw_bus := nw_bus ?w @ nw_sending ?w\<rparr>" by (rule Cons.hyps(1)) simp
  finally show ?case unfolding Cons.hyps(2)[symmetric] by simp
qed (cases w; simp)

lemma follow_fields [simp]:
  "nw_chat (follow r w) = nw_chat w" "nw_open (follow r w) = nw_open w" "nw_sending (follow r w) = nw_sending w"
  "nw_bus (follow r w) = nw_bus w" "nw_docs (follow r w) = nw_docs w" "nw_keys (follow r w) = nw_keys w"
  by (simp_all add: follow_def Let_def case_prod_beta')

lemma follow_pos: "nw_pos w r < length (nw_bus w) \<Longrightarrow> nw_pos (follow r w) = (nw_pos w)(r := Suc (nw_pos w r))"
  by (auto simp: follow_def Let_def case_prod_beta')

text \<open>What following the rest of the collection adds to an inbox.\<close>

lemma follow_all:
  assumes "nw_pos w r + k = length (nw_bus w)"
    and "v = run_events (network_apply so db ec g key) w (replicate k (NFollow r))"
  shows "nw_pos v r = length (nw_bus w) \<and> nw_bus v = nw_bus w \<and> nw_sending v = nw_sending w \<and> nw_chat v = nw_chat w
    \<and> nw_docs v = nw_docs w \<and> nw_keys v = nw_keys w \<and> nw_open v = nw_open w \<and> (\<forall>q. q \<noteq> r \<longrightarrow> nw_inbox v q = nw_inbox w q)
    \<and> nw_inbox v r = emit_to (nw_open w r) (map snd (filter (\<lambda>m. fst m \<noteq> r) (drop (nw_pos w r) (nw_bus w)))) (nw_inbox w r)"
  using assms
proof (induction k arbitrary: w)
  case (Suc k)
  have lt: "nw_pos w r < length (nw_bus w)" using Suc.prems(1) by simp
  have "nw_pos (follow r w) r + k = length (nw_bus (follow r w))" using Suc.prems(1) by (simp add: follow_pos[OF lt])
  note IH = Suc.IH[OF this]
  obtain q e where m: "nw_bus w ! nw_pos w r = (q, e)" by fastforce
  then have d: "drop (nw_pos w r) (nw_bus w) = (q, e) # drop (Suc (nw_pos w r)) (nw_bus w)"
    using lt by (metis Cons_nth_drop_Suc)
  have inbox: "nw_inbox (follow r w) = (if q = r then nw_inbox w else (nw_inbox w)(r := emit_to (nw_open w r) [e] (nw_inbox w r)))"
    using lt m by (simp add: follow_def Let_def)
  have v: "v = run_events (network_apply so db ec g key) (follow r w) (replicate k (NFollow r))" using Suc.prems(2) by simp
  show ?case using IH[OF v] by (auto simp: inbox d follow_pos[OF lt] emit_to_def fun_eq_iff)
qed (simp add: emit_to_Nil)

text \<open>Everything on its way is written, and then backend \<open>r\<close> follows to the end.\<close>

definition catch_up :: "nat \<Rightarrow> network \<Rightarrow> network_event list" where
  "catch_up r w = replicate (length (nw_sending w)) (NPublish 0)
     @ replicate (length (nw_bus w) + length (nw_sending w) - nw_pos w r) (NFollow r)"

lemma caught_up_run:
  assumes "nw_pos w r \<le> length (nw_bus w)" and "v = run_events (network_apply so db ec g key) w (catch_up r w)"
  shows "nw_sending v = [] \<and> nw_bus v = nw_bus w @ nw_sending w \<and> nw_pos v r = length (nw_bus v) \<and> nw_chat v = nw_chat w
    \<and> nw_docs v = nw_docs w \<and> nw_keys v = nw_keys w \<and> nw_open v = nw_open w \<and> (\<forall>q. q \<noteq> r \<longrightarrow> nw_inbox v q = nw_inbox w q)
    \<and> nw_inbox v r = emit_to (nw_open w r)
        (map snd (filter (\<lambda>m. fst m \<noteq> r) (drop (nw_pos w r) (nw_bus w @ nw_sending w)))) (nw_inbox w r)"
proof -
  let ?w = "w\<lparr>nw_sending := [], nw_bus := nw_bus w @ nw_sending w\<rparr>"
  have "v = run_events (network_apply so db ec g key) ?w
      (replicate (length (nw_bus w) + length (nw_sending w) - nw_pos w r) (NFollow r))"
    using assms(2) unfolding catch_up_def run_events_append publish_all .
  from follow_all[OF _ this] show ?thesis using assms(1) by simp
qed

lemma list_all_replicate: "list_all P (replicate n x) = (n = 0 \<or> P x)"
  by (induction n) auto

lemma catch_up_stays: "list_all (stays r sid) (catch_up q w)"
  by (simp add: catch_up_def list_all_replicate)

section \<open>An attempt to log in\<close>

record attempt =
  at_socket :: jsstr
  at_hello :: jsval
  at_seen :: nat
  at_random :: "byte list"
  at_began :: millis
  at_evidence :: jsval
  at_ended :: millis
  at_shown :: nat

definition attempt_events :: "nat \<Rightarrow> nat \<Rightarrow> attempt \<Rightarrow> network_event list" where
  "attempt_events r n A = login_events r n (at_socket A) (at_hello A) (at_seen A) (at_random A) (at_began A)
     (at_evidence A) (at_ended A) (at_shown A)"

text \<open>What the client has to do, and what has to hold on the backend.\<close>

definition honest :: "'k ecdsa \<Rightarrow> jsstr \<Rightarrow> jsstr \<Rightarrow> attempt \<Rightarrow> bool" where
  "honest ec u pk A \<longleftrightarrow> is_object (at_hello A) \<and> validateUsername (get_field (at_hello A) (js ''username'')) = Inr (Inr u)
     \<and> string_field (at_hello A) (js ''publicKey'') = Some pk \<and> pk \<noteq> []
     \<and> (\<exists>sig. string_field (at_evidence A) (js ''signature'') = Some sig
          \<and> verifyBytes ec (from_base64 (createChallenge (at_random A))) sig pk)
     \<and> at_ended A \<le> at_began A + CHALLENGE_TTL_MS"

definition admits ::
  "'db sender_ops \<Rightarrow> 'db \<Rightarrow> 'k ecdsa \<Rightarrow> gcm \<Rightarrow> byte list \<Rightarrow> jsstr \<Rightarrow> jsstr \<Rightarrow> nat \<Rightarrow> attempt \<Rightarrow> network \<Rightarrow> bool" where
  "admits so db ec g key u pk r A w \<longleftrightarrow> at_socket A \<in> set (nw_open w r) \<and> \<not> logged_in (at_socket A) (nw_chat w r)
     \<and> \<not> isUsernameTaken u (ch_presence (nw_chat w r))
     \<and> (case known_sender so db (at_seen A) u w of None \<Rightarrow> True | Some e \<Rightarrow> s_publicKey e = pk)
     \<and> shared_history ec g key (at_shown A) w \<noteq> None"

text \<open>Whenever it is looked up, the name has no key yet or this one.\<close>

definition bound_to :: "'db sender_ops \<Rightarrow> 'db \<Rightarrow> jsstr \<Rightarrow> jsstr \<Rightarrow> network \<Rightarrow> bool" where
  "bound_to so db u pk w \<longleftrightarrow> (\<forall>k \<le> length (nw_keys w).
     case known_sender so db k u w of None \<Rightarrow> True | Some e \<Rightarrow> s_publicKey e = pk)"

definition logged_in_network :: "'k ecdsa \<Rightarrow> gcm \<Rightarrow> byte list \<Rightarrow> jsstr \<Rightarrow> jsstr \<Rightarrow> nat \<Rightarrow> attempt \<Rightarrow> network \<Rightarrow> network" where
  "logged_in_network ec g key u pk r A w =
     handled r (after_login (at_socket A) u pk (at_random A) (the (shared_history ec g key (at_shown A) w)) (at_ended A) (nw_chat w r))
       (w\<lparr>nw_keys := nw_keys w @ [(at_ended A, u, pk)]\<rparr>)"

lemma network_attempt:
  assumes h: "honest ec u pk A" and w: "admits so db ec g key u pk r A w" and n: "n = length (ch_waiting (nw_chat w r))"
  shows "run_events (network_apply so db ec g key) w (attempt_events r n A) = logged_in_network ec g key u pk r A w"
proof -
  obtain sig where sig: "string_field (at_evidence A) (js ''signature'') = Some sig"
    "verifyBytes ec (from_base64 (createChallenge (at_random A))) sig pk"
    using h unfolding honest_def by blast
  have bound: "known_sender so db (at_seen A) u w = Some e \<Longrightarrow> s_publicKey e = pk" for e using w by (simp add: admits_def)
  have "shared_history ec g key (at_shown A) w = Some (the (shared_history ec g key (at_shown A) w))"
    using w by (simp add: admits_def)
  then show ?thesis unfolding attempt_events_def logged_in_network_def
    using h w by (intro network_login[OF _ _ _ _ _ bound sig _ _ _ _ n]) (simp_all add: honest_def admits_def del: js_Cons)
qed

text \<open>What the sockets of the same backend hear of it, and what goes out to the others.\<close>

lemma attempt_inbox:
  "at_socket A \<in> set (nw_open w r) \<Longrightarrow> nw_inbox (logged_in_network ec g key u pk r A w) r (at_socket A) = nw_inbox w r (at_socket A)
     @ [AuthChallenge (createChallenge (at_random A)), JoinSuccess u, ChatHistory (the (shared_history ec g key (at_shown A) w)),
        OnlineUsers (list_users (add (at_socket A) u (ch_presence (nw_chat w r))))]"
  by (simp add: logged_in_network_def handled_def emit_to_def after_login_def Let_def)

lemma attempt_fields [simp]:
  "nw_chat (logged_in_network ec g key u pk r A w) = (nw_chat w)(r :=
     after_login (at_socket A) u pk (at_random A) (the (shared_history ec g key (at_shown A) w)) (at_ended A) (nw_chat w r))"
  "nw_open (logged_in_network ec g key u pk r A w) = nw_open w"
  "nw_bus (logged_in_network ec g key u pk r A w) = nw_bus w" "nw_pos (logged_in_network ec g key u pk r A w) = nw_pos w"
  "nw_docs (logged_in_network ec g key u pk r A w) = nw_docs w"
  "nw_keys (logged_in_network ec g key u pk r A w) = nw_keys w @ [(at_ended A, u, pk)]"
  by (simp_all add: logged_in_network_def)

lemma attempt_elsewhere [simp]:
  "q \<noteq> r \<Longrightarrow> nw_inbox (logged_in_network ec g key u pk r A w) q = nw_inbox w q"
  by (simp add: logged_in_network_def handled_def Let_def)

lemma attempt_sending [simp]:
  "nw_sending (logged_in_network ec g key u pk r A w) = nw_sending w
     @ [(r, ToOthers (at_socket A) (UserJoined u (at_ended A))), (r, ToAll (OnlineUsers (list_users (add (at_socket A) u (ch_presence (nw_chat w r))))))]"
  by (simp add: logged_in_network_def handled_def after_login_def Let_def)

lemma after_login_fields [simp]:
  "ch_presence (after_login sid u pk random items ended s) = add sid u (ch_presence s)"
  "ch_waiting (after_login sid u pk random items ended s) = ch_waiting s"
  "ch_limiter (after_login sid u pk random items ended s) = ch_limiter s"
  "sd_username (ch_sockets (after_login sid u pk random items ended s) sid) = Some u"
  "sd_publicKey (ch_sockets (after_login sid u pk random items ended s) sid) = Some pk"
  by (simp_all add: after_login_def)

lemma register_all_snoc:
  "register_all so (rs @ [(now, u, pk)]) db = registerSender so now u pk (register_all so rs db)"
  by (induction rs arbitrary: db) auto

lemma bound_lookup:
  "bound_to so db u pk w \<Longrightarrow> case known_sender so db k u w of None \<Rightarrow> True | Some e \<Rightarrow> s_publicKey e = pk"
proof -
  assume b: "bound_to so db u pk w"
  have "known_sender so db k u w = known_sender so db (min k (length (nw_keys w))) u w"
    by (cases "k \<le> length (nw_keys w)") (simp_all add: known_sender_def)
  then show ?thesis using b unfolding bound_to_def by (metis min.cobounded2)
qed

lemma bound_login:
  assumes law: "sender_law so" and b: "bound_to so db u pk w" and same: "to_lower v = to_lower u \<longrightarrow> pk' = pk"
  shows "bound_to so db u pk (logged_in_network ec g key v pk' r A w)"
  unfolding bound_to_def
proof (intro allI impI)
  fix k
  show "case known_sender so db k u (logged_in_network ec g key v pk' r A w) of None \<Rightarrow> True | Some e \<Rightarrow> s_publicKey e = pk"
  proof (cases "k \<le> length (nw_keys w)")
    case True
    then show ?thesis using b by (simp add: bound_to_def known_sender_def)
  next
    case False
    then show ?thesis using bound_lookup[OF b, of "length (nw_keys w)"] law same
      by (auto simp: known_sender_def find_register register_all_snoc split: option.splits)
  qed
qed

lemma listed_after_add: "u \<in> set (list_users (add sid u p))"
proof -
  have "map_of (AList.update sid u (usersBySocketId p)) sid = Some u" by simp
  from map_of_SomeD[OF this] show ?thesis by (force simp: list_users_def add_def)
qed

lemma listed_add_subset: "set (list_users (add sid u p)) \<subseteq> insert u (set (list_users p))"
  using set_update_subset[of sid u "usersBySocketId p"] by (force simp: list_users_def add_def)

lemma open_socket_fields [simp]:
  "nw_chat (open_socket r sid w) = nw_chat w" "nw_inbox (open_socket r sid w) = nw_inbox w"
  "nw_sending (open_socket r sid w) = nw_sending w" "nw_bus (open_socket r sid w) = nw_bus w"
  "nw_pos (open_socket r sid w) = nw_pos w" "nw_keys (open_socket r sid w) = nw_keys w" "nw_docs (open_socket r sid w) = nw_docs w"
  "sid \<notin> set (nw_used w r) \<Longrightarrow> nw_open (open_socket r sid w) = (nw_open w)(r := nw_open w r @ [sid])"
  "sid \<notin> set (nw_used w r) \<Longrightarrow> nw_used (open_socket r sid w) = (nw_used w)(r := nw_used w r @ [sid])"
  by (simp_all add: open_socket_def)

lemma attempt_used [simp]: "nw_used (logged_in_network ec g key u pk r A w) = nw_used w"
  by (simp add: logged_in_network_def)

section \<open>Samples\<close>

lemma new_network_fields [simp]:
  "nw_chat new_network r = new_chat" "nw_used new_network r = []" "nw_open new_network r = []" "nw_inbox new_network r sid = []"
  "nw_sending new_network = []" "nw_bus new_network = []" "nw_pos new_network r = 0" "nw_docs new_network = []" "nw_keys new_network = []"
  by (simp_all add: new_network_def)

lemma map_senders_law: "sender_law map_senders"
  by (auto simp: sender_law_def map_senders_def split: option.splits)

definition loki :: jsstr where
  "loki = js ''Loki''"

lemma loki_valid: "validateUsername (String loki) = Inr (Inr loki)" "loki \<noteq> thor" "to_lower loki \<noteq> to_lower thor"
  by (simp_all add: loki_def thor_def validateUsername_def string_or_empty_def absent_def js_trim_def is_js_space_def
      matches_USERNAME_PATTERN_def username_unit_def of_char_Char to_lower_def lower_unit_def)

definition lobby :: "network_event list" where
  "lobby = [NConnect 0 [1], NConnect 2 [2]]"

definition sample_attempt :: "jsstr \<Rightarrow> jsstr \<Rightarrow> attempt" where
  "sample_attempt sid u = \<lparr>at_socket = sid, at_hello = hello_of u key1, at_seen = 0, at_random = [7], at_began = 1000,
     at_evidence = evidence_of key1, at_ended = 1500, at_shown = 0\<rparr>"

lemma sample_attempt_fields [simp]:
  "at_socket (sample_attempt sid u) = sid" "at_seen (sample_attempt sid u) = 0" "at_shown (sample_attempt sid u) = 0"
  "at_ended (sample_attempt sid u) = 1500" "at_random (sample_attempt sid u) = [7]"
  by (simp_all add: sample_attempt_def)

abbreviation sample_run :: "network_event list \<Rightarrow> network" where
  "sample_run \<equiv> network_run map_senders Map.empty echo_ecdsa plain_gcm []"

lemma sample_honest:
  "validateUsername (String u) = Inr (Inr u) \<Longrightarrow> honest echo_ecdsa u key1 (sample_attempt sid u)"
  by (simp add: honest_def sample_attempt_def talk_fields CHALLENGE_TTL_MS_def del: js_Cons)

lemma lobby_fields:
  "nw_chat (sample_run lobby) r = new_chat" "nw_open (sample_run lobby) 0 = [[1]]" "nw_open (sample_run lobby) 2 = [[2]]"
  "nw_inbox (sample_run lobby) r sid = []" "nw_sending (sample_run lobby) = []" "nw_bus (sample_run lobby) = []"
  "nw_pos (sample_run lobby) r = 0" "nw_docs (sample_run lobby) = []" "nw_keys (sample_run lobby) = []"
  by (simp_all add: lobby_def network_run_def open_socket_def)

lemma sample_history [simp]: "shared_history ec g key 0 w = Some []"
  by (simp add: shared_history_def getHistory_def newest_first_def)

lemma sample_known [simp]: "known_sender map_senders Map.empty 0 u w = None"
  by (simp add: known_sender_def findSender_def map_senders_def)

lemma sample_admits:
  "sid \<in> set (nw_open w r) \<Longrightarrow> nw_chat w r = new_chat \<Longrightarrow>
   admits map_senders Map.empty ec g key u pk r (sample_attempt sid u') w"
  by (simp add: admits_def)

text \<open>Thor logs in on backend 0 and says hi.\<close>

definition sample_hello :: "network_event list" where
  "sample_hello = lobby @ attempt_events 0 0 (sample_attempt [1] thor)"

definition sample_said :: "network_event list" where
  "sample_said = sample_hello @ message_events 0 0 [1] (payload_of hi key1 2000) 2000 (replicate 12 0) 2001 5 (js ''id1'')"

definition sample_cb :: chat_broadcast where
  "sample_cb = broadcast_of plain_gcm [] (replicate 12 0) (toHexString 5) 2001 sample_draft"

lemma sample_hello_run: "sample_run sample_hello = logged_in_network echo_ecdsa plain_gcm [] thor key1 0 (sample_attempt [1] thor) (sample_run lobby)"
  unfolding sample_hello_def network_run_append
  by (rule network_attempt[OF sample_honest[OF thor_valid] sample_admits]) (simp_all add: lobby_fields)

lemma sample_said_run:
  "\<exists>h doc. sample_run sample_said = spoken_network 0 h sample_cb doc (sample_run sample_hello)"
proof -
  have thor_formed: "well_formed thor" unfolding thor_def by (rule well_formed_js)
  have "allow 2000 [1] (ch_limiter (nw_chat (sample_run sample_hello) 0)) = (True, [([1], [2000])])"
    by (simp add: sample_hello_run lobby_fields allow_def hits_of_def MAX_EVENTS_PER_WINDOW_def)
  note m = network_message[OF _ _ _ _ this, where said = "payload_of hi key1 2000" and d = sample_draft and u = thor and pk = key1
      and t = hi and sig = key1 and m = "int_number 2000" and n = 0 and uuid = "js ''id1''" and ec = echo_ecdsa]
  have "run_events (network_apply map_senders Map.empty echo_ecdsa plain_gcm []) (sample_run sample_hello)
      (message_events 0 0 [1] (payload_of hi key1 2000) 2000 (replicate 12 0) 2001 5 (js ''id1''))
    = spoken_network 0 [([1], [2000])] sample_cb
        (document_of plain_gcm [] (replicate 12 0) 5 (js ''id1'') 2001 sample_draft) (sample_run sample_hello)"
    unfolding sample_cb_def
    by (rule m) (simp_all add: sample_hello_run lobby_fields talk_fields hi_valid int_number_def maxSkewMs_def sample_draft_def
        well_formed_js thor_formed msgId_taken_def del: js_Cons)
  then show ?thesis unfolding sample_said_def network_run_append by blast
qed

lemma sample_heard: "ChatMessage sample_cb \<in> set (nw_inbox (sample_run (sample_said @ catch_up 2 (sample_run sample_said))) 2 [2])"
proof -
  obtain h doc where run: "sample_run sample_said = spoken_network 0 h sample_cb doc (sample_run sample_hello)"
    using sample_said_run by blast
  have "nw_pos (sample_run sample_said) 2 \<le> length (nw_bus (sample_run sample_said))" by (simp add: run sample_hello_run lobby_fields)
  from caught_up_run[OF this refl, of map_senders Map.empty echo_ecdsa plain_gcm "[]"] show ?thesis
    unfolding network_run_append by (simp add: run sample_hello_run lobby_fields emit_to_def)
qed

lemma sample_settled:
  "due 0 (sample_run (sample_said @ catch_up 2 (sample_run sample_said))) = {#}"
  "due 2 (sample_run (sample_said @ catch_up 2 (sample_run sample_said))) = {#}"
proof -
  let ?w = "sample_run (sample_said @ catch_up 2 (sample_run sample_said))"
  obtain h doc where run: "sample_run sample_said = spoken_network 0 h sample_cb doc (sample_run sample_hello)"
    using sample_said_run by blast
  have "nw_pos (sample_run sample_said) 2 \<le> length (nw_bus (sample_run sample_said))" by (simp add: run sample_hello_run lobby_fields)
  from caught_up_run[OF this refl, of map_senders Map.empty echo_ecdsa plain_gcm "[]"]
  have w: "nw_sending ?w = []" "nw_bus ?w = nw_sending (sample_run sample_said)" "nw_pos ?w 2 = length (nw_bus ?w)"
    unfolding network_run_append by (simp_all add: run sample_hello_run lobby_fields)
  show "due 2 ?w = {#}" by (simp add: due_def w)
  have "\<forall>m \<in> set (nw_bus ?w). fst m = 0" unfolding w(2) by (simp add: run sample_hello_run lobby_fields)
  then have "filter (\<lambda>m. fst m \<noteq> 0) (drop (nw_pos ?w 0) (nw_bus ?w)) = []" by (auto simp: filter_empty_conv dest!: in_set_dropD)
  then show "due 0 ?w = {#}" by (simp add: due_def w(1))
qed

text \<open>The same login, with the adapter settled for backend 0.\<close>

definition sample_settled_run :: "network_event list" where
  "sample_settled_run = sample_hello @ catch_up 0 (sample_run sample_hello)"

lemma sample_settled_fields:
  "nw_sending (sample_run sample_settled_run) = []"
  "nw_pos (sample_run sample_settled_run) 0 = length (nw_bus (sample_run sample_settled_run))"
  "nw_open (sample_run sample_settled_run) 0 = [[1]]" "nw_open (sample_run sample_settled_run) 2 = [[2]]"
  "nw_chat (sample_run sample_settled_run) 2 = new_chat"
  "Presence.get [1] (ch_presence (nw_chat (sample_run sample_settled_run) 0)) = Some thor"
proof -
  have "nw_pos (sample_run sample_hello) 0 \<le> length (nw_bus (sample_run sample_hello))" by (simp add: sample_hello_run lobby_fields)
  from caught_up_run[OF this refl, of map_senders Map.empty echo_ecdsa plain_gcm "[]"]
  show "nw_sending (sample_run sample_settled_run) = []"
    "nw_pos (sample_run sample_settled_run) 0 = length (nw_bus (sample_run sample_settled_run))"
    "nw_open (sample_run sample_settled_run) 0 = [[1]]" "nw_open (sample_run sample_settled_run) 2 = [[2]]"
    "nw_chat (sample_run sample_settled_run) 2 = new_chat"
    "Presence.get [1] (ch_presence (nw_chat (sample_run sample_settled_run) 0)) = Some thor"
    unfolding sample_settled_run_def network_run_append
    by (simp_all add: sample_hello_run lobby_fields Presence.get_def add_def)
qed

section \<open>Properties\<close>

text \<open>
  C6: Nothing unsigned is heard on any backend. Whatever the clients of all backends, the database and
  the adapter do, a chat message that reaches any socket names a valid username, carries a public key
  whose holder has signed a login challenge of one of the backends, and a text and a client
  timestamp that the holder of that key signed under that very name.
\<close>

theorem nothing_unsigned_is_heard:
  assumes law: "ecdsa_law ec attested" and w: "w = network_run so db ec g key es"
    and cb: "ChatMessage cb \<in> set (nw_inbox w r sid)"
  shows "\<exists>k n q sid' challenge. importKey ec (from_base64 (cb_senderPublicKey cb)) = Some k
    \<and> sf_clientTimestamp (cb_stored cb) = Some n
    \<and> attested k (buildCanonicalBytes (cb_username cb) n (cb_text cb))
    \<and> ToSocket sid' (AuthChallenge challenge) \<in> set (ch_out (nw_chat w q))
    \<and> attested k (from_base64 challenge) \<and> matches_USERNAME_PATTERN (cb_username cb)"
proof -
  have ok: "network_ok ec g key w" unfolding w by (rule network_run_ok)
  then have "ChatMessage cb \<in> event_of ` all_out w" using cb unfolding network_ok_def by blast
  then obtain q e where e: "e \<in> set (ch_out (nw_chat w q))" "event_of e = ChatMessage cb" by (auto simp: all_out_def)
  obtain es' where run: "nw_chat w q = chat_run ec g key es'" using ok unfolding network_ok_def by blast
  have "to_all e" using e(1) run chat_run_to_all by metis
  then have "e = ToAll (ChatMessage cb)" using e(2) by (cases e) auto
  then have "good_emission ec attested (ch_out (nw_chat w q)) (ToAll (ChatMessage cb))"
    using chat_run_inv[OF law, of g key es'] e(1) unfolding chat_inv_def run by blast
  then show ?thesis by (auto simp: key_proved_def message_signed_def good_name_def) blast
qed

theorem nothing_unsigned_is_heard_witness:
  "\<exists>k n q sid challenge. importKey echo_ecdsa (from_base64 key1) = Some k \<and> sf_clientTimestamp (cb_stored sample_cb) = Some n
     \<and> ToSocket sid (AuthChallenge challenge) \<in> set (ch_out (nw_chat (sample_run (sample_said @ catch_up 2 (sample_run sample_said))) q))"
proof -
  have "cb_senderPublicKey sample_cb = key1" by (simp add: sample_cb_def broadcast_of_def sample_draft_def)
  then show ?thesis using nothing_unsigned_is_heard[OF echo_law refl sample_heard] by auto
qed

text \<open>
  C7: Everyone hears everything once. Two sockets, on whichever backends, logged in or not, that stay
  connected between two moments at which nothing is on its way to their backends, have heard the
  same chat messages in between, each as often as it was sent: all that was sent on any
  backend.
\<close>

theorem everyone_hears_the_same:
  assumes v: "v = network_run so db ec g key es" and w: "w = network_run so db ec g key (es @ es')"
    and sockets: "a \<in> set (nw_open v r)" "b \<in> set (nw_open v q)" "list_all (stays r a) es'" "list_all (stays q b) es'"
    and settled: "due r v = {#}" "due q v = {#}" "due r w = {#}" "due q w = {#}"
  shows "heard_by r a w + sent v = heard_by r a v + sent w \<and> heard_by q b w + sent v = heard_by q b v + sent w
    \<and> heard_by r a w + heard_by q b v = heard_by r a v + heard_by q b w"
proof -
  have a: "heard_by r a w + sent v = heard_by r a v + sent w" and b: "heard_by q b w + sent v = heard_by q b v + sent w"
    using network_balance[of a so db ec g key es r es'] network_balance[of b so db ec g key es q es'] sockets settled v w
    by (simp_all add: balance_def)
  have "heard_by r a w + heard_by q b v + (sent v + sent w) = heard_by r a v + heard_by q b w + (sent v + sent w)"
    using arg_cong2[OF a b[symmetric], of "(+)"] by (simp add: ac_simps)
  then show ?thesis using a b by simp
qed

theorem everyone_hears_the_same_witness:
  "heard_by 0 [1] (sample_run (sample_said @ catch_up 2 (sample_run sample_said)))
     = heard_by 2 [2] (sample_run (sample_said @ catch_up 2 (sample_run sample_said)))
   \<and> sample_cb \<in># heard_by 2 [2] (sample_run (sample_said @ catch_up 2 (sample_run sample_said)))"
proof -
  let ?es = "attempt_events 0 0 (sample_attempt [1] thor)
     @ message_events 0 0 [1] (payload_of hi key1 2000) 2000 (replicate 12 0) 2001 5 (js ''id1'') @ catch_up 2 (sample_run sample_said)"
  have w: "sample_run (sample_said @ catch_up 2 (sample_run sample_said)) = sample_run (lobby @ ?es)"
    by (simp add: sample_said_def sample_hello_def)
  have stays: "list_all (stays 0 [1]) ?es" "list_all (stays 2 [2]) ?es"
    by (simp_all add: attempt_events_def login_events_def message_events_def catch_up_stays)
  from everyone_hears_the_same[OF refl w _ _ stays] sample_settled
  have "heard_by 0 [1] (sample_run (sample_said @ catch_up 2 (sample_run sample_said)))
     = heard_by 2 [2] (sample_run (sample_said @ catch_up 2 (sample_run sample_said)))"
    by (simp add: lobby_fields due_def heard_by_def)
  moreover have "sample_cb \<in># heard_by 2 [2] (sample_run (sample_said @ catch_up 2 (sample_run sample_said)))"
    using sample_heard by (force simp: heard_by_def messages_in_def)
  ultimately show ?thesis by simp
qed



text \<open>
  C24: The list of online users is that of one backend. When a user logs in on one backend and the adapter
  delivers, the sockets of another backend are told the names online on the first only: a user
  who is online on the second and not on the first is missing from the list that everyone has, his
  own included.
\<close>

theorem online_list_is_local:
  assumes w: "w = network_run so db ec g key es" and "r \<noteq> q"
    and quiet: "nw_sending w = []" "nw_pos w r = length (nw_bus w)"
    and online: "a \<in> set (nw_open w r)" "Presence.get a (ch_presence (nw_chat w r)) = Some u"
      "u \<notin> set (list_users (ch_presence (nw_chat w q)))" "u \<noteq> v" "a \<noteq> at_socket A"
    and login: "honest ec v pk A" "admits so db ec g key v pk q A w" "n = length (ch_waiting (nw_chat w q))"
    and w': "w' = network_run so db ec g key (es @ attempt_events q n A @ catch_up r (logged_in_network ec g key v pk q A w))"
  shows "\<exists>names. nw_inbox w' r a = nw_inbox w r a @ [UserJoined v (at_ended A), OnlineUsers names]
    \<and> u \<notin> set names \<and> v \<in> set names \<and> Presence.get a (ch_presence (nw_chat w' r)) = Some u"
proof -
  let ?names = "list_users (add (at_socket A) v (ch_presence (nw_chat w q)))"
  let ?v = "logged_in_network ec g key v pk q A w"
  have "w' = run_events (network_apply so db ec g key) ?v (catch_up r ?v)"
    unfolding w' network_run_append run_events_append w[symmetric] network_attempt[OF login] ..
  from caught_up_run[OF _ this] have run: "nw_chat w' = nw_chat ?v"
    "nw_inbox w' r = emit_to (nw_open w r) [ToOthers (at_socket A) (UserJoined v (at_ended A)), ToAll (OnlineUsers ?names)] (nw_inbox w r)"
    using quiet \<open>r \<noteq> q\<close> by simp_all
  then have "nw_inbox w' r a = nw_inbox w r a @ [UserJoined v (at_ended A), OnlineUsers ?names]"
    using online by (simp add: emit_to_def)
  moreover have "u \<notin> set ?names" using online(3,4) listed_add_subset by fastforce
  ultimately show ?thesis using run(1) online(2) \<open>r \<noteq> q\<close> listed_after_add by auto
qed

theorem online_list_is_local_witness:
  "\<exists>names. nw_inbox (sample_run (sample_settled_run @ attempt_events 2 0 (sample_attempt [2] loki)
       @ catch_up 0 (logged_in_network echo_ecdsa plain_gcm [] loki key1 2 (sample_attempt [2] loki) (sample_run sample_settled_run)))) 0 [1]
     = nw_inbox (sample_run sample_settled_run) 0 [1] @ [UserJoined loki 1500, OnlineUsers names] \<and> thor \<notin> set names"
proof -
  note f = sample_settled_fields
  have h: "honest echo_ecdsa loki key1 (sample_attempt [2] loki)" by (rule sample_honest[OF loki_valid(1)])
  have a: "admits map_senders Map.empty echo_ecdsa plain_gcm [] loki key1 2 (sample_attempt [2] loki) (sample_run sample_settled_run)"
    by (rule sample_admits) (simp_all add: f)
  from online_list_is_local[OF refl _ _ _ _ _ _ _ _ h a _ refl, where r = 0 and a = "[1]" and u = thor and n = 0]
  show ?thesis using loki_valid(2) by (simp add: f new_Presence_def list_users_def) blast
qed

text \<open>
  A name can be online more than once. Two sockets of different backends log in under one name with
  one key and are both let in, and both backends list the name: what one backend knows of the
  names that are online does not reach the other.
\<close>

theorem name_online_twice:
  assumes w: "w = network_run so db ec g key es" and "r \<noteq> q" and law: "sender_law so"
    and bound: "bound_to so db u pk w"
    and first: "honest ec u pk A" "admits so db ec g key u pk r A w" "n = length (ch_waiting (nw_chat w r))"
    and second: "honest ec u pk B" "admits so db ec g key u pk q B w" "m = length (ch_waiting (nw_chat w q))"
    and w': "w' = network_run so db ec g key (es @ attempt_events r n A @ attempt_events q m B)"
  shows "JoinSuccess u \<in> set (nw_inbox w' r (at_socket A)) \<and> JoinSuccess u \<in> set (nw_inbox w' q (at_socket B))
    \<and> u \<in> set (list_users (ch_presence (nw_chat w' r))) \<and> u \<in> set (list_users (ch_presence (nw_chat w' q)))"
proof -
  let ?v = "logged_in_network ec g key u pk r A w"
  have "bound_to so db u pk ?v" by (rule bound_login[OF law bound]) simp
  from bound_lookup[OF this] have "admits so db ec g key u pk q B ?v"
    using second(2) \<open>r \<noteq> q\<close>
    by (simp add: admits_def shared_history_def)
  from network_attempt[OF second(1) this, of m] have w': "w' = logged_in_network ec g key u pk q B ?v"
    unfolding w' network_run_append run_events_append w[symmetric] network_attempt[OF first] using second(3) \<open>r \<noteq> q\<close> by simp
  have "at_socket A \<in> set (nw_open w r)" "at_socket B \<in> set (nw_open ?v q)" using first(2) second(2) by (simp_all add: admits_def)
  then show ?thesis using \<open>r \<noteq> q\<close> listed_after_add by (auto simp: w' attempt_inbox)
qed

theorem name_online_twice_witness:
  "thor \<in> set (list_users (ch_presence (nw_chat (sample_run (lobby @ attempt_events 0 0 (sample_attempt [1] thor)
       @ attempt_events 2 0 (sample_attempt [2] thor))) 2)))"
proof -
  have bound: "bound_to map_senders Map.empty thor key1 (sample_run lobby)" by (simp add: bound_to_def lobby_fields)
  note honest = sample_honest[OF thor_valid]
  have a: "admits map_senders Map.empty echo_ecdsa plain_gcm [] thor key1 0 (sample_attempt [1] thor) (sample_run lobby)"
    "admits map_senders Map.empty echo_ecdsa plain_gcm [] thor key1 2 (sample_attempt [2] thor) (sample_run lobby)"
    by (rule sample_admits; simp add: lobby_fields)+
  show ?thesis
    using name_online_twice[OF refl _ map_senders_law bound honest a(1) _ honest a(2) _ refl, of 0 0] by (simp add: lobby_fields)
qed

end
