(* ===== verification/Cross_Replica.thy ===== *)
theory Cross_Replica
  imports Network_Runs
begin

text \<open>
  \<open>cross_replica_test.js\<close>: three clients on three backends, one of which sends a message, one of which
  has to hear it live, and one of which has to read it back from the history. The clients and
  the verdict are the script's; they are played against the network of \<open>Chat_Network\<close>.
\<close>

section \<open>Identities\<close>

text \<open>\<open>saved\<close> is the file of identities; \<open>generated\<close> is the key pair that WebCrypto makes, and \<open>sign\<close> its
  signature in base64.\<close>

record 'p visitor =
  vs_username :: jsstr
  vs_publicKey :: jsstr
  vs_privateKey :: 'p

definition identity ::
  "'p \<times> jsstr \<Rightarrow> jsstr \<Rightarrow> (jsstr \<Rightarrow> ('p \<times> jsstr) option) \<Rightarrow> 'p visitor \<times> (jsstr \<Rightarrow> ('p \<times> jsstr) option)" where
  "identity generated username saved =
     (let saved' = (case saved username of None \<Rightarrow> saved(username \<mapsto> generated) | Some pair \<Rightarrow> saved)
      in (\<lparr>vs_username = username, vs_publicKey = snd (the (saved' username)), vs_privateKey = fst (the (saved' username))\<rparr>,
          saved'))"

definition check_visitors ::
  "(jsstr \<Rightarrow> 'p \<times> jsstr) \<Rightarrow> (jsstr \<Rightarrow> ('p \<times> jsstr) option) \<Rightarrow> ('p visitor \<times> 'p visitor \<times> 'p visitor) \<times> (jsstr \<Rightarrow> ('p \<times> jsstr) option)" where
  "check_visitors generate saved =
     (let (sender, saved1) = identity (generate (js ''ananya'')) (js ''ananya'') saved;
          (listener, saved2) = identity (generate (js ''vikram'')) (js ''vikram'') saved1;
          (reader, saved3) = identity (generate (js ''meera'')) (js ''meera'') saved2
      in ((sender, listener, reader), saved3))"

text \<open>The keys of the first run are used again in every later one, whatever is generated then: a name
  keeps the key it is saved with.\<close>

lemma identity_known:
  "saved u = Some k \<Longrightarrow> identity generated u saved = (\<lparr>vs_username = u, vs_publicKey = snd k, vs_privateKey = fst k\<rparr>, saved)"
  by (simp add: identity_def)

lemma identity_saves:
  assumes "identity generated u saved = (v, saved')"
  shows "saved' u = Some (vs_privateKey v, vs_publicKey v)" "vs_username v = u" "saved w = Some k \<Longrightarrow> saved' w = Some k"
  using assms by (auto simp: identity_def Let_def split: option.splits)

lemma visitors_again:
  "fst (check_visitors generate' (snd (check_visitors generate saved))) = fst (check_visitors generate saved)"
proof -
  define a b c where "a = js ''ananya''" and "b = js ''vikram''" and "c = js ''meera''"
  obtain va s1 vb s2 vc s3 where i: "identity (generate a) a saved = (va, s1)" "identity (generate b) b s1 = (vb, s2)"
    "identity (generate c) c s2 = (vc, s3)"
    by (metis surj_pair)
  note a = identity_saves[OF i(1)] and b = identity_saves[OF i(2)] and c = identity_saves[OF i(3)]
  have "s3 a = Some (vs_privateKey va, vs_publicKey va)" "s3 b = Some (vs_privateKey vb, vs_publicKey vb)"
    using a(1) b(1,3) c(3) by simp_all
  with c(1) show ?thesis unfolding check_visitors_def a_def[symmetric] b_def[symmetric] c_def[symmetric]
    using a(2) b(2) c(2) by (simp add: i identity_known)
qed

section \<open>connectAndLogin\<close>

text \<open>What surrounds one login: the server's random bytes and clock, and how much its queries see.\<close>

record moment =
  mo_random :: "byte list"
  mo_began :: millis
  mo_ended :: millis
  mo_seen :: nat
  mo_shown :: nat

definition attempt_by :: "('p \<Rightarrow> byte list \<Rightarrow> jsstr) \<Rightarrow> 'p visitor \<Rightarrow> jsstr \<Rightarrow> moment \<Rightarrow> attempt" where
  "attempt_by sign v sid m =
     \<lparr>at_socket = sid, at_hello = hello_of (vs_username v) (vs_publicKey v), at_seen = mo_seen m, at_random = mo_random m,
      at_began = mo_began m, at_evidence = evidence_of (sign (vs_privateKey v) (from_base64 (createChallenge (mo_random m)))),
      at_ended = mo_ended m, at_shown = mo_shown m\<rparr>"

definition connectAndLogin ::
  "('p \<Rightarrow> byte list \<Rightarrow> jsstr) \<Rightarrow> 'p visitor \<Rightarrow> nat \<Rightarrow> nat \<Rightarrow> jsstr \<Rightarrow> moment \<Rightarrow> network_event list" where
  "connectAndLogin sign v r n sid m = NConnect r sid # attempt_events r n (attempt_by sign v sid m)"

datatype login_result = LoggedIn | Refused join_reason | TimedOut

fun login_result_of :: "server_event list \<Rightarrow> login_result" where
  "login_result_of [] = TimedOut"
| "login_result_of (JoinError reason # evs) = Refused reason"
| "login_result_of (JoinSuccess u # evs) = LoggedIn"
| "login_result_of (ev # evs) = login_result_of evs"

text \<open>\<open>waitForHistory\<close>: the last history that came.\<close>

fun history_in :: "server_event list \<Rightarrow> history_item list option \<Rightarrow> history_item list option" where
  "history_in [] h = h"
| "history_in (ChatHistory items # evs) h = history_in evs (Some items)"
| "history_in (ev # evs) h = history_in evs h"

section \<open>main\<close>

definition check_text :: jsstr where
  "check_text = js ''does this reach the other back end''"

definition check_payload :: "('p \<Rightarrow> byte list \<Rightarrow> jsstr) \<Rightarrow> 'p visitor \<Rightarrow> int \<Rightarrow> jsval" where
  "check_payload sign v timestamp =
     payload_of check_text
       (sign (vs_privateKey v) (utf8 (vs_username v @ [10] @ number_text (int_number timestamp) @ [10] @ check_text))) timestamp"

definition received_from :: "jsstr \<Rightarrow> server_event list \<Rightarrow> chat_broadcast option" where
  "received_from username evs = List.find (\<lambda>cb. cb_username cb = username) (concat (map chat_of evs))"

text \<open>The result that the script prints and exits with: \<open>msg.signature\<close> is \<open>'valid'\<close> in every broadcast.\<close>

definition check_result :: "chat_broadcast option \<Rightarrow> history_item list option \<Rightarrow> bool" where
  "check_result received history =
     (case (received, history) of
        (Some msg, Some items) \<Rightarrow> List.find (\<lambda>i. hi_id i = cb_id msg) items \<noteq> None
      | _ \<Rightarrow> False)"

text \<open>One run: where the three sit, their sockets and moments, and the message's own values.\<close>

record check_run =
  cr_backends :: "nat \<times> nat \<times> nat"
  cr_sockets :: "jsstr \<times> jsstr \<times> jsstr"
  cr_moments :: "moment \<times> moment \<times> moment"
  cr_timestamp :: int
  cr_received :: millis
  cr_nonce :: "byte list"
  cr_stored :: millis
  cr_oid :: objectid
  cr_uuid :: jsstr

record check_outcome =
  co_sender :: login_result
  co_listener :: login_result
  co_reader :: login_result
  co_received :: "chat_broadcast option"
  co_history :: "history_item list option"

text \<open>The listener's handler for messages is registered once it is logged in. Between the message and the
  third login the adapter has delivered.\<close>

definition check_main ::
  "'db sender_ops \<Rightarrow> 'db \<Rightarrow> 'k ecdsa \<Rightarrow> gcm \<Rightarrow> byte list \<Rightarrow> ('p \<Rightarrow> byte list \<Rightarrow> jsstr) \<Rightarrow> 'p visitor \<Rightarrow> 'p visitor \<Rightarrow> 'p visitor
     \<Rightarrow> check_run \<Rightarrow> network \<Rightarrow> check_outcome" where
  "check_main so db ec g key sign sender listener reader c w =
     (let (r1, r2, r3) = cr_backends c; (s1, s2, s3) = cr_sockets c; (m1, m2, m3) = cr_moments c;
          run = run_events (network_apply so db ec g key);
          waiting = (\<lambda>v r. length (ch_waiting (nw_chat v r)));
          w1 = run w (connectAndLogin sign sender r1 (waiting w r1) s1 m1);
          w2 = run w1 (connectAndLogin sign listener r2 (waiting w1 r2) s2 m2);
          w3 = run w2 (message_events r1 (waiting w2 r1) s1 (check_payload sign sender (cr_timestamp c)) (cr_received c)
                 (cr_nonce c) (cr_stored c) (cr_oid c) (cr_uuid c));
          w4 = run w3 (catch_up r2 w3);
          w5 = run w4 (connectAndLogin sign reader r3 (waiting w4 r3) s3 m3)
      in \<lparr>co_sender = login_result_of (nw_inbox w1 r1 s1), co_listener = login_result_of (nw_inbox w2 r2 s2),
          co_reader = login_result_of (nw_inbox w5 r3 s3),
          co_received = received_from (vs_username sender) (drop (length (nw_inbox w2 r2 s2)) (nw_inbox w4 r2 s2)),
          co_history = history_in (nw_inbox w5 r3 s3) None\<rparr>)"

section \<open>One visitor\<close>

definition newcomer ::
  "'db sender_ops \<Rightarrow> 'db \<Rightarrow> 'k ecdsa \<Rightarrow> ('p \<Rightarrow> byte list \<Rightarrow> jsstr) \<Rightarrow> 'p visitor \<Rightarrow> nat \<Rightarrow> jsstr \<Rightarrow> moment \<Rightarrow> network \<Rightarrow> bool" where
  "newcomer so db ec sign v r sid m w \<longleftrightarrow> sid \<notin> set (nw_used w r) \<and> nw_inbox w r sid = [] \<and> \<not> logged_in sid (nw_chat w r)
     \<and> validateUsername (String (vs_username v)) = Inr (Inr (vs_username v)) \<and> vs_publicKey v \<noteq> []
     \<and> \<not> isUsernameTaken (vs_username v) (ch_presence (nw_chat w r)) \<and> bound_to so db (vs_username v) (vs_publicKey v) w
     \<and> mo_ended m \<le> mo_began m + CHALLENGE_TTL_MS"

definition signs :: "'k ecdsa \<Rightarrow> ('p \<Rightarrow> byte list \<Rightarrow> jsstr) \<Rightarrow> 'p visitor \<Rightarrow> bool" where
  "signs ec sign v \<longleftrightarrow> (\<forall>bytes. sign (vs_privateKey v) bytes \<noteq> [] \<and> verifyBytes ec bytes (sign (vs_privateKey v) bytes) (vs_publicKey v))"

lemma attempt_by_fields [simp]:
  "at_socket (attempt_by sign v sid m) = sid" "at_seen (attempt_by sign v sid m) = mo_seen m"
  "at_shown (attempt_by sign v sid m) = mo_shown m" "at_ended (attempt_by sign v sid m) = mo_ended m"
  "at_random (attempt_by sign v sid m) = mo_random m"
  by (simp_all add: attempt_by_def)

definition entered :: "'k ecdsa \<Rightarrow> gcm \<Rightarrow> byte list \<Rightarrow> ('p \<Rightarrow> byte list \<Rightarrow> jsstr) \<Rightarrow> 'p visitor \<Rightarrow> nat \<Rightarrow> jsstr \<Rightarrow> moment \<Rightarrow> network \<Rightarrow> network" where
  "entered ec g key sign v r sid m w =
     logged_in_network ec g key (vs_username v) (vs_publicKey v) r (attempt_by sign v sid m) (open_socket r sid w)"

lemma connect_run:
  assumes v: "newcomer so db ec sign v r sid m w" "signs ec sign v" and h: "shared_history ec g key (mo_shown m) w \<noteq> None"
    and n: "n = length (ch_waiting (nw_chat w r))"
  shows "run_events (network_apply so db ec g key) w (connectAndLogin sign v r n sid m) = entered ec g key sign v r sid m w"
proof -
  let ?w = "open_socket r sid w" and ?A = "attempt_by sign v sid m"
  have "honest ec (vs_username v) (vs_publicKey v) ?A"
    using v by (simp add: honest_def attempt_by_def talk_fields newcomer_def signs_def del: js_Cons)
  moreover have "bound_to so db (vs_username v) (vs_publicKey v) ?w"
    using v(1) by (simp add: newcomer_def bound_to_def known_sender_def)
  from bound_lookup[OF this] have "admits so db ec g key (vs_username v) (vs_publicKey v) r ?A ?w"
    using v(1) h by (simp add: admits_def newcomer_def shared_history_def)
  ultimately show ?thesis
    using n by (simp add: connectAndLogin_def entered_def network_attempt)
qed

lemma entered_fields:
  assumes "sid \<notin> set (nw_used w r)"
  shows "nw_chat (entered ec g key sign v r sid m w) = (nw_chat w)(r := after_login sid (vs_username v) (vs_publicKey v)
      (mo_random m) (the (shared_history ec g key (mo_shown m) w)) (mo_ended m) (nw_chat w r))"
    "nw_inbox (entered ec g key sign v r sid m w) r sid = nw_inbox w r sid @ [AuthChallenge (createChallenge (mo_random m)),
      JoinSuccess (vs_username v), ChatHistory (the (shared_history ec g key (mo_shown m) w)),
      OnlineUsers (list_users (add sid (vs_username v) (ch_presence (nw_chat w r))))]"
    "q \<noteq> r \<Longrightarrow> nw_inbox (entered ec g key sign v r sid m w) q = nw_inbox w q"
    "nw_open (entered ec g key sign v r sid m w) = (nw_open w)(r := nw_open w r @ [sid])"
    "nw_used (entered ec g key sign v r sid m w) = (nw_used w)(r := nw_used w r @ [sid])"
    "nw_bus (entered ec g key sign v r sid m w) = nw_bus w" "nw_pos (entered ec g key sign v r sid m w) = nw_pos w"
    "nw_docs (entered ec g key sign v r sid m w) = nw_docs w"
    "nw_keys (entered ec g key sign v r sid m w) = nw_keys w @ [(mo_ended m, vs_username v, vs_publicKey v)]"
    "nw_sending (entered ec g key sign v r sid m w) = nw_sending w @ [(r, ToOthers sid (UserJoined (vs_username v) (mo_ended m))),
      (r, ToAll (OnlineUsers (list_users (add sid (vs_username v) (ch_presence (nw_chat w r))))))]"
proof -
  have h: "shared_history ec g key k (open_socket r sid w) = shared_history ec g key k w" for k by (simp add: shared_history_def)
  show "nw_inbox (entered ec g key sign v r sid m w) r sid = nw_inbox w r sid @ [AuthChallenge (createChallenge (mo_random m)),
      JoinSuccess (vs_username v), ChatHistory (the (shared_history ec g key (mo_shown m) w)),
      OnlineUsers (list_users (add sid (vs_username v) (ch_presence (nw_chat w r))))]"
    using attempt_inbox[of "attempt_by sign v sid m" "open_socket r sid w" r ec g key] assms h by (simp add: entered_def)
qed (use assms in \<open>simp_all add: entered_def shared_history_def\<close>)

lemma entered_newcomer:
  assumes "sender_law so" "newcomer so db ec' sign v r sid m w" "newcomer so db ec' sign v' r' sid' m' w" "r \<noteq> r'"
    and "to_lower (vs_username v) \<noteq> to_lower (vs_username v')"
  shows "newcomer so db ec' sign v' r' sid' m' (entered ec g key sign v r sid m w)"
proof -
  have b: "bound_to so db (vs_username v') (vs_publicKey v') (open_socket r sid w)"
    using assms(3) by (simp add: newcomer_def bound_to_def known_sender_def)
  have "bound_to so db (vs_username v') (vs_publicKey v') (entered ec g key sign v r sid m w)"
    unfolding entered_def by (rule bound_login[OF assms(1) b]) (use assms(5) in auto)
  moreover have "sid \<notin> set (nw_used w r)" using assms(2) by (simp add: newcomer_def)
  ultimately show ?thesis using assms(3,4) by (simp add: newcomer_def entered_fields logged_in_def)
qed

section \<open>The shared history\<close>

lemma loadHistory_loads:
  "\<forall>m \<in> set ms. sm_timestamp m \<noteq> None \<Longrightarrow> \<exists>items. loadHistory ec g key ms = Inr items \<and> map hi_id items = map sm_id ms"
proof (induction ms)
  case (Cons m ms)
  then obtain ts items where "sm_timestamp m = Some ts" "loadHistory ec g key ms = Inr items" "map hi_id items = map sm_id ms" by auto
  then show ?case by (auto simp: history_item_of_def Let_def split: sum.split)
qed simp

lemma stored_timestamp [simp]: "sm_timestamp (stored_message_of d) = d_timestamp d" "sm_id (stored_message_of d) = toHexString (d_id d)"
  by (simp_all add: stored_message_of_def)

lemma shared_history_loads:
  assumes "\<forall>d \<in> set (nw_docs w). d_timestamp d \<noteq> None"
  shows "shared_history ec g key k w \<noteq> None"
proof -
  have "\<forall>m \<in> set (getHistory (newest_first (take k (nw_docs w))) CHAT_ROOM_ID DEFAULT_HISTORY_LIMIT). sm_timestamp m \<noteq> None"
    using assms by (auto simp: getHistory_def newest_first_def dest!: in_set_takeD)
  from loadHistory_loads[OF this, of ec g key] show ?thesis by (auto simp: shared_history_def)
qed

lemma document_fields:
  "d_id (document_of g key nonce oid uuid stored d) = oid" "d_roomId (document_of g key nonce oid uuid stored d) = CHAT_ROOM_ID"
  "d_timestamp (document_of g key nonce oid uuid stored d) = Some stored"
  by (simp_all add: document_of_def message_document_def draft_args_def Let_def)

text \<open>A document newer than all others ends the history.\<close>

lemma shared_history_last:
  assumes docs: "nw_docs w = docs @ [doc]" "\<forall>d \<in> set docs. d_timestamp d \<noteq> None \<and> d_id d < d_id doc" "d_roomId doc = CHAT_ROOM_ID"
    and k: "length docs < k" and i: "history_item_of ec g key (stored_message_of doc) = Inr i"
  shows "\<exists>items. shared_history ec g key k w = Some (items @ [i]) \<and> toHexString (d_id doc) \<notin> hi_id ` set items"
proof -
  let ?room = "filter (\<lambda>d. d_roomId d = CHAT_ROOM_ID) docs"
  have all: "take k (nw_docs w) = docs @ [doc]" using docs(1) k by simp
  have "sort_key d_id (?room @ [doc]) = sort_key d_id ?room @ [doc]"
    by (rule sort_key_snoc) (use docs(2) in \<open>auto intro: less_imp_le\<close>)
  then obtain j where "rev (newest_first (docs @ [doc]) CHAT_ROOM_ID DEFAULT_HISTORY_LIMIT) = drop j (sort_key d_id ?room) @ [doc]"
    using docs(3) by (simp add: rev_newest_first Let_def DEFAULT_HISTORY_LIMIT_def)
  then have hist: "getHistory (newest_first (docs @ [doc])) CHAT_ROOM_ID DEFAULT_HISTORY_LIMIT
      = map stored_message_of (drop j (sort_key d_id ?room)) @ [stored_message_of doc]" (is "_ = ?old @ _") by (simp add: getHistory_def)
  have "\<forall>m \<in> set ?old. sm_timestamp m \<noteq> None" using docs(2) by (auto dest!: in_set_dropD)
  from loadHistory_loads[OF this, of ec g key] obtain items where items: "loadHistory ec g key ?old = Inr items" "map hi_id items = map sm_id ?old" by blast
  have "toHexString (d_id doc) \<notin> set (map sm_id ?old)"
    using docs(2) by (auto dest!: in_set_dropD toHexString_inject)
  then have "toHexString (d_id doc) \<notin> hi_id ` set items" using items(2) by (metis set_map)
  then show ?thesis using items(1) i unfolding shared_history_def all hist loadHistory_append by simp
qed

section \<open>The message and its way\<close>

lemma newcomer_cong:
  "newcomer so db ec sign v r sid m w \<Longrightarrow> nw_chat w' r = nw_chat w r \<Longrightarrow> nw_used w' r = nw_used w r \<Longrightarrow>
   nw_inbox w' r = nw_inbox w r \<Longrightarrow> nw_keys w' = nw_keys w \<Longrightarrow> newcomer so db ec sign v r sid m w'"
  by (simp add: newcomer_def bound_to_def known_sender_def)

lemma follow_used [simp]: "nw_used (follow r w) = nw_used w"
  by (simp add: follow_def Let_def case_prod_beta')

lemma catch_up_used: "nw_used (run_events (network_apply so db ec g key) w (catch_up r w)) = nw_used w"
proof -
  have "nw_used (run_events (network_apply so db ec g key) v (replicate k (NFollow r))) = nw_used v" for v k
    by (induction k arbitrary: v) auto
  then show ?thesis by (simp add: catch_up_def run_events_append publish_all)
qed

lemma unit_well_formed: "username_unit c \<Longrightarrow> \<not> is_high c \<and> \<not> is_low c"
proof -
  assume "username_unit c"
  then have "c \<le> 122" unfolding username_unit_def by (elim disjE conjE) (simp_all, (erule order_trans, simp)+)
  then have "unat c \<le> 122" by (simp add: word_le_nat_alt)
  then show ?thesis unfolding is_high_def is_low_def by auto
qed

lemma name_well_formed: "list_all username_unit u \<Longrightarrow> well_formed u"
proof (induction u rule: well_formed.induct)
  case (3 c d cs)
  then show ?case using unit_well_formed[of c] by simp
qed (use unit_well_formed in auto)

lemma check_text_valid: "validateMessage (String check_text) = Inr check_text" "well_formed check_text"
  by (simp_all only: check_text_def well_formed_js)
     (simp add: js_slice0_def validateMessage_def js_trim_def is_js_space_def MAX_MESSAGE_LENGTH_def of_char_Char)

lemma newcomer_loads:
  assumes new: "newcomer so db ec sign v r sid m w" "signs ec sign v" and docs: "\<forall>doc \<in> set (nw_docs w). d_timestamp doc \<noteq> None"
  shows "run_events (network_apply so db ec g key) w (connectAndLogin sign v r (length (ch_waiting (nw_chat w r))) sid m)
      = entered ec g key sign v r sid m w"
    and "login_result_of (nw_inbox (entered ec g key sign v r sid m w) r sid) = LoggedIn"
    and "history_in (nw_inbox (entered ec g key sign v r sid m w) r sid) None = shared_history ec g key (mo_shown m) w"
proof -
  have h: "shared_history ec g key (mo_shown m) w \<noteq> None" by (rule shared_history_loads[OF docs])
  show "run_events (network_apply so db ec g key) w (connectAndLogin sign v r (length (ch_waiting (nw_chat w r))) sid m)
      = entered ec g key sign v r sid m w"
    by (rule connect_run[OF new h refl])
  have "sid \<notin> set (nw_used w r)" "nw_inbox w r sid = []" using new(1) by (simp_all add: newcomer_def)
  then show "login_result_of (nw_inbox (entered ec g key sign v r sid m w) r sid) = LoggedIn"
    "history_in (nw_inbox (entered ec g key sign v r sid m w) r sid) None = shared_history ec g key (mo_shown m) w"
    using h by (simp_all add: entered_fields)
qed

text \<open>Two visitors on two backends log in, and a third is still welcome elsewhere.\<close>

lemma two_enter:
  assumes law: "sender_law so" and r: "r1 \<noteq> r2" "r1 \<noteq> r3" "r2 \<noteq> r3"
    and new: "newcomer so db ec sign a r1 s1 m1 w" "newcomer so db ec sign b r2 s2 m2 w" "newcomer so db ec sign d r3 s3 m3 w"
    and signers: "signs ec sign a" "signs ec sign b"
    and n: "to_lower (vs_username a) \<noteq> to_lower (vs_username b)" "to_lower (vs_username a) \<noteq> to_lower (vs_username d)"
      "to_lower (vs_username b) \<noteq> to_lower (vs_username d)"
    and stamped: "\<forall>doc \<in> set (nw_docs w). d_timestamp doc \<noteq> None"
    and w1: "w1 = entered ec g key sign a r1 s1 m1 w" and w2: "w2 = entered ec g key sign b r2 s2 m2 w1"
  shows "run_events (network_apply so db ec g key) w (connectAndLogin sign a r1 (length (ch_waiting (nw_chat w r1))) s1 m1) = w1"
    "run_events (network_apply so db ec g key) w1 (connectAndLogin sign b r2 (length (ch_waiting (nw_chat w1 r2))) s2 m2) = w2"
    "login_result_of (nw_inbox w1 r1 s1) = LoggedIn" "login_result_of (nw_inbox w2 r2 s2) = LoggedIn"
    "newcomer so db ec sign d r3 s3 m3 w2"
    "nw_docs w2 = nw_docs w" "nw_bus w2 = nw_bus w" "nw_pos w2 = nw_pos w" "s1 \<in> set (nw_open w2 r1)" "s2 \<in> set (nw_open w2 r2)"
    "sd_username (ch_sockets (nw_chat w2 r1) s1) = Some (vs_username a)" "sd_publicKey (ch_sockets (nw_chat w2 r1) s1) = Some (vs_publicKey a)"
    "ch_limiter (nw_chat w2 r1) = ch_limiter (nw_chat w r1)"
    "\<exists>l e e'. nw_sending w2 = nw_sending w @ [(r1, ToOthers s1 (UserJoined (vs_username a) (mo_ended m1))), (r1, ToAll (OnlineUsers l)), (r2, e), (r2, e')]"
proof -
  have used: "s1 \<notin> set (nw_used w r1)" using new(1) by (simp add: newcomer_def)
  note f1 = entered_fields[where ec = ec and g = g and key = key and sign = sign and v = a and m = m1, OF used, folded w1]
  have new1: "newcomer so db ec sign b r2 s2 m2 w1" "newcomer so db ec sign d r3 s3 m3 w1"
    unfolding w1 by (rule entered_newcomer[OF law new(1)]; use new r n in simp)+
  then have used1: "s2 \<notin> set (nw_used w1 r2)" by (simp add: newcomer_def)
  note f2 = entered_fields[where ec = ec and g = g and key = key and sign = sign and v = b and m = m2, OF used1, folded w2]
  have stamped1: "\<forall>doc \<in> set (nw_docs w1). d_timestamp doc \<noteq> None" using stamped by (simp add: f1)
  show "newcomer so db ec sign d r3 s3 m3 w2"
    unfolding w2 by (rule entered_newcomer[OF law new1(1)]) (use new1 r n in simp_all)
  show "run_events (network_apply so db ec g key) w (connectAndLogin sign a r1 (length (ch_waiting (nw_chat w r1))) s1 m1) = w1"
    "login_result_of (nw_inbox w1 r1 s1) = LoggedIn"
    unfolding w1 by (rule newcomer_loads[OF new(1) signers(1) stamped])+
  show "run_events (network_apply so db ec g key) w1 (connectAndLogin sign b r2 (length (ch_waiting (nw_chat w1 r2))) s2 m2) = w2"
    "login_result_of (nw_inbox w2 r2 s2) = LoggedIn"
    unfolding w2 by (rule newcomer_loads[OF new1(1) signers(2) stamped1])+
  show "nw_docs w2 = nw_docs w" "nw_bus w2 = nw_bus w" "nw_pos w2 = nw_pos w" "s1 \<in> set (nw_open w2 r1)" "s2 \<in> set (nw_open w2 r2)"
    "sd_username (ch_sockets (nw_chat w2 r1) s1) = Some (vs_username a)" "sd_publicKey (ch_sockets (nw_chat w2 r1) s1) = Some (vs_publicKey a)"
    "ch_limiter (nw_chat w2 r1) = ch_limiter (nw_chat w r1)"
    "\<exists>l e e'. nw_sending w2 = nw_sending w @ [(r1, ToOthers s1 (UserJoined (vs_username a) (mo_ended m1))), (r1, ToAll (OnlineUsers l)), (r2, e), (r2, e')]"
    using r by (simp_all add: f1 f2)
qed

definition check_draft :: "('p \<Rightarrow> byte list \<Rightarrow> jsstr) \<Rightarrow> 'p visitor \<Rightarrow> int \<Rightarrow> draft" where
  "check_draft sign v timestamp =
     \<lparr>dr_username = vs_username v, dr_clientTimestamp = int_number timestamp, dr_text = check_text,
      dr_signatureB64 = sign (vs_privateKey v) (buildCanonicalBytes (vs_username v) (int_number timestamp) check_text),
      dr_publicKey = vs_publicKey v\<rparr>"

lemma check_payload_fields:
  "is_object (check_payload sign v ts)" "get_field (check_payload sign v ts) (js ''text'') = String check_text"
  "string_field (check_payload sign v ts) (js ''signature'') = Some (dr_signatureB64 (check_draft sign v ts))"
  "get_field (check_payload sign v ts) (js ''timestamp'') = Number (int_number ts)"
  by (simp_all only: check_payload_def talk_fields check_draft_def draft.simps buildCanonicalBytes_def canonical_text_def)

lemma check_message_run:
  assumes who: "sd_username (ch_sockets (nw_chat w r) sid) = Some (vs_username v)"
      "sd_publicKey (ch_sockets (nw_chat w r) sid) = Some (vs_publicKey v)"
    and v: "validateUsername (String (vs_username v)) = Inr (Inr (vs_username v))" "vs_publicKey v \<noteq> []" "signs ec sign v"
    and allowed: "allow received sid (ch_limiter (nw_chat w r)) = (True, h)" "isTimestampFresh received (int_number ts)"
    and sid: "sid \<in> set (nw_open w r)" and new: "well_formed uuid" "\<not> msgId_taken (nw_docs w) uuid"
  shows "run_events (network_apply so db ec g key) w
      (message_events r (length (ch_waiting (nw_chat w r))) sid (check_payload sign v ts) received nonce stored oid uuid)
    = spoken_network r h (broadcast_of g key nonce (toHexString oid) stored (check_draft sign v ts))
        (document_of g key nonce oid uuid stored (check_draft sign v ts)) w"
proof -
  have u: "vs_username v \<noteq> []" "well_formed (vs_username v)"
    using good_name_valid[OF v(1)] good_name_nonempty name_well_formed by (auto simp: good_name_def matches_USERNAME_PATTERN_def)
  have sig: "dr_signatureB64 (check_draft sign v ts) \<noteq> []"
    "verifySignature ec (vs_username v) (int_number ts) check_text (dr_signatureB64 (check_draft sign v ts)) (vs_publicKey v)"
    using v(3) by (simp_all add: check_draft_def signs_def verifySignature_def)
  have "validateMessage (get_field (check_payload sign v ts) (js ''text'')) = Inr check_text"
    by (simp only: check_payload_fields check_text_valid)
  note said = check_payload_fields(1) this check_payload_fields(3) sig(1) check_payload_fields(4) allowed(2) sig(2)
  have d: "check_draft sign v ts = \<lparr>dr_username = vs_username v, dr_clientTimestamp = int_number ts, dr_text = check_text,
      dr_signatureB64 = dr_signatureB64 (check_draft sign v ts), dr_publicKey = vs_publicKey v\<rparr>" by (simp add: check_draft_def)
  show ?thesis by (rule network_message[OF who(1) u(1) who(2) v(2) allowed(1) said d sid refl new(1) u(2) new(2)])
qed

lemma check_item:
  assumes "gcm_law g" "length key = KEY_BYTES" "length nonce = NONCE_BYTES" "signs ec sign v"
  shows "\<exists>i. history_item_of ec g key (stored_message_of (document_of g key nonce oid uuid stored (check_draft sign v ts))) = Inr i
    \<and> hi_id i = cb_id (broadcast_of g key nonce (toHexString oid) stored (check_draft sign v ts))
    \<and> hi_username i = vs_username v \<and> hi_text i = Some check_text \<and> hi_signature i = Valid"
  unfolding row_of_def[symmetric]
  by (subst history_item_of_row[OF assms(1-3) _ _ refl])
     (use assms(4) in \<open>simp_all add: check_draft_def check_text_valid signs_def verifySignature_def broadcast_of_def\<close>)

text \<open>What the listener hears when the adapter delivers one login and one message.\<close>

lemma check_delivery:
  assumes pos: "nw_pos w r = length (nw_bus w)" and sid: "sid \<in> set (nw_open w r)" and "q \<noteq> r"
    and sending: "nw_sending w = [(q, ToOthers s x), (q, ToAll (OnlineUsers l)), (r, e1), (r, e2), (q, ToAll (ChatMessage cb))]"
    and x: "chat_of x = []" and w': "w' = run_events (network_apply so db ec g key) w (catch_up r w)"
  shows "received_from (cb_username cb) (drop (length (nw_inbox w r sid)) (nw_inbox w' r sid)) = Some cb"
proof -
  have "nw_inbox w' r sid = nw_inbox w r sid @ (if sid = s then [] else [x]) @ [OnlineUsers l, ChatMessage cb]"
    using caught_up_run[OF _ w'] pos sid sending \<open>q \<noteq> r\<close> by (simp add: emit_to_def)
  then show ?thesis using x by (simp add: received_from_def)
qed

section \<open>Properties\<close>


definition sample_visitor :: "jsstr \<Rightarrow> jsstr visitor" where
  "sample_visitor name = fst (identity (key1, key1) name Map.empty)"

definition sample_check :: check_run where
  "sample_check = (let m = \<lparr>mo_random = [7], mo_began = 1000, mo_ended = 1500, mo_seen = 0, mo_shown = 1\<rparr>
     in \<lparr>cr_backends = (0, 2, 1), cr_sockets = ([1], [2], [3]), cr_moments = (m, m, m), cr_timestamp = 2000, cr_received = 2000,
         cr_nonce = replicate 12 0, cr_stored = 2001, cr_oid = 5, cr_uuid = []\<rparr>)"

lemma names_valid:
  "validateUsername (String (js ''ananya'')) = Inr (Inr (js ''ananya''))"
  "validateUsername (String (js ''vikram'')) = Inr (Inr (js ''vikram''))"
  "validateUsername (String (js ''meera'')) = Inr (Inr (js ''meera''))"
  by (simp_all add: validateUsername_def string_or_empty_def absent_def js_trim_def is_js_space_def
      matches_USERNAME_PATTERN_def username_unit_def of_char_Char)

lemma sample_newcomer:
  assumes "validateUsername (String name) = Inr (Inr name)"
  shows "newcomer map_senders Map.empty echo_ecdsa (\<lambda>k bytes. k) (sample_visitor name) r sid
    \<lparr>mo_random = [7], mo_began = 1000, mo_ended = 1500, mo_seen = 0, mo_shown = 1\<rparr> new_network"
  using assms by (simp add: newcomer_def sample_visitor_def identity_def Let_def bound_to_def known_sender_def findSender_def map_senders_def CHALLENGE_TTL_MS_def)


end
