(* ===== verification/One_Room.thy ===== *)
theory One_Room
  imports Network_Runs
begin

text \<open>
  The two doors of the room: the HTTP API (\<open>src/api/routes.js\<close>) and the chat
  (\<open>src/socketHandlers.js\<close>) write into one collection and read it in two ways, as the feed of a
  backend and as the history that a login is sent. Each shows the messages of the other.
\<close>

section \<open>Where a document comes from\<close>

fun by_chat :: "cluster_event \<Rightarrow> bool" where
  "by_chat (CSaid nonce oid uuid stored d how) = True"
| "by_chat e = False"

text \<open>The chat saves only what it verified; in \<open>Network_Runs\<close> that is a theorem.\<close>

fun was_verified :: "'k ecdsa \<Rightarrow> cluster_event \<Rightarrow> bool" where
  "was_verified ec (CSaid nonce oid uuid stored d how) =
     verifySignature ec (dr_username d) (dr_clientTimestamp d) (dr_text d) (dr_signatureB64 d) (dr_publicKey d)"
| "was_verified ec e = True"

text \<open>The save step of the chat on several backends is the save event of the cluster.\<close>

lemma save_is_said:
  assumes "nw_docs w = cl_docs c"
  shows "nw_docs (snd (ask so db ec g key rp (SaveMessage d now (encrypt g key nonce (dr_text d))) w))
    = cl_docs (save_chat g key nonce (rp_oid rp) (rp_uuid rp) now d (rp_fate rp) c)"
proof -
  let ?a = "draft_args d now (encrypt g key nonce (dr_text d))"
  have "message_document oid uuid t ?a = document_of g key nonce oid uuid now d" for oid uuid t
    by (simp add: document_of_def message_document_def draft_args_def)
  then show ?thesis using assms
    by (simp add: saveMessage_def shared_insert_def cluster_fields split: prod.splits)
qed

text \<open>A stored document together with the message of the feed, and how the history judges it.\<close>

definition sealed_by :: "'k ecdsa \<Rightarrow> gcm \<Rightarrow> byte list \<Rightarrow> bool \<Rightarrow> feed_message \<Rightarrow> document \<Rightarrow> bool" where
  "sealed_by ec g key chat m doc \<longleftrightarrow> message_of g key 0 doc = m
     \<and> (\<exists>i. history_item_of ec g key (stored_message_of doc) = Inr i \<and> hi_username i = fm_client m \<and> hi_text i = fm_msg m
          \<and> fm_msg m \<noteq> None \<and> hi_timestamp i = fm_ts m \<and> hi_signature i = (if chat then Valid else Unsigned))"

lemma posted_sealed:
  assumes law: "gcm_law g" "length key = KEY_BYTES" and a: "accept_message g key fv req = Inr (Inr a)"
    and good: "good_post g key (CPost r fv req how)"
  shows "sealed_by ec g key False (message_of_accepted a) (bson (ac_document a))"
proof -
  have g: "length (fv_nonce fv) = NONCE_BYTES" "fv_uuid fv \<noteq> []" "survives a" using good a by auto
  note d = accepted_document[OF law a g]
  have doc: "ac_document a = http_document g key fv (ac_id a) (ac_client a) (ac_text a)" and ts: "ac_ts a = fv_now fv"
    using accepted_cases[OF a] by auto
  have "decrypt g key (Some (sl_ciphertext (encrypt g key (fv_nonce fv) (ac_text a)))) (Some (fv_nonce fv)) = Inr (ac_text a)"
    using decrypt_encrypt[OF law g(1), of "ac_text a"] g(3) by (simp add: survives_def to_well_formed_id)
  then show ?thesis unfolding d(1) using d(6)[of 0] ts
    by (simp add: sealed_by_def history_item_of_def verifyStoredSignature_def message_of_accepted_def local_message_def
        stored_message_of_def doc http_document_def Let_def)
qed

lemma said_sealed:
  assumes law: "gcm_law g" "length key = KEY_BYTES"
    and good: "good_post g key (CSaid nonce oid uuid stored d how)" "was_verified ec (CSaid nonce oid uuid stored d how)"
  shows "sealed_by ec g key True (said_message uuid stored d) (bson (document_of g key nonce oid uuid stored d))"
proof -
  note doc = said_document[OF law good(1)]
  have "length nonce = NONCE_BYTES" "well_formed (dr_text d)"
    "verifySignature ec (dr_username d) (dr_clientTimestamp d) (dr_text d) (dr_signatureB64 d) (dr_publicKey d)"
    using good by simp_all
  from history_item_of_row[OF law this refl, of oid uuid stored] show ?thesis
    unfolding doc(1) using doc(5)[of 0]
    by (simp add: sealed_by_def row_of_def[symmetric] broadcast_of_def said_message_def local_message_def)
qed

section \<open>What a run has stored\<close>

text \<open>A message of the run, marked with the door it came through, that the document holds.\<close>

definition traced :: "'k ecdsa \<Rightarrow> gcm \<Rightarrow> byte list \<Rightarrow> cluster_event list \<Rightarrow> document \<Rightarrow> bool" where
  "traced ec g key es doc \<longleftrightarrow> (\<exists>chat m. sealed_by ec g key chat m doc
     \<and> m \<in> set (posted g key (filter (\<lambda>e. by_chat e = chat) es)))"

lemma insertOne_set: "set (snd (insertOne ixs doc docs)) \<subseteq> insert doc (set docs)"
  by (auto simp: insertOne_def split: option.splits if_splits)

lemma event_documents:
  assumes law: "gcm_law g" "length key = KEY_BYTES" and good: "good_post g key e" "was_verified ec e"
    and doc: "doc \<in> set (cl_docs (cluster_apply df g key c e))"
  shows "doc \<in> set (cl_docs c) \<or> traced ec g key [e] doc"
proof (cases e)
  case (CPost r fv req how)
  show ?thesis
  proof (cases "\<exists>a. accept_message g key fv req = Inr (Inr a)")
    case True
    then obtain a where a: "accept_message g key fv req = Inr (Inr a)" by blast
    have "doc \<in> set (cl_docs c) \<or> doc = bson (ac_document a)"
      using doc a insertOne_set[of _ "bson (ac_document a)" "cl_docs c"] by (auto simp: CPost cluster_fields split: if_splits)
    then show ?thesis using posted_sealed[OF law a good(1)[unfolded CPost], of ec] a unfolding CPost traced_def
      by (auto intro!: exI[of _ False])
  next
    case False
    then show ?thesis using doc by (auto simp: CPost cluster_fields split: sum.splits)
  qed
next
  case (CSaid nonce oid uuid stored d how)
  have "doc \<in> set (cl_docs c) \<or> doc = bson (document_of g key nonce oid uuid stored d)"
    using doc insertOne_set[of _ "bson (document_of g key nonce oid uuid stored d)" "cl_docs c"]
    by (auto simp: CSaid cluster_fields split: if_splits)
  then show ?thesis using said_sealed[OF law good[unfolded CSaid]] unfolding CSaid traced_def
    by (auto intro!: exI[of _ True])
qed (use doc in \<open>simp_all add: cluster_fields\<close>)

lemma posted_append: "posted g key (xs @ ys) = posted g key xs @ posted g key ys"
proof (induction xs)
  case (Cons e es)
  then show ?case using posted_Cons[of g key e es] posted_Cons[of g key e "es @ ys"] by simp
qed simp

lemma traced_append: "traced ec g key xs doc \<or> traced ec g key ys doc \<Longrightarrow> traced ec g key (xs @ ys) doc"
  by (auto simp: traced_def posted_append)

lemma run_documents:
  assumes law: "gcm_law g" "length key = KEY_BYTES"
  shows "list_all (good_post g key) es \<Longrightarrow> list_all (was_verified ec) es \<Longrightarrow>
    doc \<in> set (cl_docs (run_events (cluster_apply df g key) c es)) \<Longrightarrow> doc \<in> set (cl_docs c) \<or> traced ec g key es doc"
proof (induction es arbitrary: c)
  case (Cons e es)
  have "doc \<in> set (cl_docs (cluster_apply df g key c e)) \<or> traced ec g key es doc" using Cons by simp
  then show ?case using event_documents[OF law, of e ec doc df c] traced_append[of ec g key "[e]" doc es] Cons.prems(1,2) by auto
qed simp

section \<open>Properties\<close>

text \<open>An entry of the history and a message of the feed that tell the same.\<close>

definition shown_as :: "gcm \<Rightarrow> byte list \<Rightarrow> cluster_event list \<Rightarrow> feed_message \<Rightarrow> history_item \<Rightarrow> bool" where
  "shown_as g key es m i \<longleftrightarrow> hi_username i = fm_client m \<and> hi_text i = fm_msg m \<and> fm_msg m \<noteq> None \<and> hi_timestamp i = fm_ts m
     \<and> (\<exists>chat. m \<in> set (posted g key (filter (\<lambda>e. by_chat e = chat) es)) \<and> hi_signature i = (if chat then Valid else Unsigned))"

lemma traced_item:
  assumes "traced ec g key es doc"
  shows "\<exists>i. history_item_of ec g key (stored_message_of doc) = Inr i \<and> shown_as g key es (message_of g key 0 doc) i"
proof -
  obtain chat m i where m: "message_of g key 0 doc = m" "m \<in> set (posted g key (filter (\<lambda>e. by_chat e = chat) es))"
    and i: "history_item_of ec g key (stored_message_of doc) = Inr i" "hi_username i = fm_client m" "hi_text i = fm_msg m" "fm_msg m \<noteq> None"
      "hi_timestamp i = fm_ts m" "hi_signature i = (if chat then Valid else Unsigned)"
    using assms unfolding traced_def sealed_by_def by blast
  have "shown_as g key es m i" unfolding shown_as_def using m(2) i(2-6) by blast
  then show ?thesis using i(1) m(1) by blast
qed

lemma loadHistory_all:
  "\<forall>d \<in> set ds. \<exists>i. history_item_of ec g key (f d) = Inr i \<and> P (h d) i \<Longrightarrow>
     \<exists>items. loadHistory ec g key (map f ds) = Inr items \<and> list_all2 P (map h ds) items"
  by (induction ds) auto

lemma newest_first_all:
  assumes "\<forall>d \<in> set docs. d_roomId d = r"
  shows "set (newest_first docs r n) \<subseteq> set docs" "length (newest_first docs r n) = min n (length docs)"
    "length docs \<le> n \<Longrightarrow> set (newest_first docs r n) = set docs"
    "distinct (map f docs) \<Longrightarrow> distinct (map f (newest_first docs r n))"
proof -
  have all: "filter (\<lambda>d. d_roomId d = r) docs = docs" using assms by simp
  show "set (newest_first docs r n) \<subseteq> set docs" using set_take_subset by (fastforce simp: newest_first_def all)
  show "length (newest_first docs r n) = min n (length docs)" by (simp add: newest_first_def all min.commute)
  show "length docs \<le> n \<Longrightarrow> set (newest_first docs r n) = set docs" by (simp add: newest_first_def all)
  assume "distinct (map f docs)"
  moreover have "mset (map f (sort_key d_id docs)) = mset (map f docs)" by simp
  ultimately have "distinct (map f (sort_key d_id docs))" by (metis mset_eq_imp_distinct_iff)
  then show "distinct (map f (newest_first docs r n))"
    by (simp add: newest_first_def all take_map[symmetric] rev_map[symmetric] distinct_take)
qed

lemma room_agrees:
  assumes law: "gcm_law g" "length key = KEY_BYTES" and cap: "1 \<le> cap"
    and good: "list_all (good_post g key) es" "list_all (was_verified ec) es"
    and c: "c = cluster_run df g key cap es" and caught_up: "caught_up r c" and room: "length (cl_docs c) \<le> cap"
    and once: "inj_on fm_id (set (posted g key es))"
  shows "\<exists>ms items. loadHistory ec g key (getHistory (newest_first (cl_docs c)) CHAT_ROOM_ID n) = Inr items
    \<and> list_all2 (shown_as g key es) ms items \<and> length items = min n (length (cl_docs c)) \<and> distinct ms
    \<and> entry_of ` set ms \<subseteq> set (fs_entries (fst (cl_stores c r)))
    \<and> (length (cl_docs c) \<le> n \<longrightarrow> entry_of ` set ms = set (fs_entries (fst (cl_stores c r))))"
proof -
  let ?shown = "rev (newest_first (cl_docs c) CHAT_ROOM_ID n)" and ?m = "message_of g key 0"
  have ok: "cluster_ok df g key cap (set (posted g key es)) c" unfolding c by (rule cluster_run_ok[OF law cap good(1)])
  then have "\<forall>d \<in> set (cl_docs c). d_roomId d = CHAT_ROOM_ID" and keys: "distinct (map document_key (cl_docs c))"
    by (simp_all add: cluster_ok_def CHAT_ROOM_ID_def ROOM_ID_def)
  note shown = newest_first_all[OF this(1), where n = n]
  have traced: "traced ec g key es doc" if "doc \<in> set (cl_docs c)" for doc
    using run_documents[OF law good, of doc df "new_cluster df cap"] that unfolding c cluster_run_def by (simp add: new_cluster_def)
  have "\<forall>d \<in> set ?shown. \<exists>i. history_item_of ec g key (stored_message_of d) = Inr i \<and> shown_as g key es (?m d) i"
    using shown(1) by (intro ballI traced_item traced) auto
  from loadHistory_all[where f = stored_message_of and P = "shown_as g key es" and h = ?m, OF this] obtain items
    where items: "loadHistory ec g key (map stored_message_of ?shown) = Inr items" "list_all2 (shown_as g key es) (map ?m ?shown) items"
    by blast
  have "set (fs_entries (fst (cl_stores c r))) = (\<lambda>d. entry_of (?m d)) ` set (cl_docs c)"
    using caught_up_entries[OF law cap good(1) c caught_up room refl] once by simp
  moreover have "distinct (map fm_id (map ?m ?shown))"
    using shown(4)[OF keys] by (simp add: rev_map[symmetric] o_def)
  then have "distinct (map ?m ?shown)" by (simp only: distinct_map)
  moreover have "length items = min n (length (cl_docs c))" using list_all2_lengthD[OF items(2)] shown(2) by simp
  ultimately show ?thesis using items shown(1,3) unfolding getHistory_def
    by (intro exI[of _ "map ?m ?shown"] exI[of _ items]) (auto simp: image_image)
qed

text \<open>
  The feed and the history show one room. When a run of posts and chat messages, under distinct
  ids, is within the cap and a backend has heard everything, the history that a login is sent loads,
  its entries are in the feed with the same name, text and time, and when the limit of the history
  covers the room the two hold the same messages; a message of the chat has a valid signature in
  the history, one of the HTTP API is reported as unsigned.
\<close>

theorem feed_and_history_agree:
  assumes law: "gcm_law g" "length key = KEY_BYTES" and cap: "1 \<le> cap"
    and good: "list_all (good_post g key) es" "list_all (was_verified ec) es"
    and c: "c = cluster_run df g key cap es" and caught_up: "caught_up r c" and room: "length (cl_docs c) \<le> cap"
    and once: "distinct (map fm_id (posted g key es))"
  shows "\<exists>ms items. loadHistory ec g key (getHistory (newest_first (cl_docs c)) CHAT_ROOM_ID n) = Inr items
    \<and> list_all2 (shown_as g key es) ms items \<and> length items = min n (length (cl_docs c)) \<and> distinct ms
    \<and> entry_of ` set ms \<subseteq> set (fs_entries (fst (cl_stores c r)))
    \<and> (length (cl_docs c) \<le> n \<longrightarrow> entry_of ` set ms = set (fs_entries (fst (cl_stores c r))))"
  using room_agrees[OF assms(1-8)] once by (simp add: distinct_map)

theorem feed_and_history_agree_witness:
  "\<exists>ms items. loadHistory echo_ecdsa plain_gcm (replicate 32 1)
       (getHistory (newest_first (cl_docs (cluster_run storing_df plain_gcm (replicate 32 1) 9 sample_posts))) CHAT_ROOM_ID 100) = Inr items
     \<and> list_all2 (shown_as plain_gcm (replicate 32 1) sample_posts) ms items \<and> length items = 3
     \<and> entry_of ` set ms = set (fs_entries (fst (cl_stores (cluster_run storing_df plain_gcm (replicate 32 1) 9 sample_posts) 1)))"
proof -
  have "list_all (was_verified echo_ecdsa) sample_posts" by (simp add: sample_posts_def sample_draft_def)
  from feed_and_history_agree[OF plain_gcm_law _ _ sample_posts_run(1) this refl _ _ sample_posts_run(3), of 9 1 storing_df 100]
  show ?thesis using sample_posts_run(2) by (auto simp: KEY_BYTES_def caught_up_def)
qed

end
