(* ===== verification/Deployment.thy ===== *)
theory Deployment
  imports Replicas
begin

text \<open>
  The way of a message through the whole server: \<open>handleMessage\<close> of \<open>src/api/router.js\<close> on every backend,
  each with its own write queue (\<open>writeQueue.js\<close>) and feed, over one collection. \<open>Replicas\<close> writes a
  posted document in one step; here it waits in a queue, travels in a batch, is tried by the
  database at any time while the batch is under way or after its answer was given up, and its
  handler goes on when the batch is answered. Both are related by a refinement.
\<close>

section \<open>The deployment\<close>

text \<open>What the database made of one operation of a bulk write: the document is in, its id was taken, or
  it failed for another reason.\<close>

datatype op_result = OpWritten | OpDuplicate | OpFailed

text \<open>\<open>dp_calls r\<close> are the handlers of backend \<open>r\<close> that have called \<open>insert\<close>, by the number of their promise;
  \<open>dp_adrift r\<close> the documents of bulk writes whose answer never came; \<open>dp_tried\<close> the operations that the
  database has carried out, in order; \<open>dp_answers\<close> the responses after the \<open>await\<close>.\<close>

record 'z deployment =
  dp_docs :: "document list"
  dp_stores :: "nat \<Rightarrow> 'z logged"
  dp_pos :: "nat \<Rightarrow> nat"
  dp_queues :: "nat \<Rightarrow> document wq_machine"
  dp_calls :: "nat \<Rightarrow> (fresh_values \<times> request \<times> accepted) list"
  dp_adrift :: "nat \<Rightarrow> document item list"
  dp_tried :: "((nat \<times> promise) \<times> op_result) list"
  dp_answers :: "((nat \<times> promise) \<times> (refusal + reply)) list"

datatype deployment_event =
    DRequest nat fresh_values request
  | DImmediate nat
  | DOperation nat promise bool
  | DAnswer nat nat bulk_result
  | DSaid "byte list" objectid jsstr millis draft fate
  | DDeliver nat millis

definition deploy :: "'z deflater \<Rightarrow> nat \<Rightarrow> nat \<Rightarrow> int \<Rightarrow> 'z deployment" where
  "deploy df maxEntries maxBatch maxInFlight =
     \<lparr>dp_docs = [], dp_stores = (\<lambda>r. (new_FeedStore df maxEntries ROOM_ID, [])), dp_pos = (\<lambda>r. 0),
      dp_queues = (\<lambda>r. wq_start maxBatch maxInFlight), dp_calls = (\<lambda>r. []), dp_adrift = (\<lambda>r. []),
      dp_tried = [], dp_answers = []\<rparr>"

definition call_of :: "'z deployment \<Rightarrow> nat \<Rightarrow> promise \<Rightarrow> accepted" where
  "call_of s r p = snd (snd (dp_calls s r ! p))"

text \<open>\<open>handleMessage\<close> up to its \<open>await\<close>.\<close>

definition handle_request :: "gcm \<Rightarrow> byte list \<Rightarrow> nat \<Rightarrow> fresh_values \<Rightarrow> request \<Rightarrow> 'z deployment \<Rightarrow> 'z deployment" where
  "handle_request g key r fv req s =
     (case accept_message g key fv req of
        Inr (Inr a) \<Rightarrow> s\<lparr>dp_calls := (dp_calls s)(r := dp_calls s r @ [(fv, req, a)]),
                         dp_queues := (dp_queues s)(r := insert_doc (ac_document a) (dp_queues s r))\<rparr>
      | _ \<Rightarrow> s)"

definition run_immediate :: "nat \<Rightarrow> 'z deployment \<Rightarrow> 'z deployment" where
  "run_immediate r s =
     (let m = dp_queues s r
      in if wm_immediates m = 0 then s
         else s\<lparr>dp_queues := (dp_queues s)(r := flush (m\<lparr>wm_immediates := wm_immediates m - 1\<rparr>))\<rparr>)"

text \<open>The database carries out one operation of a bulk write that was sent, once.\<close>

definition under_way :: "nat \<Rightarrow> 'z deployment \<Rightarrow> document item list" where
  "under_way r s = concat (wm_bulks (dp_queues s r)) @ dp_adrift s r"

definition operate :: "nat \<Rightarrow> promise \<Rightarrow> bool \<Rightarrow> 'z deployment \<Rightarrow> 'z deployment" where
  "operate r p broken s =
     (case find (\<lambda>item. snd item = p) (under_way r s) of
        None \<Rightarrow> s
      | Some (doc, _) \<Rightarrow>
          if map_of (dp_tried s) (r, p) \<noteq> None then s
          else if broken then s\<lparr>dp_tried := dp_tried s @ [((r, p), OpFailed)]\<rparr>
          else
            let (stored, docs) = insertOne [room_index, msgId_index] (bson doc) (dp_docs s)
            in s\<lparr>dp_docs := docs, dp_tried := dp_tried s @ [((r, p), if stored then OpWritten else OpDuplicate)]\<rparr>)"

text \<open>
  The documented answer to an unordered bulk write: success when every document is in; otherwise an
  error that lists, under their index, exactly the operations that did not go in, those with a
  taken id under code 11000; or an error without such a list, which says nothing.
\<close>

definition reported :: "write_error list \<Rightarrow> nat \<Rightarrow> write_error list" where
  "reported errors k = filter (\<lambda>e. we_index e = Some k) errors"

definition tells :: "op_result option \<Rightarrow> write_error list \<Rightarrow> bool" where
  "tells made es =
     (case made of
        None \<Rightarrow> False
      | Some OpWritten \<Rightarrow> es = []
      | Some OpDuplicate \<Rightarrow> es \<noteq> [] \<and> list_all (\<lambda>e. we_code e = Some DUPLICATE_KEY) es
      | Some OpFailed \<Rightarrow> es \<noteq> [] \<and> list_all (\<lambda>e. we_code e \<noteq> Some DUPLICATE_KEY) es)"

fun errors_of :: "bulk_result \<Rightarrow> write_error list" where
  "errors_of BulkOk = []"
| "errors_of (BulkFailed err) = normaliseWriteErrors (de_writeErrors err)"

definition lost :: "bulk_result \<Rightarrow> bool" where
  "lost result \<longleftrightarrow> result \<noteq> BulkOk \<and> errors_of result = []"

definition truthful :: "((nat \<times> promise) \<times> op_result) list \<Rightarrow> nat \<Rightarrow> document item list \<Rightarrow> bulk_result \<Rightarrow> bool" where
  "truthful tried r batch result \<longleftrightarrow> lost result \<or>
     list_all (\<lambda>k. tells (map_of tried (r, snd (batch ! k))) (reported (errors_of result) k)) [0..<length batch]"

text \<open>\<open>handleMessage\<close> after its \<open>await\<close>.\<close>

definition resume_handler ::
  "'z deflater \<Rightarrow> (nat \<Rightarrow> jsstr) \<Rightarrow> nat \<Rightarrow> promise \<times> outcome \<Rightarrow> 'z deployment \<Rightarrow> 'z deployment" where
  "resume_handler df inst r settled s =
     (case settled of (p, settlement) \<Rightarrow>
        let a = call_of s r p;
            (feed, hist) = dp_stores s r;
            (answer, feed') = finish_message df (inst r) a settlement feed
        in s\<lparr>dp_stores := (dp_stores s)(r := (feed',
               if (\<exists>d. settlement = Resolved d) \<and> ac_id a \<notin> fs_seen feed then hist @ [message_of_accepted a] else hist)),
             dp_answers := dp_answers s @ [((r, p), answer)]\<rparr>)"

text \<open>A bulk write is answered: \<open>flush\<close> goes on, and then the handlers whose promises it settled, in order.\<close>

definition answer_bulk ::
  "'z deflater \<Rightarrow> (nat \<Rightarrow> jsstr) \<Rightarrow> nat \<Rightarrow> nat \<Rightarrow> bulk_result \<Rightarrow> 'z deployment \<Rightarrow> 'z deployment" where
  "answer_bulk df inst r i result s =
     (let m = dp_queues s r
      in if length (wm_bulks m) \<le> i \<or> \<not> truthful (dp_tried s) r (wm_bulks m ! i) result then s
         else
           let m' = bulk_answered i result m;
               s1 = s\<lparr>dp_queues := (dp_queues s)(r := m'),
                      dp_adrift := (if lost result then (dp_adrift s)(r := dp_adrift s r @ wm_bulks m ! i) else dp_adrift s)\<rparr>
           in fold (resume_handler df inst r) (drop (length (wm_settled m)) (wm_settled m')) s1)"

text \<open>What \<open>Replicas\<close> sees of it: the documents, the feeds, the streams, and the handlers whose document
  was tried but which have not gone on (or never will).\<close>

definition went_on :: "'z deployment \<Rightarrow> nat \<times> promise \<Rightarrow> bool" where
  "went_on s c \<longleftrightarrow> (\<exists>r. (c, Inr r) \<in> set (dp_answers s))"

definition awaited :: "'z deployment \<Rightarrow> (nat \<times> accepted \<times> bool) list" where
  "awaited s = map (\<lambda>((r, p), res). (r, call_of s r p, res = OpDuplicate))
     (filter (\<lambda>(c, res). res \<noteq> OpFailed \<and> \<not> went_on s c) (dp_tried s))"

definition seen_as :: "'z deployment \<Rightarrow> 'z cluster" where
  "seen_as s = \<lparr>cl_docs = dp_docs s, cl_stores = dp_stores s, cl_pos = dp_pos s, cl_pending = awaited s\<rparr>"

fun deployment_apply ::
  "'z deflater \<Rightarrow> gcm \<Rightarrow> byte list \<Rightarrow> (nat \<Rightarrow> jsstr) \<Rightarrow> 'z deployment \<Rightarrow> deployment_event \<Rightarrow> 'z deployment" where
  "deployment_apply df g key inst s (DRequest r fv req) = handle_request g key r fv req s"
| "deployment_apply df g key inst s (DImmediate r) = run_immediate r s"
| "deployment_apply df g key inst s (DOperation r p broken) = operate r p broken s"
| "deployment_apply df g key inst s (DAnswer r i result) = answer_bulk df inst r i result s"
| "deployment_apply df g key inst s (DSaid nonce oid uuid stored d how) =
     s\<lparr>dp_docs := cl_docs (save_chat g key nonce oid uuid stored d how (seen_as s))\<rparr>"
| "deployment_apply df g key inst s (DDeliver r now) =
     (let c = hear df g key r now (seen_as s) in s\<lparr>dp_stores := cl_stores c, dp_pos := cl_pos c\<rparr>)"

definition deployment_run ::
  "'z deflater \<Rightarrow> gcm \<Rightarrow> byte list \<Rightarrow> (nat \<Rightarrow> jsstr) \<Rightarrow> nat \<Rightarrow> nat \<Rightarrow> int \<Rightarrow> deployment_event list \<Rightarrow> 'z deployment" where
  "deployment_run df g key inst maxEntries maxBatch maxInFlight es =
     run_events (deployment_apply df g key inst) (deploy df maxEntries maxBatch maxInFlight) es"

section \<open>The queue seen from outside\<close>

definition new_settlements :: "bulk_result \<Rightarrow> document item list \<Rightarrow> (promise \<times> outcome) list" where
  "new_settlements result batch =
     (case result of
        BulkFailed err \<Rightarrow> if errors_of result = [] then map (\<lambda>item. (snd item, Rejected (DriverError err))) batch
                          else settle_batch (errors_of result) batch
      | BulkOk \<Rightarrow> settle_batch [] batch)"

lemma bulk_answered_fields:
  "wm_settled (bulk_answered i result m) = wm_settled m @ new_settlements result (wm_bulks m ! i)"
  "wm_bulks (bulk_answered i result m) = take i (wm_bulks m) @ drop (Suc i) (wm_bulks m)"
  "wq_pending (wm_q (bulk_answered i result m)) = wq_pending (wm_q m)"
  "wm_next (bulk_answered i result m) = wm_next m"
  by (cases result; simp add: bulk_answered_def new_settlements_def Let_def frame_simps)+

lemma answer_bulk_fold:
  "answer_bulk df inst r i result s =
     (if length (wm_bulks (dp_queues s r)) \<le> i \<or> \<not> truthful (dp_tried s) r (wm_bulks (dp_queues s r) ! i) result then s
      else fold (resume_handler df inst r) (new_settlements result (wm_bulks (dp_queues s r) ! i))
        (s\<lparr>dp_queues := (dp_queues s)(r := bulk_answered i result (dp_queues s r)),
           dp_adrift := (if lost result then (dp_adrift s)(r := dp_adrift s r @ wm_bulks (dp_queues s r) ! i) else dp_adrift s)\<rparr>))"
  by (simp add: answer_bulk_def Let_def bulk_answered_fields)

text \<open>A truthful answer settles each promise by what became of its document.\<close>

definition outcome_fits :: "op_result option \<Rightarrow> outcome \<Rightarrow> bool" where
  "outcome_fits made settlement \<longleftrightarrow> (\<forall>d. settlement = Resolved d \<longrightarrow> made = Some (if d then OpDuplicate else OpWritten))"

lemma item_outcome_fits:
  assumes "tells made (reported errors k)"
  shows "outcome_fits made (item_outcome errors k)"
proof (cases "failedAt errors k")
  case None
  then have "reported errors k = []" by (auto simp: failedAt_None reported_def filter_empty_conv image_iff)
  then show ?thesis using assms None by (auto simp: tells_def outcome_fits_def item_outcome_def split: option.splits op_result.splits)
next
  case (Some e)
  then have "e \<in> set (reported errors k)" using failedAt_Some by (fastforce simp: reported_def)
  then show ?thesis using assms Some
    by (auto simp: tells_def outcome_fits_def item_outcome_def list_all_iff split: option.splits op_result.splits)
qed

lemma new_settlements_promises: "map fst (new_settlements result batch) = map snd batch"
  by (cases result) (simp_all add: new_settlements_def)

lemma new_settlements_fit:
  assumes "truthful tried r batch result" "(p, settlement) \<in> set (new_settlements result batch)"
  shows "outcome_fits (map_of tried (r, p)) settlement"
proof (cases "lost result")
  case True
  then show ?thesis using assms(2) by (cases result) (auto simp: new_settlements_def lost_def outcome_fits_def)
next
  case False
  then have all: "list_all (\<lambda>k. tells (map_of tried (r, snd (batch ! k))) (reported (errors_of result) k)) [0..<length batch]"
    using assms(1) by (simp add: truthful_def)
  have "new_settlements result batch = settle_batch (errors_of result) batch"
    using False by (cases result) (auto simp: new_settlements_def lost_def)
  then obtain k where "k < length batch" "p = snd (batch ! k)" "settlement = item_outcome (errors_of result) k"
    using assms(2) by (auto simp: settle_batch_def in_set_enumerate_eq)
  then show ?thesis using all item_outcome_fits by (auto simp: list_all_iff)
qed

section \<open>What every run keeps\<close>

text \<open>Every document on its way is that of a handler that waits for it; what has been settled is not
  settled again. \<open>E\<close> are the events that may occur.\<close>

definition item_ok :: "(fresh_values \<times> request \<times> accepted) list \<Rightarrow> document item \<Rightarrow> bool" where
  "item_ok calls item \<longleftrightarrow> snd item < length calls \<and> fst item = ac_document (snd (snd (calls ! snd item)))"

definition backend_ok ::
  "gcm \<Rightarrow> byte list \<Rightarrow> deployment_event set \<Rightarrow> nat \<Rightarrow> (fresh_values \<times> request \<times> accepted) list \<Rightarrow> document wq_machine
     \<Rightarrow> document item list \<Rightarrow> bool" where
  "backend_ok g key E r calls m adrift \<longleftrightarrow> wq_inv m \<and> length calls = wm_next m
     \<and> (\<forall>(fv, req, a) \<in> set calls. accept_message g key fv req = Inr (Inr a) \<and> DRequest r fv req \<in> E)
     \<and> (\<forall>item \<in> set ((concat (wm_bulks m) @ wq_pending (wm_q m)) @ adrift). item_ok calls item)"

definition calls_ok :: "gcm \<Rightarrow> byte list \<Rightarrow> deployment_event set \<Rightarrow> 'z deployment \<Rightarrow> bool" where
  "calls_ok g key E s \<longleftrightarrow> (\<forall>r. backend_ok g key E r (dp_calls s r) (dp_queues s r) (dp_adrift s r))"

definition tried_ok :: "'z deployment \<Rightarrow> bool" where
  "tried_ok s \<longleftrightarrow> distinct (map fst (dp_tried s)) \<and> (\<forall>((r, p), res) \<in> set (dp_tried s). p < length (dp_calls s r))
     \<and> (\<forall>r p. went_on s (r, p) \<longrightarrow> p \<in> fst ` set (wm_settled (dp_queues s r)) \<and> (r, p) \<in> fst ` set (dp_tried s))"

text \<open>The fields that the handlers leave alone when they go on.\<close>

definition answer_to :: "jsstr \<Rightarrow> accepted \<Rightarrow> outcome \<Rightarrow> refusal + reply" where
  "answer_to name a settlement = (case settlement of
     Rejected reason \<Rightarrow> Inl NotStored
   | Resolved d \<Rightarrow> Inr \<lparr>rp_id = ac_id a, rp_client = ac_client a, rp_msg = ac_text a, rp_ts = ac_ts a, rp_duplicate = d, rp_backend = name\<rparr>)"

lemma finish_answer: "fst (finish_message df name a settlement feed) = answer_to name a settlement"
  by (cases settlement) (simp_all add: finish_message_def answer_to_def)

lemma resume_fields [simp]:
  "dp_docs (resume_handler df inst r x s) = dp_docs s" "dp_pos (resume_handler df inst r x s) = dp_pos s"
  "dp_queues (resume_handler df inst r x s) = dp_queues s" "dp_calls (resume_handler df inst r x s) = dp_calls s"
  "dp_adrift (resume_handler df inst r x s) = dp_adrift s" "dp_tried (resume_handler df inst r x s) = dp_tried s"
  "call_of (resume_handler df inst r x s) q n = call_of s q n"
  "dp_answers (resume_handler df inst r x s) = dp_answers s @ [((r, fst x), answer_to (inst r) (call_of s r (fst x)) (snd x))]"
  by (simp_all add: resume_handler_def call_of_def finish_answer Let_def case_prod_beta)

lemma resumed_fields [simp]:
  "dp_docs (fold (resume_handler df inst r) xs s) = dp_docs s" "dp_pos (fold (resume_handler df inst r) xs s) = dp_pos s"
  "dp_queues (fold (resume_handler df inst r) xs s) = dp_queues s" "dp_calls (fold (resume_handler df inst r) xs s) = dp_calls s"
  "dp_adrift (fold (resume_handler df inst r) xs s) = dp_adrift s" "dp_tried (fold (resume_handler df inst r) xs s) = dp_tried s"
  "call_of (fold (resume_handler df inst r) xs s) q n = call_of s q n"
  "dp_answers (fold (resume_handler df inst r) xs s)
     = dp_answers s @ map (\<lambda>x. ((r, fst x), answer_to (inst r) (call_of s r (fst x)) (snd x))) xs"
  by (induction xs arbitrary: s) simp_all

lemma went_on_resume:
  "went_on (resume_handler df inst r (p, settlement) s) c \<longleftrightarrow> went_on s c \<or> c = (r, p) \<and> (\<exists>d. settlement = Resolved d)"
  by (cases settlement) (auto simp: went_on_def answer_to_def)

section \<open>Each step is a step of the cluster\<close>

lemma filter_removes_nth:
  "distinct (map fst xs) \<Longrightarrow> i < length xs \<Longrightarrow> fst (xs ! i) = k \<Longrightarrow> filter (\<lambda>x. fst x \<noteq> k) xs = take i xs @ drop (Suc i) xs"
proof (induction xs arbitrary: i)
  case (Cons x xs)
  show ?case
  proof (cases i)
    case 0
    then have "\<forall>y \<in> set xs. fst y \<noteq> k" using Cons.prems by (force simp: image_iff)
    then show ?thesis using 0 Cons.prems by simp
  next
    case (Suc j)
    then have "fst x \<noteq> k" using Cons.prems by (metis (mono_tags) Suc_less_eq distinct.simps(2) length_Cons list.simps(9) length_map nth_Cons_Suc nth_map nth_mem)
    then show ?thesis using Suc Cons by simp
  qed
qed simp

lemma resolved_finishes:
  assumes distinct: "distinct (map fst (dp_tried s))" and made: "map_of (dp_tried s) (r, p) = Some (if d then OpDuplicate else OpWritten)"
    and waits: "\<not> went_on s (r, p)"
  obtains i where "finish df i (seen_as s) = seen_as (resume_handler df inst r (p, Resolved d) s)"
proof -
  let ?waits = "\<lambda>(c, res). res \<noteq> OpFailed \<and> \<not> went_on s c" and ?res = "if d then OpDuplicate else OpWritten"
    and ?s = "resume_handler df inst r (p, Resolved d) s"
  let ?L = "filter ?waits (dp_tried s)"
  have "((r, p), ?res) \<in> set ?L" using made waits by (auto dest: map_of_SomeD)
  then obtain i where i: "i < length ?L" "?L ! i = ((r, p), ?res)" by (metis in_set_conv_nth)
  have "distinct (map fst ?L)" using distinct by (rule distinct_map_filter)
  then have "filter (\<lambda>x. fst x \<noteq> (r, p)) ?L = take i ?L @ drop (Suc i) ?L" using i by (intro filter_removes_nth) simp_all
  moreover have "filter (\<lambda>(c, res). res \<noteq> OpFailed \<and> \<not> went_on ?s c) (dp_tried s) = filter (\<lambda>x. fst x \<noteq> (r, p)) ?L"
    unfolding filter_filter went_on_resume by (rule filter_cong) auto
  ultimately have after: "awaited ?s = take i (awaited s) @ drop (Suc i) (awaited s)"
    by (simp add: awaited_def take_map drop_map)
  have here: "awaited s ! i = (r, call_of s r p, d)" "i < length (awaited s)" using i by (simp_all add: awaited_def)
  have "finish df i (seen_as s) = seen_as ?s"
    using here after
    by (simp add: finish_def seen_as_def resume_handler_def Let_def finish_message_def message_of_accepted_def split: prod.split)
  then show thesis by (rule that)
qed

lemma rejected_unseen: "seen_as (resume_handler df inst r (p, Rejected reason) s) = seen_as s"
proof -
  have "awaited (resume_handler df inst r (p, Rejected reason) s) = awaited s"
    by (simp add: awaited_def went_on_resume)
  moreover have "dp_stores (resume_handler df inst r (p, Rejected reason) s) = dp_stores s"
    by (simp add: resume_handler_def finish_message_def Let_def fun_eq_iff split: prod.split)
  ultimately show ?thesis by (simp add: seen_as_def)
qed

text \<open>The handlers of one batch, one after the other.\<close>

lemma handlers_finish:
  assumes "distinct (map fst (dp_tried s))" "distinct (map fst xs)"
    and "\<forall>(p, settlement) \<in> set xs. outcome_fits (map_of (dp_tried s) (r, p)) settlement \<and> \<not> went_on s (r, p)"
  shows "\<exists>is. run_events (cluster_apply df g key) (seen_as s) (map CFinish is) = seen_as (fold (resume_handler df inst r) xs s)"
  using assms
proof (induction xs arbitrary: s)
  case Nil
  show ?case by (rule exI[of _ "[]"]) simp
next
  case (Cons x xs)
  obtain p settlement where x: "x = (p, settlement)" by fastforce
  let ?s = "resume_handler df inst r x s"
  have "\<forall>(q, o') \<in> set xs. outcome_fits (map_of (dp_tried ?s) (r, q)) o' \<and> \<not> went_on ?s (r, q)"
    using Cons.prems(2,3) by (auto simp: x went_on_resume image_iff)
  then obtain js where rest: "run_events (cluster_apply df g key) (seen_as ?s) (map CFinish js) = seen_as (fold (resume_handler df inst r) xs ?s)"
    using Cons.IH[of ?s] Cons.prems(1,2) by auto
  show ?case
  proof (cases settlement)
    case (Resolved d)
    then have "map_of (dp_tried s) (r, p) = Some (if d then OpDuplicate else OpWritten)" "\<not> went_on s (r, p)"
      using Cons.prems(3) by (auto simp: x outcome_fits_def)
    from resolved_finishes[OF Cons.prems(1) this, of df inst] obtain i where "finish df i (seen_as s) = seen_as ?s"
      by (auto simp: x Resolved)
    then show ?thesis using rest by (intro exI[of _ "i # js"]) (simp add: x)
  next
    case (Rejected reason)
    then show ?thesis using rest rejected_unseen[of df inst r p reason s] by (intro exI[of _ js]) (simp add: x)
  qed
qed

section \<open>Every run is a run of the cluster\<close>

lemma insert_fields:
  "concat (wm_bulks (insert_doc d m)) @ wq_pending (wm_q (insert_doc d m)) = (concat (wm_bulks m) @ wq_pending (wm_q m)) @ [(d, wm_next m)]"
  "wm_next (insert_doc d m) = Suc (wm_next m)" "wm_settled (insert_doc d m) = wm_settled m"
  by (auto simp: insert_doc_def schedule_def flush_fifo frame_simps Let_def)

lemma backend_request:
  assumes "backend_ok g key E r calls m adrift" "accept_message g key fv req = Inr (Inr a)" "DRequest r fv req \<in> E"
  shows "backend_ok g key E r (calls @ [(fv, req, a)]) (insert_doc (ac_document a) m) adrift"
proof -
  have "item_ok (calls @ [(fv, req, a)]) item" if "item_ok calls item" for item
    using that by (simp add: item_ok_def nth_append)
  moreover have "item_ok (calls @ [(fv, req, a)]) (ac_document a, wm_next m)"
    using assms(1) by (auto simp: item_ok_def backend_ok_def nth_append)
  ultimately show ?thesis
    using assms unfolding backend_ok_def insert_fields by (auto intro: insert_inv)
qed

lemma backend_flush:
  "backend_ok g key E r calls m adrift \<Longrightarrow> backend_ok g key E r calls (flush (m\<lparr>wm_immediates := n\<rparr>)) adrift"
  unfolding backend_ok_def flush_fifo by (simp add: flush_inv frame_simps)

lemma backend_answered:
  assumes "backend_ok g key E r calls m adrift" "i < length (wm_bulks m)" "set adrift' \<subseteq> set adrift \<union> set (wm_bulks m ! i)"
  shows "backend_ok g key E r calls (bulk_answered i result m) adrift'"
proof -
  let ?left = "concat (take i (wm_bulks m) @ drop (Suc i) (wm_bulks m))"
  have "set ?left \<subseteq> set (concat (wm_bulks m))" by (auto dest: in_set_takeD in_set_dropD)
  moreover have "set (wm_bulks m ! i) \<subseteq> set (concat (wm_bulks m))" using nth_mem[OF assms(2)] by auto
  ultimately have "set ((?left @ wq_pending (wm_q m)) @ adrift') \<subseteq> set ((concat (wm_bulks m) @ wq_pending (wm_q m)) @ adrift)"
    unfolding set_append using assms(3) by blast
  then show ?thesis
    using assms(1) answered_inv[OF _ assms(2)] unfolding backend_ok_def bulk_answered_fields by blast
qed

lemma calls_ok_step: "calls_ok g key E s \<Longrightarrow> e \<in> E \<Longrightarrow> calls_ok g key E (deployment_apply df g key inst s e)"
proof (cases e)
  case (DRequest r fv req)
  assume "calls_ok g key E s" "e \<in> E"
  then show ?thesis
    by (auto simp: DRequest handle_request_def calls_ok_def backend_request split: sum.splits)
next
  case (DAnswer r i result)
  assume "calls_ok g key E s"
  then show ?thesis
    by (auto simp: DAnswer answer_bulk_fold calls_ok_def intro!: backend_answered)
next
  case (DOperation r p broken)
  assume "calls_ok g key E s"
  then show ?thesis by (auto simp: DOperation operate_def calls_ok_def split: option.splits prod.splits)
qed (auto simp: calls_ok_def run_immediate_def backend_flush Let_def)

text \<open>Nothing of a batch has been settled before.\<close>

lemma batch_unsettled:
  assumes "wq_inv m" "i < length (wm_bulks m)"
  shows "distinct (map snd (wm_bulks m ! i))" "p \<in> snd ` set (wm_bulks m ! i) \<Longrightarrow> p \<notin> fst ` set (wm_settled m)"
proof -
  have "mset (map snd (wq_pending (wm_q m)) @ map snd (concat (wm_bulks m)) @ map fst (wm_settled m)) = mset [0..<wm_next m]"
    using assms(1) by (simp add: wq_inv_def wq_promises_def add.assoc)
  then have d: "distinct (map snd (wq_pending (wm_q m)) @ map snd (concat (wm_bulks m)) @ map fst (wm_settled m))"
    by (metis distinct_upt mset_eq_imp_distinct_iff)
  have split: "concat (wm_bulks m) = concat (take i (wm_bulks m)) @ wm_bulks m ! i @ concat (drop (Suc i) (wm_bulks m))"
    using id_take_nth_drop[OF assms(2)] by (metis concat.simps(2) concat_append)
  then show "distinct (map snd (wm_bulks m ! i))" using d by simp
  show "p \<in> snd ` set (wm_bulks m ! i) \<Longrightarrow> p \<notin> fst ` set (wm_settled m)" using d split by auto
qed

lemma operate_cases:
  obtains "operate r p broken s = s"
  | doc where "(doc, p) \<in> set (under_way r s)" "map_of (dp_tried s) (r, p) = None" "broken"
      "operate r p broken s = s\<lparr>dp_tried := dp_tried s @ [((r, p), OpFailed)]\<rparr>"
  | doc stored docs where "(doc, p) \<in> set (under_way r s)" "map_of (dp_tried s) (r, p) = None"
      "insertOne [room_index, msgId_index] (bson doc) (dp_docs s) = (stored, docs)"
      "operate r p broken s = s\<lparr>dp_docs := docs, dp_tried := dp_tried s @ [((r, p), if stored then OpWritten else OpDuplicate)]\<rparr>"
proof (cases "find (\<lambda>item. snd item = p) (under_way r s)")
  case None
  then show thesis using that(1) by (simp add: operate_def)
next
  case (Some item)
  then obtain doc where item: "item = (doc, p)" "(doc, p) \<in> set (under_way r s)"
    by (metis (mono_tags, lifting) find_Some_iff nth_mem prod.collapse)
  obtain stored docs where ins: "insertOne [room_index, msgId_index] (bson doc) (dp_docs s) = (stored, docs)" by fastforce
  consider "map_of (dp_tried s) (r, p) \<noteq> None" | "map_of (dp_tried s) (r, p) = None" "broken"
    | "map_of (dp_tried s) (r, p) = None" "\<not> broken" by blast
  then show thesis
  proof cases
    case 1
    then show thesis using that(1) Some item by (simp add: operate_def)
  next
    case 2
    then show thesis using that(2)[OF item(2)] Some item by (simp add: operate_def)
  next
    case 3
    then show thesis using that(3)[OF item(2) _ ins] Some item ins by (simp add: operate_def)
  qed
qed

lemma tried_ok_step: "tried_ok s \<Longrightarrow> calls_ok g key E s \<Longrightarrow> tried_ok (deployment_apply df g key inst s e)"
proof (cases e)
  case (DRequest r fv req)
  assume "tried_ok s"
  then show ?thesis
    by (fastforce simp: DRequest handle_request_def tried_ok_def went_on_def insert_fields split: sum.splits)
next
  case (DImmediate r)
  assume "tried_ok s"
  then show ?thesis by (auto simp: DImmediate run_immediate_def tried_ok_def went_on_def frame_simps Let_def)
next
  case (DOperation r p broken)
  assume ok: "tried_ok s" "calls_ok g key E s"
  have len: "p < length (dp_calls s r)" if "(doc, p) \<in> set (under_way r s)" for doc
    using ok(2) that by (force simp: calls_ok_def backend_ok_def under_way_def item_ok_def)
  show ?thesis
    by (rule operate_cases[of r p broken s])
      (use ok(1) len in \<open>auto simp: DOperation tried_ok_def went_on_def map_of_eq_None_iff\<close>)
next
  case (DAnswer r i result)
  assume ok: "tried_ok s"
  let ?m = "dp_queues s r" and ?s = "deployment_apply df g key inst s e"
  let ?new = "new_settlements result (wm_bulks ?m ! i)"
  show ?thesis
  proof (cases "length (wm_bulks ?m) \<le> i \<or> \<not> truthful (dp_tried s) r (wm_bulks ?m ! i) result")
    case False
    have same: "dp_tried ?s = dp_tried s" "dp_calls ?s = dp_calls s"
      and settled: "wm_settled (dp_queues ?s q) = (if q = r then wm_settled ?m @ ?new else wm_settled (dp_queues s q))" for q
      using False by (simp_all add: DAnswer answer_bulk_fold bulk_answered_fields)
    have goes: "went_on s (q, p) \<or> q = r \<and> (\<exists>d. (p, Resolved d) \<in> set ?new)" if "went_on ?s (q, p)" for q p
      using that False by (auto simp: DAnswer answer_bulk_fold went_on_def answer_to_def split: outcome.splits)
    have now: "(r, p) \<in> fst ` set (dp_tried s)" "p \<in> fst ` set ?new" if "(p, Resolved d) \<in> set ?new" for p d
      using new_settlements_fit[OF _ that] False that by (force simp: outcome_fits_def dest: map_of_SomeD)+
    have before: "p \<in> fst ` set (wm_settled (dp_queues s q)) \<and> (q, p) \<in> fst ` set (dp_tried s)" if "went_on s (q, p)" for q p
      using ok that unfolding tried_ok_def by blast
    have "p \<in> fst ` set (wm_settled (dp_queues ?s q)) \<and> (q, p) \<in> fst ` set (dp_tried s)" if w: "went_on ?s (q, p)" for q p
    proof (cases "went_on s (q, p)")
      case True
      then show ?thesis using before[OF True] unfolding settled by (cases "q = r") (auto simp: image_Un)
    next
      case False
      then obtain d where "q = r" "(p, Resolved d) \<in> set ?new" using goes[OF w] by blast
      then show ?thesis using now[of p d] unfolding settled by (simp add: image_Un)
    qed
    then show ?thesis using ok by (simp add: tried_ok_def same)
  qed (use ok in \<open>auto simp: DAnswer answer_bulk_fold\<close>)
next
  case (DSaid nonce oid uuid stored d how)
  assume "tried_ok s"
  then show ?thesis by (simp add: DSaid tried_ok_def went_on_def)
next
  case (DDeliver r now)
  assume "tried_ok s"
  then show ?thesis by (simp add: DDeliver tried_ok_def went_on_def Let_def)
qed

text \<open>The events of the cluster that stand for those of the deployment.\<close>

fun backed_by :: "deployment_event set \<Rightarrow> cluster_event \<Rightarrow> bool" where
  "backed_by E (CPost r fv req how) = (DRequest r fv req \<in> E)"
| "backed_by E (CSaid nonce oid uuid stored d how) = (DSaid nonce oid uuid stored d how \<in> E)"
| "backed_by E (CDeliver r now) = (DDeliver r now \<in> E)"
| "backed_by E (CFinish i) = True"

lemma awaited_cong:
  assumes "tried_ok s" "dp_tried t = dp_tried s" "dp_answers t = dp_answers s"
    and "\<And>r p. p < length (dp_calls s r) \<Longrightarrow> call_of t r p = call_of s r p"
  shows "awaited t = awaited s"
  using assms unfolding awaited_def tried_ok_def went_on_def by (auto intro!: map_cong)

lemma operate_refines:
  assumes calls: "calls_ok g key E s" and tried: "tried_ok s"
  shows "\<exists>ces. list_all (backed_by E) ces \<and> run_events (cluster_apply df g key) (seen_as s) ces = seen_as (operate r p broken s)"
proof (rule operate_cases[of r p broken s])
  assume "operate r p broken s = s"
  then show ?thesis by (intro exI[of _ "[]"]) simp
next
  fix doc assume "operate r p broken s = s\<lparr>dp_tried := dp_tried s @ [((r, p), OpFailed)]\<rparr>"
  moreover have "awaited (s\<lparr>dp_tried := dp_tried s @ [((r, p), OpFailed)]\<rparr>) = awaited s"
    by (simp add: awaited_def went_on_def call_of_def)
  ultimately show ?thesis by (intro exI[of _ "[]"]) (simp add: seen_as_def)
next
  fix doc stored docs
  assume item: "(doc, p) \<in> set (under_way r s)" and new: "map_of (dp_tried s) (r, p) = None"
    and ins: "insertOne [room_index, msgId_index] (bson doc) (dp_docs s) = (stored, docs)"
    and op: "operate r p broken s = s\<lparr>dp_docs := docs, dp_tried := dp_tried s @ [((r, p), if stored then OpWritten else OpDuplicate)]\<rparr>"
  obtain fv req a where call: "dp_calls s r ! p = (fv, req, a)" by (cases "dp_calls s r ! p")
  have "p < length (dp_calls s r)" and doc: "doc = ac_document a"
    using calls item call by (force simp: calls_ok_def backend_ok_def under_way_def item_ok_def)+
  then have "(fv, req, a) \<in> set (dp_calls s r)" using call by (metis nth_mem)
  then have a: "accept_message g key fv req = Inr (Inr a)" "DRequest r fv req \<in> E"
    using calls by (auto simp: calls_ok_def backend_ok_def)
  have "\<not> went_on s (r, p)" using tried new by (auto simp: tried_ok_def map_of_eq_None_iff)
  then have "awaited (operate r p broken s) = awaited s @ [(r, a, \<not> stored)]"
    using call unfolding op by (simp add: awaited_def went_on_def call_of_def)
  then have "post g key r fv req Answered (seen_as s) = seen_as (operate r p broken s)"
    using a(1) ins doc unfolding op by (simp add: post_def seen_as_def)
  then show ?thesis using a(2) by (intro exI[of _ "[CPost r fv req Answered]"]) simp
qed

lemma answer_refines:
  assumes calls: "calls_ok g key E s" and tried: "tried_ok s"
  shows "\<exists>is. run_events (cluster_apply df g key) (seen_as s) (map CFinish is) = seen_as (answer_bulk df inst r i result s)"
proof (cases "length (wm_bulks (dp_queues s r)) \<le> i \<or> \<not> truthful (dp_tried s) r (wm_bulks (dp_queues s r) ! i) result")
  case True
  then show ?thesis by (intro exI[of _ "[]"]) (simp add: answer_bulk_fold)
next
  case False
  let ?m = "dp_queues s r"
  let ?s = "s\<lparr>dp_queues := (dp_queues s)(r := bulk_answered i result ?m),
    dp_adrift := (if lost result then (dp_adrift s)(r := dp_adrift s r @ wm_bulks ?m ! i) else dp_adrift s)\<rparr>"
  let ?new = "new_settlements result (wm_bulks ?m ! i)"
  have inv: "wq_inv ?m" using calls by (auto simp: calls_ok_def backend_ok_def)
  have i: "i < length (wm_bulks ?m)" using False by simp
  note fresh = batch_unsettled[OF inv i]
  have "outcome_fits (map_of (dp_tried ?s) (r, p)) settlement \<and> \<not> went_on ?s (r, p)" if "(p, settlement) \<in> set ?new" for p settlement
  proof -
    have "p \<in> snd ` set (wm_bulks ?m ! i)"
      using that new_settlements_promises[of result "wm_bulks ?m ! i"] by (metis fst_conv image_eqI image_set)
    then have "\<not> went_on s (r, p)" using fresh(2) tried unfolding tried_ok_def by blast
    then show ?thesis using new_settlements_fit[OF _ that] False by (simp add: went_on_def)
  qed
  then have fits: "\<forall>(p, settlement) \<in> set ?new. outcome_fits (map_of (dp_tried ?s) (r, p)) settlement \<and> \<not> went_on ?s (r, p)"
    by blast
  have "distinct (map fst (dp_tried ?s))" using tried by (simp add: tried_ok_def)
  from handlers_finish[OF this _ fits, of df g key inst] fresh(1)
  obtain js where "run_events (cluster_apply df g key) (seen_as ?s) (map CFinish js) = seen_as (fold (resume_handler df inst r) ?new ?s)"
    by (auto simp: new_settlements_promises)
  moreover have "seen_as ?s = seen_as s" by (simp add: seen_as_def awaited_def went_on_def call_of_def)
  ultimately show ?thesis using False by (auto simp: answer_bulk_fold)
qed

lemma step_refines:
  assumes calls: "calls_ok g key E s" and tried: "tried_ok s" and e: "e \<in> E"
  shows "\<exists>ces. list_all (backed_by E) ces
    \<and> run_events (cluster_apply df g key) (seen_as s) ces = seen_as (deployment_apply df g key inst s e)"
proof (cases e)
  case (DRequest r fv req)
  have "awaited (handle_request g key r fv req s) = awaited s"
    by (rule awaited_cong[OF tried]) (auto simp: handle_request_def call_of_def nth_append split: sum.splits)
  then have "seen_as (handle_request g key r fv req s) = seen_as s"
    by (auto simp: seen_as_def handle_request_def split: sum.splits)
  then show ?thesis by (intro exI[of _ "[]"]) (simp add: DRequest)
next
  case (DImmediate r)
  have "awaited (run_immediate r s) = awaited s"
    by (rule awaited_cong[OF tried]) (auto simp: run_immediate_def call_of_def Let_def)
  then have "seen_as (run_immediate r s) = seen_as s" by (auto simp: seen_as_def run_immediate_def Let_def)
  then show ?thesis by (intro exI[of _ "[]"]) (simp add: DImmediate)
next
  case (DOperation r p broken)
  then show ?thesis using operate_refines[OF calls tried, of df r p broken] by simp
next
  case (DAnswer r i result)
  obtain js where "run_events (cluster_apply df g key) (seen_as s) (map CFinish js) = seen_as (answer_bulk df inst r i result s)"
    using answer_refines[OF calls tried] by blast
  then show ?thesis by (intro exI[of _ "map CFinish js"]) (simp add: DAnswer list_all_iff)
next
  case (DSaid nonce oid uuid stored d how)
  have "awaited (s\<lparr>dp_docs := x\<rparr>) = awaited s" for x by (rule awaited_cong[OF tried]) (simp_all add: call_of_def)
  then show ?thesis using e by (intro exI[of _ "[CSaid nonce oid uuid stored d how]"])
      (simp add: DSaid seen_as_def save_chat_def)
next
  case (DDeliver r now)
  have "awaited (s\<lparr>dp_stores := x, dp_pos := y\<rparr>) = awaited s" for x y by (rule awaited_cong[OF tried]) (simp_all add: call_of_def)
  then show ?thesis using e by (intro exI[of _ "[CDeliver r now]"])
      (simp add: DDeliver seen_as_def hear_def Let_def)
qed

interpretation deployed: event_invariant "deployment_apply df g key inst" "\<lambda>e. e \<in> E" "\<lambda>s. calls_ok g key E s \<and> tried_ok s"
  for df g key inst E
  by unfold_locales (auto intro: calls_ok_step tried_ok_step)

lemma deploy_ok: "1 \<le> b \<Longrightarrow> 1 \<le> k \<Longrightarrow> calls_ok g key E (deploy df cap b k) \<and> tried_ok (deploy df cap b k)"
  by (auto simp: calls_ok_def backend_ok_def tried_ok_def deploy_def went_on_def wq_inv_start) (simp_all add: wq_start_def new_WriteQueue_def)

lemma run_refines:
  assumes "calls_ok g key E s" "tried_ok s" "list_all (\<lambda>e. e \<in> E) es"
  shows "\<exists>ces. list_all (backed_by E) ces
    \<and> run_events (cluster_apply df g key) (seen_as s) ces = seen_as (run_events (deployment_apply df g key inst) s es)"
  using assms
proof (induction es arbitrary: s)
  case Nil
  show ?case by (intro exI[of _ "[]"]) simp
next
  case (Cons e es)
  let ?s = "deployment_apply df g key inst s e"
  have e: "e \<in> E" using Cons.prems(3) by simp
  obtain xs where xs: "list_all (backed_by E) xs" "run_events (cluster_apply df g key) (seen_as s) xs = seen_as ?s"
    using step_refines[OF Cons.prems(1,2) e, of df inst] by auto
  obtain ys where ys: "list_all (backed_by E) ys"
    "run_events (cluster_apply df g key) (seen_as ?s) ys = seen_as (run_events (deployment_apply df g key inst) ?s es)"
    using Cons.IH[of ?s] calls_ok_step[OF Cons.prems(1) e] tried_ok_step[OF Cons.prems(2,1)] Cons.prems(3) by auto
  show ?case using xs ys by (intro exI[of _ "xs @ ys"]) (simp add: run_events_append)
qed

section \<open>What an answer means\<close>

definition stored_id :: "'z deployment \<Rightarrow> nat \<times> promise \<Rightarrow> jsstr" where
  "stored_id s c = to_well_formed (ac_id (call_of s (fst c) (snd c)))"

text \<open>What the database did shows in the collection.\<close>

definition docs_ok :: "'z deployment \<Rightarrow> bool" where
  "docs_ok s \<longleftrightarrow> (\<forall>(c, res) \<in> set (dp_tried s).
       (res = OpWritten \<longrightarrow> bson (ac_document (call_of s (fst c) (snd c))) \<in> set (dp_docs s))
       \<and> (res \<noteq> OpFailed \<longrightarrow> msgId_taken (dp_docs s) (stored_id s c)))
     \<and> distinct (map (stored_id s \<circ> fst) (filter (\<lambda>(c, res). res = OpWritten) (dp_tried s)))
     \<and> distinct (List.map_filter d_msgId (dp_docs s))"

text \<open>A response is given once for each settled promise, and a 200 only for a document that was tried.\<close>

definition answers_ok :: "(nat \<Rightarrow> jsstr) \<Rightarrow> 'z deployment \<Rightarrow> bool" where
  "answers_ok inst s \<longleftrightarrow> distinct (map fst (dp_answers s))
     \<and> (\<forall>r p. (r, p) \<in> fst ` set (dp_answers s) \<longleftrightarrow> p \<in> fst ` set (wm_settled (dp_queues s r)))
     \<and> (\<forall>r p rp. ((r, p), Inr rp) \<in> set (dp_answers s) \<longrightarrow>
          (\<exists>d. Inr rp = answer_to (inst r) (call_of s r p) (Resolved d) \<and> ((r, p), if d then OpDuplicate else OpWritten) \<in> set (dp_tried s)))"

lemma accepted_msgId:
  "accept_message g key fv req = Inr (Inr a) \<Longrightarrow> d_msgId (bson (ac_document a)) = Some (to_well_formed (ac_id a))"
  using accepted_cases[of g key fv req a] by (auto simp: bson_def http_document_def Let_def)

lemma docs_ok_more:
  assumes "docs_ok s" "tried_ok s" "dp_tried t = dp_tried s" "\<And>r p. p < length (dp_calls s r) \<Longrightarrow> call_of t r p = call_of s r p"
    and "set (dp_docs s) \<subseteq> set (dp_docs t)" "distinct (List.map_filter d_msgId (dp_docs t))"
  shows "docs_ok t"
proof -
  have same: "call_of t (fst c) (snd c) = call_of s (fst c) (snd c)" "stored_id t c = stored_id s c" if "(c, res) \<in> set (dp_tried s)" for c res
    using assms(2,4) that by (auto simp: tried_ok_def stored_id_def)
  then have ids: "map (stored_id t \<circ> fst) (filter (\<lambda>(c, res). res = OpWritten) (dp_tried t))
      = map (stored_id s \<circ> fst) (filter (\<lambda>(c, res). res = OpWritten) (dp_tried s))" unfolding assms(3) by auto
  have "(res = OpWritten \<longrightarrow> bson (ac_document (call_of t (fst c) (snd c))) \<in> set (dp_docs t))
      \<and> (res \<noteq> OpFailed \<longrightarrow> msgId_taken (dp_docs t) (stored_id t c))" if c: "(c, res) \<in> set (dp_tried s)" for c res
  proof -
    have "(res = OpWritten \<longrightarrow> bson (ac_document (call_of s (fst c) (snd c))) \<in> set (dp_docs s))
        \<and> (res \<noteq> OpFailed \<longrightarrow> msgId_taken (dp_docs s) (stored_id s c))"
      using assms(1) c by (auto simp: docs_ok_def)
    then show ?thesis using assms(5) same[OF c] by (auto simp: msgId_taken_def)
  qed
  then show ?thesis using assms(1,6) unfolding docs_ok_def assms(3)[symmetric] ids by (auto simp: assms(3))
qed

lemma stored_id_cong: "dp_calls t = dp_calls s \<Longrightarrow> stored_id t = stored_id s" "dp_calls t = dp_calls s \<Longrightarrow> call_of t = call_of s"
  by (simp_all add: stored_id_def call_of_def fun_eq_iff)

lemma insertOne_msgId:
  assumes "d_msgId doc = Some i"
  shows "insertOne [room_index, msgId_index] doc docs = (if msgId_taken docs i then (False, docs) else (True, docs @ [doc]))"
  using assms by (simp add: insertOne_def)

lemma insertOne_room_distinct:
  "distinct (List.map_filter d_msgId docs) \<Longrightarrow> distinct (List.map_filter d_msgId (snd (insertOne [room_index, msgId_index] doc docs)))"
  by (rule insertOne_distinct) simp_all

lemma insertOne_grows: "set docs \<subseteq> set (snd (insertOne held doc docs))"
  by (auto simp: insertOne_def split: option.splits)

lemma operate_docs_ok:
  assumes ok: "docs_ok s" and tried: "tried_ok s" and calls: "calls_ok g key E s"
  shows "docs_ok (operate r p broken s)"
proof (rule operate_cases[of r p broken s])
  fix doc stored docs
  assume item: "(doc, p) \<in> set (under_way r s)" and new: "map_of (dp_tried s) (r, p) = None"
    and ins: "insertOne [room_index, msgId_index] (bson doc) (dp_docs s) = (stored, docs)"
    and op: "operate r p broken s = s\<lparr>dp_docs := docs, dp_tried := dp_tried s @ [((r, p), if stored then OpWritten else OpDuplicate)]\<rparr>"
  have p: "p < length (dp_calls s r)" and doc: "doc = ac_document (call_of s r p)"
    using calls item by (force simp: calls_ok_def backend_ok_def under_way_def item_ok_def call_of_def)+
  obtain fv req where "dp_calls s r ! p = (fv, req, call_of s r p)" by (cases "dp_calls s r ! p") (simp add: call_of_def)
  then have "accept_message g key fv req = Inr (Inr (call_of s r p))"
    using calls nth_mem[OF p] by (auto simp: calls_ok_def backend_ok_def)
  then have id: "d_msgId (bson doc) = Some (stored_id s (r, p))" by (simp add: doc accepted_msgId stored_id_def)
  have grown: "docs_ok (s\<lparr>dp_docs := docs\<rparr>)"
  proof (rule docs_ok_more[OF ok tried])
    show "set (dp_docs s) \<subseteq> set (dp_docs (s\<lparr>dp_docs := docs\<rparr>))"
      using insertOne_grows[of "dp_docs s" "[room_index, msgId_index]" "bson doc"] ins by simp
    show "distinct (List.map_filter d_msgId (dp_docs (s\<lparr>dp_docs := docs\<rparr>)))"
      using insertOne_room_distinct[of "dp_docs s" "bson doc"] ins ok by (simp add: docs_ok_def)
  qed (simp_all add: call_of_def)
  have same: "stored_id (operate r p broken s) = stored_id s" "call_of (operate r p broken s) = call_of s"
    "stored_id (s\<lparr>dp_docs := docs\<rparr>) = stored_id s" "call_of (s\<lparr>dp_docs := docs\<rparr>) = call_of s"
    by (rule stored_id_cong; simp add: op)+
  show ?thesis
  proof (cases "msgId_taken (dp_docs s) (stored_id s (r, p))")
    case True
    then have "\<not> stored" "docs = dp_docs s" using ins insertOne_msgId[OF id] by simp_all
    then show ?thesis using grown True unfolding docs_ok_def same by (simp add: op)
  next
    case False
    then have "stored" "docs = dp_docs s @ [bson doc]" using ins insertOne_msgId[OF id] by simp_all
    moreover have "stored_id s (r, p) \<notin> (stored_id s \<circ> fst) ` set (filter (\<lambda>(c, res). res = OpWritten) (dp_tried s))"
      using ok False by (auto simp: docs_ok_def)
    moreover have "msgId_taken (dp_docs s @ [bson doc]) (stored_id s (r, p))" using id by (simp add: msgId_taken_def)
    ultimately show ?thesis using grown unfolding docs_ok_def same by (simp add: op doc)
  qed
next
  assume op: "operate r p broken s = s\<lparr>dp_tried := dp_tried s @ [((r, p), OpFailed)]\<rparr>"
  have "dp_calls (s\<lparr>dp_tried := dp_tried s @ [((r, p), OpFailed)]\<rparr>) = dp_calls s" by simp
  from stored_id_cong[OF this] show ?thesis using ok unfolding op by (simp add: docs_ok_def)
qed (simp add: ok)

lemma docs_ok_step:
  assumes ok: "docs_ok s" and tried: "tried_ok s" and calls: "calls_ok g key E s"
  shows "docs_ok (deployment_apply df g key inst s e)"
proof (cases e)
  case (DRequest r fv req)
  show ?thesis
    by (rule docs_ok_more[OF ok tried]; use ok in \<open>auto simp: DRequest handle_request_def call_of_def nth_append docs_ok_def split: sum.splits\<close>)
next
  case (DImmediate r)
  show ?thesis by (rule docs_ok_more[OF ok tried]; use ok in \<open>auto simp: DImmediate run_immediate_def call_of_def docs_ok_def Let_def\<close>)
next
  case (DOperation r p broken)
  then show ?thesis using operate_docs_ok[OF ok tried calls] by simp
next
  case (DAnswer r i result)
  have "dp_docs (answer_bulk df inst r i result s) = dp_docs s" "dp_tried (answer_bulk df inst r i result s) = dp_tried s"
    "dp_calls (answer_bulk df inst r i result s) = dp_calls s" by (auto simp: answer_bulk_fold)
  with stored_id_cong[OF this(3)] show ?thesis using ok by (simp add: DAnswer docs_ok_def)
next
  case (DSaid nonce oid uuid stored d how)
  let ?docs = "snd (insertOne [room_index, msgId_index] (bson (document_of g key nonce oid uuid stored d)) (dp_docs s))"
  have "deployment_apply df g key inst s e = s\<lparr>dp_docs := if how = NotWritten then dp_docs s else ?docs\<rparr>"
    by (simp add: DSaid cluster_fields seen_as_def)
  moreover have "docs_ok (s\<lparr>dp_docs := ?docs\<rparr>)"
    by (rule docs_ok_more[OF ok tried])
      (use ok insertOne_grows insertOne_room_distinct in \<open>simp_all add: call_of_def docs_ok_def\<close>)
  ultimately show ?thesis using ok by simp
next
  case (DDeliver r now)
  show ?thesis by (rule docs_ok_more[OF ok tried]; use ok in \<open>auto simp: DDeliver call_of_def docs_ok_def Let_def\<close>)
qed

lemma answers_ok_more:
  assumes "answers_ok inst s" "tried_ok s" "dp_answers t = dp_answers s" "set (dp_tried s) \<subseteq> set (dp_tried t)"
    and "\<And>r p. p < length (dp_calls s r) \<Longrightarrow> call_of t r p = call_of s r p"
    and "\<And>r. wm_settled (dp_queues t r) = wm_settled (dp_queues s r)"
  shows "answers_ok inst t"
proof -
  have "\<exists>d. Inr rp = answer_to (inst r) (call_of t r p) (Resolved d) \<and> ((r, p), if d then OpDuplicate else OpWritten) \<in> set (dp_tried t)"
    if a: "((r, p), Inr rp) \<in> set (dp_answers s)" for r p rp
  proof -
    obtain d where d: "Inr rp = answer_to (inst r) (call_of s r p) (Resolved d)" "((r, p), if d then OpDuplicate else OpWritten) \<in> set (dp_tried s)"
      using assms(1) a unfolding answers_ok_def by blast
    then have "p < length (dp_calls s r)" using assms(2) by (auto simp: tried_ok_def)
    then show ?thesis using d assms(4,5) by (intro exI[of _ d]) auto
  qed
  then show ?thesis using assms(1) unfolding answers_ok_def assms(3,6) by blast
qed

lemma answer_answers_ok:
  assumes ok: "answers_ok inst s" and calls: "calls_ok g key E s"
  shows "answers_ok inst (answer_bulk df inst r i result s)"
proof (cases "length (wm_bulks (dp_queues s r)) \<le> i \<or> \<not> truthful (dp_tried s) r (wm_bulks (dp_queues s r) ! i) result")
  case False
  let ?m = "dp_queues s r" and ?t = "answer_bulk df inst r i result s"
  let ?new = "new_settlements result (wm_bulks ?m ! i)"
  have inv: "wq_inv ?m" and i: "i < length (wm_bulks ?m)" and honest: "truthful (dp_tried s) r (wm_bulks ?m ! i) result"
    using calls False by (auto simp: calls_ok_def backend_ok_def)
  have fsts: "map fst ?new = map snd (wm_bulks ?m ! i)" by (rule new_settlements_promises)
  have fresh: "distinct (map fst ?new)" "p \<in> fst ` set ?new \<Longrightarrow> p \<notin> fst ` set (wm_settled ?m)" for p
    using batch_unsettled[OF inv i] fsts by (simp, metis set_map)
  have t: "dp_tried ?t = dp_tried s" "call_of ?t q p = call_of s q p"
    "dp_answers ?t = dp_answers s @ map (\<lambda>x. ((r, fst x), answer_to (inst r) (call_of s r (fst x)) (snd x))) ?new"
    "wm_settled (dp_queues ?t q) = (if q = r then wm_settled ?m @ ?new else wm_settled (dp_queues s q))" for q p
    using False by (simp_all add: answer_bulk_fold bulk_answered_fields call_of_def)
  have firsts: "map fst (dp_answers ?t) = map fst (dp_answers s) @ map (Pair r) (map fst ?new)" by (simp add: t(3))
  have old: "(q, p) \<in> fst ` set (dp_answers s) \<longleftrightarrow> p \<in> fst ` set (wm_settled (dp_queues s q))" for q p
    using ok unfolding answers_ok_def by blast
  have "(r, p) \<notin> set (map fst (dp_answers s))" if "p \<in> set (map fst ?new)" for p
    using fresh(2)[of p] old[of r p] that by simp
  then have "set (map fst (dp_answers s)) \<inter> set (map (Pair r) (map fst ?new)) = {}" unfolding set_map[of "Pair r"] by blast
  moreover have "distinct (map (Pair r) (map fst ?new))" using fresh(1) by (simp add: distinct_map inj_on_def)
  ultimately have "distinct (map fst (dp_answers ?t))"
    using ok unfolding firsts distinct_append by (simp add: answers_ok_def)
  moreover have "(q, p) \<in> fst ` set (dp_answers ?t) \<longleftrightarrow> p \<in> fst ` set (wm_settled (dp_queues ?t q))" for q p
  proof -
    have "(q, p) \<in> fst ` set (dp_answers ?t) \<longleftrightarrow> (q, p) \<in> fst ` set (dp_answers s) \<or> q = r \<and> p \<in> fst ` set ?new"
      by (auto simp: t(3) image_Un image_image)
    then show ?thesis unfolding old t(4) by (auto simp: image_Un)
  qed
  moreover have "\<exists>d. Inr rp = answer_to (inst q) (call_of ?t q p) (Resolved d) \<and> ((q, p), if d then OpDuplicate else OpWritten) \<in> set (dp_tried ?t)"
    if rp: "((q, p), Inr rp) \<in> set (dp_answers ?t)" for q p rp
  proof (cases "((q, p), Inr rp) \<in> set (dp_answers s)")
    case True
    then show ?thesis using ok unfolding answers_ok_def t by blast
  next
    case False
    then obtain settlement where x: "q = r" "(p, settlement) \<in> set ?new" "Inr rp = answer_to (inst r) (call_of s r p) settlement"
      using rp by (auto simp: t(3))
    then obtain d where d: "settlement = Resolved d" by (cases settlement) (auto simp: answer_to_def)
    then have "map_of (dp_tried s) (r, p) = Some (if d then OpDuplicate else OpWritten)"
      using new_settlements_fit[OF honest x(2)] by (simp add: outcome_fits_def)
    from map_of_SomeD[OF this] show ?thesis using x(1,3) d by (intro exI[of _ d]) (simp add: t(1,2))
  qed
  ultimately show ?thesis unfolding answers_ok_def by blast
qed (use ok in \<open>auto simp: answer_bulk_fold\<close>)

lemma answers_ok_step:
  assumes ok: "answers_ok inst s" and tried: "tried_ok s" and calls: "calls_ok g key E s"
  shows "answers_ok inst (deployment_apply df g key inst s e)"
proof (cases e)
  case (DRequest r fv req)
  show ?thesis by (rule answers_ok_more[OF ok tried])
      (auto simp: DRequest handle_request_def call_of_def nth_append insert_fields split: sum.splits)
next
  case (DImmediate r)
  show ?thesis by (rule answers_ok_more[OF ok tried]) (auto simp: DImmediate run_immediate_def call_of_def frame_simps Let_def)
next
  case (DOperation r p broken)
  show ?thesis by (rule operate_cases[of r p broken s]; rule answers_ok_more[OF ok tried]) (auto simp: DOperation call_of_def)
next
  case (DAnswer r i result)
  then show ?thesis using answer_answers_ok[OF ok calls] by simp
qed (rule answers_ok_more[OF ok tried]; simp add: call_of_def Let_def)+

interpretation durable: event_invariant "deployment_apply df g key inst" "\<lambda>e. e \<in> E"
    "\<lambda>s. (calls_ok g key E s \<and> tried_ok s) \<and> docs_ok s \<and> answers_ok inst s"
  for df g key inst E
  by unfold_locales (auto intro: calls_ok_step tried_ok_step docs_ok_step answers_ok_step)

lemma deploy_durable: "docs_ok (deploy df cap b k) \<and> answers_ok inst (deploy df cap b k)"
  by (simp add: docs_ok_def answers_ok_def deploy_def List.map_filter_def wq_start_def)

lemma deployment_run_ok:
  assumes "1 \<le> b" "1 \<le> k"
  shows "calls_ok g key (set es) (deployment_run df g key inst cap b k es)" "tried_ok (deployment_run df g key inst cap b k es)"
    "docs_ok (deployment_run df g key inst cap b k es)" "answers_ok inst (deployment_run df g key inst cap b k es)"
  using durable.inv_run[of g key "set es" "deploy df cap b k" inst es df] deploy_ok[OF assms, of g key "set es" df cap] deploy_durable[of df cap b k inst]
  by (simp_all add: deployment_run_def list_all_iff)

lemma deployment_seen_as:
  assumes "1 \<le> b" "1 \<le> k"
  shows "\<exists>ces. list_all (backed_by (set es)) ces \<and> cluster_run df g key cap ces = seen_as (deployment_run df g key inst cap b k es)"
proof -
  have "seen_as (deploy df cap b k) = new_cluster df cap"
    by (simp add: seen_as_def deploy_def new_cluster_def awaited_def)
  then show ?thesis
    using run_refines[of g key "set es" "deploy df cap b k" es df inst] deploy_ok[OF assms, of g key "set es" df cap]
    by (auto simp: cluster_run_def deployment_run_def list_all_iff)
qed

text \<open>What the requests and the chat bring, and the condition on each.\<close>

fun good_event :: "gcm \<Rightarrow> byte list \<Rightarrow> deployment_event \<Rightarrow> bool" where
  "good_event g key (DRequest r fv req) = good_post g key (CPost r fv req Answered)"
| "good_event g key (DSaid nonce oid uuid stored d how) = good_post g key (CSaid nonce oid uuid stored d how)"
| "good_event g key e = True"

fun brought :: "gcm \<Rightarrow> byte list \<Rightarrow> deployment_event list \<Rightarrow> feed_message list" where
  "brought g key [] = []"
| "brought g key (DRequest r fv req # es) = posted g key [CPost r fv req Answered] @ brought g key es"
| "brought g key (DSaid nonce oid uuid stored d how # es) = said_message uuid stored d # brought g key es"
| "brought g key (e # es) = brought g key es"

lemma brought_request: "DRequest r fv req \<in> set es \<Longrightarrow> set (posted g key [CPost r fv req how]) \<subseteq> set (brought g key es)"
  by (induction g key es rule: brought.induct) (auto split: sum.splits)

lemma brought_said: "DSaid nonce oid uuid stored d how \<in> set es \<Longrightarrow> said_message uuid stored d \<in> set (brought g key es)"
  by (induction g key es rule: brought.induct) auto

lemma backed_good: "backed_by (set es) ce \<Longrightarrow> list_all (good_event g key) es \<Longrightarrow> good_post g key ce"
  by (cases ce) (fastforce simp: list_all_iff)+

lemma backed_posted: "backed_by (set es) ce \<Longrightarrow> set (posted g key [ce]) \<subseteq> set (brought g key es)"
  using brought_request brought_said by (cases ce) (fastforce simp del: posted.simps(2))+

lemma all_backed_posted: "list_all (backed_by (set es)) ces \<Longrightarrow> set (posted g key ces) \<subseteq> set (brought g key es)"
proof (induction ces)
  case (Cons ce ces)
  then show ?case using backed_posted[of es ce g key] posted_Cons[of g key ce ces] by auto
qed simp

section \<open>Properties\<close>

text \<open>
  C1: An answer of 200 means written. Whatever the queues batch, however operations of different
  batches and backends interleave, whichever answers are lost or report errors: each request is
  answered at most once, and has been answered when its queue is quiet; when it is answered 200 a document with its id is in the collection, its
  own unless the answer says duplicate; of all requests with one id, to whichever backends, at most one
  is told that it was new, and the collection never holds two documents with one id.
\<close>

theorem answered_means_stored:
  assumes "1 \<le> b" "1 \<le> k" and s: "s = deployment_run df g key inst cap b k es"
  shows "distinct (map fst (dp_answers s)) \<and> distinct (List.map_filter d_msgId (dp_docs s))
    \<and> (\<forall>r p. wq_quiescent (dp_queues s r) \<and> p < length (dp_calls s r) \<longrightarrow> (r, p) \<in> fst ` set (dp_answers s))
    \<and> (\<forall>r p rp. ((r, p), Inr rp) \<in> set (dp_answers s) \<longrightarrow>
         p < length (dp_calls s r) \<and> rp_id rp = ac_id (call_of s r p) \<and> rp_msg rp = ac_text (call_of s r p)
         \<and> msgId_taken (dp_docs s) (to_well_formed (rp_id rp))
         \<and> (\<not> rp_duplicate rp \<longrightarrow> bson (ac_document (call_of s r p)) \<in> set (dp_docs s)))
    \<and> (\<forall>c rp c' rp'. (c, Inr rp) \<in> set (dp_answers s) \<and> (c', Inr rp') \<in> set (dp_answers s)
         \<and> \<not> rp_duplicate rp \<and> \<not> rp_duplicate rp' \<and> to_well_formed (rp_id rp) = to_well_formed (rp_id rp') \<longrightarrow> c = c')"
proof -
  note ok = deployment_run_ok[OF assms(1,2), where g = g and key = key and es = es and df = df and inst = inst and cap = cap, folded s]
  have reply: "(c, if rp_duplicate rp then OpDuplicate else OpWritten) \<in> set (dp_tried s)"
    "rp_id rp = ac_id (call_of s (fst c) (snd c))" "rp_msg rp = ac_text (call_of s (fst c) (snd c))"
    if a: "(c, Inr rp) \<in> set (dp_answers s)" for c rp
  proof -
    obtain r p where "c = (r, p)" by fastforce
    then obtain d where "Inr rp = answer_to (inst (fst c)) (call_of s (fst c) (snd c)) (Resolved d)" "(c, if d then OpDuplicate else OpWritten) \<in> set (dp_tried s)"
      using ok(4) a unfolding answers_ok_def fst_conv snd_conv by force
    then show "(c, if rp_duplicate rp then OpDuplicate else OpWritten) \<in> set (dp_tried s)"
      "rp_id rp = ac_id (call_of s (fst c) (snd c))" "rp_msg rp = ac_text (call_of s (fst c) (snd c))"
      by (simp_all add: answer_to_def)
  qed
  have stored: "p < length (dp_calls s r) \<and> msgId_taken (dp_docs s) (stored_id s (r, p))
      \<and> (\<not> d \<longrightarrow> bson (ac_document (call_of s r p)) \<in> set (dp_docs s))"
    if "((r, p), if d then OpDuplicate else OpWritten) \<in> set (dp_tried s)" for r p d
    using ok(2,3) that by (cases d) (auto simp: tried_ok_def docs_ok_def)
  have once: "c = c'" if "(c, OpWritten) \<in> set (dp_tried s)" "(c', OpWritten) \<in> set (dp_tried s)" "stored_id s c = stored_id s c'" for c c'
  proof -
    have "inj_on (stored_id s \<circ> fst) (set (filter (\<lambda>(c, res). res = OpWritten) (dp_tried s)))"
      using ok(3) by (simp add: docs_ok_def distinct_map)
    from inj_onD[OF this, of "(c, OpWritten)" "(c', OpWritten)"] show ?thesis using that by simp
  qed
  have "distinct (map fst (dp_answers s))" "distinct (List.map_filter d_msgId (dp_docs s))"
    using ok(3,4) by (simp_all add: docs_ok_def answers_ok_def)
  moreover have "(r, p) \<in> fst ` set (dp_answers s)" if "wq_quiescent (dp_queues s r) \<and> p < length (dp_calls s r)" for r p
  proof -
    have q: "wq_inv (dp_queues s r)" "length (dp_calls s r) = wm_next (dp_queues s r)" using ok(1) by (simp_all add: calls_ok_def backend_ok_def)
    then have "mset (map fst (wm_settled (dp_queues s r))) = mset [0..<length (dp_calls s r)]"
      using quiescent_settled[OF q(1)] that by simp
    then have "p \<in> fst ` set (wm_settled (dp_queues s r))" using that by (metis atLeastLessThan_iff le0 mset_eq_setD set_map set_upt)
    then show ?thesis using ok(4) unfolding answers_ok_def by blast
  qed
  moreover have "p < length (dp_calls s r) \<and> rp_id rp = ac_id (call_of s r p) \<and> rp_msg rp = ac_text (call_of s r p)
         \<and> msgId_taken (dp_docs s) (to_well_formed (rp_id rp))
         \<and> (\<not> rp_duplicate rp \<longrightarrow> bson (ac_document (call_of s r p)) \<in> set (dp_docs s))"
    if "((r, p), Inr rp) \<in> set (dp_answers s)" for r p rp
    using reply[OF that] stored[OF reply(1)[OF that]] by (simp add: stored_id_def)
  moreover have "c = c'" if "(c, Inr rp) \<in> set (dp_answers s) \<and> (c', Inr rp') \<in> set (dp_answers s)
         \<and> \<not> rp_duplicate rp \<and> \<not> rp_duplicate rp' \<and> to_well_formed (rp_id rp) = to_well_formed (rp_id rp')" for c rp c' rp'
    using reply[of c rp] reply[of c' rp'] once[of c c'] that by (simp add: stored_id_def)
  ultimately show ?thesis by blast
qed

text \<open>
  C2: The write path refines the one-step write. Every run of the deployment, with its queues, batches and
  answers, is seen as a run of the cluster of \<open>Replicas\<close>, in which a document is written in one step: its
  posts and saves are requests and messages of the run, and documents, feeds and streams are the same.
\<close>

theorem deployment_refines_cluster:
  assumes "1 \<le> b" "1 \<le> k"
  shows "\<exists>ces. list_all (backed_by (set es)) ces \<and> cluster_run df g key cap ces = seen_as (deployment_run df g key inst cap b k es)"
  by (rule deployment_seen_as[OF assms])


section \<open>A concrete run\<close>

text \<open>The balancer replays a request onto a second backend; the second batch is told of the duplicate.\<close>

definition sample_duplicate :: bulk_result where
  "sample_duplicate = BulkFailed \<lparr>de_writeErrors = ErrorArray [Flat \<lparr>we_index = Some 0, we_code = Some 11000, we_errmsg = None\<rparr>],
     de_message = []\<rparr>"

definition sample_replay :: "deployment_event list" where
  "sample_replay = [DRequest 0 (plain_values 5 1) (plain_request [65] [66]), DRequest 2 (plain_values 6 2) (plain_request [65] [66]),
     DImmediate 0, DImmediate 2, DOperation 2 0 False, DOperation 0 0 False,
     DAnswer 2 0 BulkOk, DAnswer 0 0 sample_duplicate, DDeliver 0 7, DDeliver 2 7]"

lemma small_request:
  "accept_message plain_gcm (replicate 32 1) (plain_values now oid) (plain_request [65] [66]) = Inr (Inr \<lparr>ac_id = [65], ac_client = js ''al'',
      ac_text = [66], ac_ts = now, ac_document = http_document plain_gcm (replicate 32 1) (plain_values now oid) [65] (js ''al'') [66]\<rparr>)"
  "good_post plain_gcm (replicate 32 1) (CPost r (plain_values now oid) (plain_request [65] [66]) how)"
proof -
  have small: "js_trim [65] = [65 :: code_unit]" "js_trim [66] \<noteq> ([] :: jsstr)" "length (utf8 [66]) \<le> 16384"
    "well_formed [65]" "well_formed [66]"
    by (simp_all add: js_trim_def is_js_space_def is_high_def is_low_def utf8_def utf8_nats_def single_point_def utf8_point_def)
  show "accept_message plain_gcm (replicate 32 1) (plain_values now oid) (plain_request [65] [66]) = Inr (Inr \<lparr>ac_id = [65], ac_client = js ''al'',
      ac_text = [66], ac_ts = now, ac_document = http_document plain_gcm (replicate 32 1) (plain_values now oid) [65] (js ''al'') [66]\<rparr>)"
    using plain_request_accepted[OF small(1) _ small(2,3), of plain_gcm "replicate 32 1" "plain_values now oid"] by (simp add: plain_values_def)
  show "good_post plain_gcm (replicate 32 1) (CPost r (plain_values now oid) (plain_request [65] [66]) how)"
    using plain_post_good[OF small(1) _ small(2,3,4,5)] by simp
qed

lemma sample_documents: "d_msgId (bson (http_document g key fv [65] n t)) = Some [65]"
  by (simp add: bson_def http_document_def Let_def to_well_formed_id is_high_def is_low_def)

definition sent :: "document \<Rightarrow> document wq_machine" where
  "sent d = flush ((insert_doc d (wq_start 1000 8))\<lparr>wm_immediates := 0\<rparr>)"

lemma sent_fields [simp]:
  "wm_immediates (insert_doc d (wq_start 1000 8)) = 1" "wm_bulks (sent d) = [[(d, 0)]]" "wm_settled (sent d) = []"
  by (simp_all add: sent_def insert_doc_def wq_start_def new_WriteQueue_def schedule_def flush_def Let_def)

lemma sample_settlements [simp]:
  "new_settlements BulkOk [(d, 0)] = [(0, Resolved False)]" "new_settlements sample_duplicate [(d, 0)] = [(0, Resolved True)]"
  "map_of tried (r, 0) = Some OpWritten \<Longrightarrow> truthful tried r [(d, 0)] BulkOk"
  "map_of tried (r, 0) = Some OpDuplicate \<Longrightarrow> truthful tried r [(d, 0)] sample_duplicate"
  "\<not> lost BulkOk" "\<not> lost sample_duplicate"
  by (simp_all add: new_settlements_def sample_duplicate_def settle_batch_def item_outcome_def failedAt_def truthful_def reported_def
      tells_def lost_def DUPLICATE_KEY_def)

abbreviation sample_deployment :: "unit deployment" where
  "sample_deployment \<equiv> deployment_run storing_df plain_gcm (replicate 32 1) (\<lambda>r. []) 9 1000 8 sample_replay"

lemmas sample_replay_simps = deployment_run_def sample_replay_def deploy_def handle_request_def small_request run_immediate_def
  sent_def[symmetric] operate_def under_way_def insertOne_msgId[OF sample_documents] msgId_taken_def sample_documents answer_bulk_fold
  Let_def answer_to_def call_of_def

lemma sample_replay_answers:
  "map (\<lambda>(c, answer). (c, map_sum id (\<lambda>rp. (rp_id rp, rp_duplicate rp)) answer)) (dp_answers sample_deployment)
    = [((2, 0), Inr ([65], False)), ((0, 0), Inr ([65], True))]"
  by (simp add: sample_replay_simps)

lemma sample_replay_heard:
  "length (dp_docs sample_deployment) = 1 \<and> dp_pos sample_deployment 0 = 1 \<and> dp_pos sample_deployment 2 = 1"
  by (simp add: sample_replay_simps cluster_fields seen_as_def advance_def)

lemma sample_replay_good: "list_all (good_event plain_gcm (replicate 32 1)) sample_replay"
  by (simp add: sample_replay_def small_request del: good_post.simps)

theorem answered_means_stored_witness:
  "msgId_taken (dp_docs sample_deployment) [65] \<and> distinct (map fst (dp_answers sample_deployment))"
proof -
  have "((2, 0), Inr ([65], False)) \<in> set (map (\<lambda>(c, answer). (c, map_sum id (\<lambda>rp. (rp_id rp, rp_duplicate rp)) answer)) (dp_answers sample_deployment))"
    unfolding sample_replay_answers by simp
  then obtain answer where a: "((2, 0), answer) \<in> set (dp_answers sample_deployment)"
    "map_sum id (\<lambda>rp. (rp_id rp, rp_duplicate rp)) answer = Inr ([65], False)" by auto
  then obtain rp where "((2, 0), Inr rp) \<in> set (dp_answers sample_deployment)" "rp_id rp = [65]" by (cases answer) auto
  moreover have "to_well_formed [65] = [65]" by (simp add: to_well_formed_id is_high_def is_low_def)
  moreover note answered_means_stored[where b = 1000 and k = 8 and s = sample_deployment, OF _ _ refl]
  ultimately show ?thesis by (metis one_le_numeral)
qed

theorem deployment_refines_cluster_witness:
  "\<exists>ces. list_all (backed_by (set sample_replay)) ces
     \<and> cluster_run storing_df plain_gcm (replicate 32 1) 9 ces = seen_as sample_deployment"
  by (rule deployment_refines_cluster) simp_all


end
