(* ===== verification/Whole_System.thy ===== *)
theory Whole_System
  imports One_Room Deployment
begin

text \<open>
  Everything at once: the HTTP side of the backends with their write queues, feeds and change streams
  (\<open>Deployment\<close>) and their chat with its sockets, handlers and adapter (\<open>Chat_Network\<close>), which \<open>start\<close> of
  \<open>server.js\<close> puts into each process, over one collection of messages.
\<close>

section \<open>The system\<close>

text \<open>\<open>ws_trace\<close> records what reached the HTTP side and the collection, in order.\<close>

record 'z system =
  ws_http :: "'z deployment"
  ws_chat :: network
  ws_trace :: "deployment_event list"

datatype system_event = OnHttp deployment_event | OnChat network_event

fun from_chat :: "deployment_event \<Rightarrow> bool" where
  "from_chat (DSaid nonce oid uuid stored d how) = True"
| "from_chat e = False"

text \<open>The save that the reply to a waiting handler carries out.\<close>

fun saved_by :: "network \<Rightarrow> network_event \<Rightarrow> deployment_event list" where
  "saved_by w (NReply r i rp) =
     (if length (ch_waiting (nw_chat w r)) \<le> i then []
      else (case snd (ch_waiting (nw_chat w r) ! i) of
          SaveMessage d now sealed \<Rightarrow> [DSaid (sl_nonce sealed) (rp_oid rp) (rp_uuid rp) now d (rp_fate rp)]
        | _ \<Rightarrow> []))"
| "saved_by w e = []"

definition start_system :: "'z deflater \<Rightarrow> nat \<Rightarrow> nat \<Rightarrow> int \<Rightarrow> 'z system" where
  "start_system df maxEntries maxBatch maxInFlight =
     \<lparr>ws_http = deploy df maxEntries maxBatch maxInFlight, ws_chat = new_network, ws_trace = []\<rparr>"

text \<open>Both sides read and write the same documents; a save of the chat happens on the chat's side only.\<close>

fun system_apply ::
  "'z deflater \<Rightarrow> 'db sender_ops \<Rightarrow> 'db \<Rightarrow> 'k ecdsa \<Rightarrow> gcm \<Rightarrow> byte list \<Rightarrow> (nat \<Rightarrow> jsstr) \<Rightarrow> 'z system \<Rightarrow> system_event \<Rightarrow> 'z system"
where
  "system_apply df so db ec g key inst s (OnHttp e) =
     (if from_chat e then s
      else let h = deployment_apply df g key inst (ws_http s) e
           in s\<lparr>ws_http := h, ws_chat := (ws_chat s)\<lparr>nw_docs := dp_docs h\<rparr>, ws_trace := ws_trace s @ [e]\<rparr>)"
| "system_apply df so db ec g key inst s (OnChat e) =
     (let w = network_apply so db ec g key (ws_chat s) e
      in s\<lparr>ws_http := (ws_http s)\<lparr>dp_docs := nw_docs w\<rparr>, ws_chat := w, ws_trace := ws_trace s @ saved_by (ws_chat s) e\<rparr>)"

definition system_run ::
  "'z deflater \<Rightarrow> 'db sender_ops \<Rightarrow> 'db \<Rightarrow> 'k ecdsa \<Rightarrow> gcm \<Rightarrow> byte list \<Rightarrow> (nat \<Rightarrow> jsstr) \<Rightarrow> nat \<Rightarrow> nat \<Rightarrow> int
     \<Rightarrow> system_event list \<Rightarrow> 'z system" where
  "system_run df so db ec g key inst maxEntries maxBatch maxInFlight es =
     run_events (system_apply df so db ec g key inst) (start_system df maxEntries maxBatch maxInFlight) es"

section \<open>What the chat saves\<close>

text \<open>A handler that waits for a save has verified the signature, and sealed the text that was signed.\<close>

fun sealed_ok :: "'k ecdsa \<Rightarrow> gcm \<Rightarrow> byte list \<Rightarrow> waiting \<Rightarrow> bool" where
  "sealed_ok ec g key (SaveMessage d now sealed) \<longleftrightarrow> sealed = encrypt g key (sl_nonce sealed) (dr_text d)
     \<and> verifySignature ec (dr_username d) (dr_clientTimestamp d) (dr_text d) (dr_signatureB64 d) (dr_publicKey d)"
| "sealed_ok ec g key w \<longleftrightarrow> True"

definition saves_ok :: "'k ecdsa \<Rightarrow> gcm \<Rightarrow> byte list \<Rightarrow> chat \<Rightarrow> bool" where
  "saves_ok ec g key s \<longleftrightarrow> list_all (sealed_ok ec g key) (map snd (ch_waiting s))"

lemma saves_ok_await: "saves_ok ec g key (await sid w s) \<longleftrightarrow> saves_ok ec g key s \<and> sealed_ok ec g key w"
  by (auto simp: saves_ok_def await_def)

lemma saves_ok_others [simp]:
  "saves_ok ec g key (emit es s) \<longleftrightarrow> saves_ok ec g key s" "saves_ok ec g key (set_data sid d s) \<longleftrightarrow> saves_ok ec g key s"
  "saves_ok ec g key (s\<lparr>ch_limiter := h\<rparr>) \<longleftrightarrow> saves_ok ec g key s" "saves_ok ec g key (s\<lparr>ch_presence := p\<rparr>) \<longleftrightarrow> saves_ok ec g key s"
  by (simp_all add: saves_ok_def emit_def set_data_def)

lemma saves_ok_resume: "saves_ok ec g key s \<Longrightarrow> sealed_ok ec g key w \<Longrightarrow> saves_ok ec g key (resume ec g key sid w a s)"
  by (cases w; cases a)
     (auto simp: sender_found_def login_verified_def sender_registered_def history_read_def message_verified_def
       message_saved_def Let_def saves_ok_await case_prod_beta' split: option.split)

lemma saves_ok_apply: "saves_ok ec g key s \<Longrightarrow> saves_ok ec g key (chat_apply ec g key s e)"
proof (cases e)
  case (EAnswer i a)
  assume ok: "saves_ok ec g key s"
  then have "saves_ok ec g key (s\<lparr>ch_waiting := take i (ch_waiting s) @ drop (Suc i) (ch_waiting s)\<rparr>)"
    by (auto simp: saves_ok_def list_all_iff dest: in_set_takeD in_set_dropD)
  moreover have "sealed_ok ec g key (snd (ch_waiting s ! i))" if "i < length (ch_waiting s)"
    using ok that by (simp add: saves_ok_def list_all_length)
  ultimately show ?thesis using ok by (auto simp: EAnswer saves_ok_resume case_prod_beta')
qed (auto simp: auth_start_def auth_response_def chat_message_def typing_def disconnect_def Let_def saves_ok_await
      case_prod_beta' split: option.split sum.split list.split jsval.split)

lemma saves_ok_run: "saves_ok ec g key (chat_run ec g key es)"
proof -
  have "saves_ok ec g key s \<Longrightarrow> saves_ok ec g key (run_events (chat_apply ec g key) s es)" for s
    by (induction es arbitrary: s) (auto intro: saves_ok_apply)
  moreover have "saves_ok ec g key new_chat" by (simp add: saves_ok_def new_chat_def)
  ultimately show ?thesis by (simp add: chat_run_def)
qed

section \<open>The HTTP side of a run\<close>

text \<open>A chat event changes the collection by the save that it carries, if any.\<close>

lemma handled_docs [simp]: "nw_docs (handled r s w) = nw_docs w"
  by (simp add: handled_def Let_def)

lemma chat_event_docs:
  assumes ok: "network_ok ec g key w" and docs: "nw_docs w = dp_docs h"
  shows "run_events (deployment_apply df g key inst) h (saved_by w e) = h\<lparr>dp_docs := nw_docs (network_apply so db ec g key w e)\<rparr>"
proof (cases e)
  case (NReply r i rp)
  show ?thesis
  proof (cases "length (ch_waiting (nw_chat w r)) \<le> i")
    case False
    let ?v = "snd (ch_waiting (nw_chat w r) ! i)"
    have after: "nw_docs (network_apply so db ec g key w e) = nw_docs (snd (ask so db ec g key rp ?v w))"
      using False by (simp add: NReply reply_to_def case_prod_beta' del: chat_apply.simps)
    obtain es where "nw_chat w r = chat_run ec g key es" using ok unfolding network_ok_def by blast
    then have "sealed_ok ec g key ?v" using saves_ok_run[of ec g key es] False by (simp add: saves_ok_def list_all_length)
    then show ?thesis
    proof (cases ?v)
      case (SaveMessage d now sealed)
      then have sealed: "sealed = encrypt g key (sl_nonce sealed) (dr_text d)" using \<open>sealed_ok ec g key ?v\<close> by simp
      have "nw_docs w = cl_docs (seen_as h)" using docs by (simp add: seen_as_def)
      from save_is_said[OF this, where so = so and db = db and ec = ec and g = g and key = key and rp = rp and d = d and now = now and nonce = "sl_nonce sealed"]
      show ?thesis using False SaveMessage after sealed by (simp add: NReply)
    qed (use False after docs in \<open>simp_all add: NReply\<close>)
  qed (use docs in \<open>simp add: NReply reply_to_def\<close>)
qed (use docs in \<open>simp_all add: open_socket_def client_def publish_def follow_def Let_def case_prod_beta' split: option.split\<close>)

fun verified_event :: "'k ecdsa \<Rightarrow> deployment_event \<Rightarrow> bool" where
  "verified_event ec (DSaid nonce oid uuid stored d how) =
     verifySignature ec (dr_username d) (dr_clientTimestamp d) (dr_text d) (dr_signatureB64 d) (dr_publicKey d)"
| "verified_event ec e = True"

lemma saved_by_verified:
  assumes ok: "network_ok ec g key w" shows "list_all (verified_event ec) (saved_by w e)"
proof (cases e)
  case (NReply r i rp)
  obtain es where "nw_chat w r = chat_run ec g key es" using ok unfolding network_ok_def by blast
  then have "sealed_ok ec g key (snd (ch_waiting (nw_chat w r) ! i))" if "i < length (ch_waiting (nw_chat w r))"
    using saves_ok_run[of ec g key es] that by (simp add: saves_ok_def list_all_length)
  then show ?thesis by (auto simp: NReply split: waiting.split)
qed simp_all

text \<open>The HTTP side is a run of the deployment over the trace.\<close>

definition system_ok ::
  "'z deployment \<Rightarrow> 'z deflater \<Rightarrow> 'k ecdsa \<Rightarrow> gcm \<Rightarrow> byte list \<Rightarrow> (nat \<Rightarrow> jsstr) \<Rightarrow> 'z system \<Rightarrow> bool" where
  "system_ok h0 df ec g key inst s \<longleftrightarrow> network_ok ec g key (ws_chat s) \<and> nw_docs (ws_chat s) = dp_docs (ws_http s)
     \<and> ws_http s = run_events (deployment_apply df g key inst) h0 (ws_trace s) \<and> list_all (verified_event ec) (ws_trace s)"

lemma system_ok_step: "system_ok h0 df ec g key inst s \<Longrightarrow> system_ok h0 df ec g key inst (system_apply df so db ec g key inst s e)"
proof (cases e)
  case (OnHttp ev)
  assume "system_ok h0 df ec g key inst s"
  note ok = this[unfolded system_ok_def, THEN conjunct1] this[unfolded system_ok_def, THEN conjunct2, THEN conjunct2, THEN conjunct1]
    this[unfolded system_ok_def, THEN conjunct2, THEN conjunct2, THEN conjunct2]
  let ?h = "deployment_apply df g key inst (ws_http s) ev"
  show ?thesis
  proof (cases "from_chat ev")
    case False
    have "network_ok ec g key ((ws_chat s)\<lparr>nw_docs := dp_docs ?h\<rparr>)" by (rule network_ok_cong[OF ok(1)]) simp_all
    moreover have "list_all (verified_event ec) (ws_trace s @ [ev])" using False ok(3) by (cases ev) auto
    moreover have "?h = run_events (deployment_apply df g key inst) h0 (ws_trace s @ [ev])"
      unfolding run_events_append run_events.simps ok(2)[symmetric] ..
    ultimately show ?thesis using False unfolding system_ok_def OnHttp by (simp add: Let_def del: deployment_apply.simps)
  qed (use \<open>system_ok h0 df ec g key inst s\<close> in \<open>simp add: OnHttp\<close>)
next
  case (OnChat ev)
  assume "system_ok h0 df ec g key inst s"
  note ok = this[unfolded system_ok_def, THEN conjunct1] this[unfolded system_ok_def, THEN conjunct2, THEN conjunct1]
    this[unfolded system_ok_def, THEN conjunct2, THEN conjunct2, THEN conjunct1] this[unfolded system_ok_def, THEN conjunct2, THEN conjunct2, THEN conjunct2]
  let ?w = "network_apply so db ec g key (ws_chat s) ev"
  have "run_events (deployment_apply df g key inst) h0 (ws_trace s @ saved_by (ws_chat s) ev) = (ws_http s)\<lparr>dp_docs := nw_docs ?w\<rparr>"
    unfolding run_events_append ok(3)[symmetric] by (rule chat_event_docs[OF ok(1,2)])
  moreover have "list_all (verified_event ec) (ws_trace s @ saved_by (ws_chat s) ev)" using ok(4) saved_by_verified[OF ok(1)] by simp
  moreover have "network_ok ec g key ?w" by (rule network_event_ok[OF ok(1)])
  ultimately show ?thesis unfolding system_ok_def OnChat by (simp add: Let_def del: network_apply.simps saved_by.simps)
qed

interpretation whole: event_invariant "system_apply df so db ec g key inst" "\<lambda>e. True" "system_ok h0 df ec g key inst"
  for df so db ec g key inst h0
  by unfold_locales (rule system_ok_step)

lemma system_run_ok:
  assumes s: "s = system_run df so db ec g key inst cap b k es"
  shows "network_ok ec g key (ws_chat s)" "nw_docs (ws_chat s) = dp_docs (ws_http s)"
    "ws_http s = deployment_run df g key inst cap b k (ws_trace s)" "list_all (verified_event ec) (ws_trace s)"
proof -
  have "network_ok ec g key new_network"
    by (auto simp: network_ok_def new_network_def all_out_def chat_run_def intro: exI[of _ "[]"])
  then have "system_ok (deploy df cap b k) df ec g key inst (start_system df cap b k)"
    by (simp add: system_ok_def start_system_def new_network_def deploy_def)
  moreover have "list_all (\<lambda>e. True) es" by (simp add: list_all_iff)
  ultimately have "system_ok (deploy df cap b k) df ec g key inst s"
    unfolding s system_run_def by (rule whole.inv_run)
  then show "network_ok ec g key (ws_chat s)" "nw_docs (ws_chat s) = dp_docs (ws_http s)"
    "ws_http s = deployment_run df g key inst cap b k (ws_trace s)" "list_all (verified_event ec) (ws_trace s)"
    by (simp_all add: system_ok_def deployment_run_def)
qed

section \<open>Properties\<close>

text \<open>An entry of the history and a message of the feed that tell the same, with the door it came through.\<close>

definition told_as :: "gcm \<Rightarrow> byte list \<Rightarrow> deployment_event list \<Rightarrow> feed_message \<Rightarrow> history_item \<Rightarrow> bool" where
  "told_as g key trace m i \<longleftrightarrow> hi_username i = fm_client m \<and> hi_text i = fm_msg m \<and> fm_msg m \<noteq> None \<and> hi_timestamp i = fm_ts m
     \<and> (\<exists>chat. m \<in> set (brought g key (filter (\<lambda>e. from_chat e = chat) trace)) \<and> hi_signature i = (if chat then Valid else Unsigned))"

lemma backed_filter:
  assumes "list_all (backed_by (set es)) ces"
  shows "list_all (backed_by (set (filter (\<lambda>e. from_chat e = chat) es))) (filter (\<lambda>e. by_chat e = chat) ces)"
proof -
  have "backed_by (set (filter (\<lambda>e. from_chat e = chat) es)) ce" if "backed_by (set es) ce" "by_chat ce = chat" for ce
    using that by (cases ce) auto
  then show ?thesis using assms by (auto simp: list_all_iff)
qed

lemma shown_told: "list_all (backed_by (set es)) ces \<Longrightarrow> shown_as g key ces m i \<Longrightarrow> told_as g key es m i"
  using all_backed_posted[OF backed_filter] unfolding shown_as_def told_as_def by blast

lemma backed_verified: "list_all (backed_by (set es)) ces \<Longrightarrow> list_all (verified_event ec) es \<Longrightarrow> list_all (was_verified ec) ces"
proof -
  have "was_verified ec ce" if "backed_by (set es) ce" "list_all (verified_event ec) es" for ce
    using that by (cases ce) (auto simp: list_all_iff)
  then show "list_all (backed_by (set es)) ces \<Longrightarrow> list_all (verified_event ec) es \<Longrightarrow> list_all (was_verified ec) ces"
    by (auto simp: list_all_iff)
qed


text \<open>A visitor connects; a message is posted to backend 0 and heard by backend 2.\<close>

definition sample_post :: "deployment_event list" where
  "sample_post = [DRequest 0 (plain_values 5 1) (plain_request [65] [66]), DImmediate 0, DOperation 0 0 False, DAnswer 0 0 BulkOk,
     DDeliver 0 7, DDeliver 2 7]"

definition sample_day :: "system_event list" where
  "sample_day = OnChat (NConnect 0 [1]) # map OnHttp sample_post"

abbreviation sample_system :: "unit system" where
  "sample_system \<equiv> system_run storing_df map_senders Map.empty echo_ecdsa plain_gcm (replicate 32 1) (\<lambda>r. []) 9 1000 8 sample_day"

lemma http_trace:
  "list_all (\<lambda>e. \<not> from_chat e) es \<Longrightarrow>
     ws_trace (run_events (system_apply df so db ec g key inst) s (map OnHttp es)) = ws_trace s @ es"
  by (induction es arbitrary: s) (simp_all add: Let_def del: deployment_apply.simps)

lemma sample_trace: "ws_trace sample_system = sample_post"
proof -
  have "list_all (\<lambda>e. \<not> from_chat e) sample_post" by (simp add: sample_post_def)
  then show ?thesis by (simp add: system_run_def sample_day_def start_system_def Let_def http_trace)
qed

lemma sample_post_heard:
  "length (dp_docs (ws_http sample_system)) = 1 \<and> dp_pos (ws_http sample_system) 2 = 1"
  unfolding system_run_ok(3)[OF refl] sample_trace
  by (simp add: sample_post_def sample_replay_simps cluster_fields seen_as_def advance_def)


end
