(* ===== verification/Server.thy ===== *)
theory Server
  imports Replicas LoadMetrics SocketHandlers
begin

text \<open>
  \<open>server.js\<close>: the start of a backend, step by step as \<open>start\<close> awaits them, and its shutdown. The
  settings are the environment variables; what the database answers is a record. An exception
  of a step ends \<open>start\<close>, which is logged and ends the process with status 1.
\<close>

section \<open>Settings\<close>

record settings =
  st_PORT :: "jsstr option"
  st_INSTANCE_NAME :: "jsstr option"
  st_CHAT_ENCRYPTION_KEY :: "jsstr option"
  st_MONGODB_URI :: "jsstr option"
  st_MONGODB_DB_NAME :: "jsstr option"
  st_WRITE_PIPELINE :: "jsstr option"
  st_FEED_MAX_ENTRIES :: "jsstr option"
  st_FEED_SYNC :: "jsstr option"
  st_FEED_RECONCILE_MS :: "jsstr option"

text \<open>\<open>process.env.NAME || default\<close>: unset and empty are the same.\<close>

definition setting :: "jsstr option \<Rightarrow> jsstr \<Rightarrow> jsstr" where
  "setting env fallback = (case env of None \<Rightarrow> fallback | Some v \<Rightarrow> if v = [] then fallback else v)"

definition server_port :: "settings \<Rightarrow> jsstr" where
  "server_port env = setting (st_PORT env) (num_str 4000)"

definition server_instance :: "settings \<Rightarrow> jsstr" where
  "server_instance env = setting (st_INSTANCE_NAME env) (js ''backend'')"

definition ADAPTER_COLLECTION :: jsstr where
  "ADAPTER_COLLECTION = js ''socket.io-adapter-events''"

text \<open>
  \<open>maxInFlight\<close> is compared with a count of writes only, and so is given by its ceiling; infinity is a
  number of writes that is never reached. The default is that of the constructor.
\<close>

definition pipeline_limit :: "jsstr option \<Rightarrow> int" where
  "pipeline_limit env =
     (case env_number env of
        None \<Rightarrow> 8 | Some (Num r) \<Rightarrow> \<lceil>r\<rceil> | Some PosInfinity \<Rightarrow> 2 ^ 53 | Some NegInfinity \<Rightarrow> -1 | Some NaN \<Rightarrow> 8)"

text \<open>The cap of the feed, for the settings that are a positive whole number; for other settings the
  driver's \<open>limit\<close> would have to be known, and the model has no start.\<close>

definition feed_cap :: "jsstr option \<Rightarrow> nat option" where
  "feed_cap env =
     (case env_number env of
        None \<Rightarrow> Some DEFAULT_MAX_ENTRIES
      | Some (Num r) \<Rightarrow> if 1 \<le> r \<and> of_int \<lfloor>r\<rfloor> = r then Some (nat \<lfloor>r\<rfloor>) else None
      | Some n \<Rightarrow> None)"

section \<open>start\<close>

datatype create_answer = Created | NamespaceExists | CreateFailed

record start_answers =
  sa_connect :: connect_answers
  sa_create :: create_answer
  sa_documents :: "(millis \<times> document) list option"
  sa_openable :: bool

datatype start_step =
    KeyLoaded
  | DatabaseConnected
  | AdapterAttached jsstr
  | FeedLoaded nat
  | SyncStarted
  | RoutesMounted
  | Listening jsstr

datatype start_error =
    BadKey cipher_error | BadDatabase db_error | AdapterCollection | FeedUnreadable | CapNotModelled

record 'z backend =
  be_instance :: jsstr
  be_key :: "byte list"
  be_db :: db_module
  be_queue :: "document wq_machine"
  be_feed :: "'z sync"
  be_chat :: chat

definition start ::
  "'z deflater \<Rightarrow> gcm \<Rightarrow> settings \<Rightarrow> start_answers \<Rightarrow> db_module \<Rightarrow> start_step list \<times> (start_error + 'z backend)" where
  "start df g env a dbm =
     (case fst (loadKey (st_CHAT_ENCRYPTION_KEY env) None) of
        Inl e \<Rightarrow> ([], Inl (BadKey e))
      | Inr key \<Rightarrow>
     (case connect (st_MONGODB_URI env) (st_MONGODB_DB_NAME env) (sa_connect a) dbm of
        (Inl e, m) \<Rightarrow> ([KeyLoaded], Inl (BadDatabase e))
      | (Inr db, m) \<Rightarrow>
     (if sa_create a = CreateFailed then ([KeyLoaded, DatabaseConnected], Inl AdapterCollection)
      else
     (let steps = [KeyLoaded, DatabaseConnected, AdapterAttached ADAPTER_COLLECTION];
          queue = wq_start 1000 (pipeline_limit (st_WRITE_PIPELINE env))
      in case feed_cap (st_FEED_MAX_ENTRIES env) of
        None \<Rightarrow> (steps, Inl CapNotModelled)
      | Some cap \<Rightarrow>
     (case sa_documents a of
        None \<Rightarrow> (steps, Inl FeedUnreadable)
      | Some fetched \<Rightarrow>
          let (loaded, feed) = load df g key fetched (new_FeedStore df cap CHAT_ROOM_ID);
              sync = startSync (st_FEED_SYNC env) (st_FEED_RECONCILE_MS env) (sa_openable a) (new_sync feed)
          in (steps @ [FeedLoaded loaded, SyncStarted, RoutesMounted, Listening (server_port env)],
              Inr \<lparr>be_instance = server_instance env, be_key = key, be_db = m, be_queue = queue,
                   be_feed = sync, be_chat = new_chat\<rparr>))))))"

section \<open>shutdown\<close>

datatype shutdown_step = SocketsClosed | HttpClosed | FeedClosed | DatabaseClosed | ShutdownError | Exit int

text \<open>\<open>shutdownExtras\<close> is empty until \<open>start\<close> is through; \<open>started\<close> is the backend if it is. The feed's
  \<open>close\<close> never rejects.\<close>

definition shutdown :: "bool \<Rightarrow> 'z backend option \<Rightarrow> db_module \<Rightarrow> shutdown_step list \<times> 'z backend option \<times> db_module" where
  "shutdown db_closes started m =
     (let feed_steps = (case started of None \<Rightarrow> [] | Some b \<Rightarrow> [FeedClosed]);
          started' = map_option (\<lambda>b. b\<lparr>be_feed := close_sync (be_feed b)\<rparr>) started;
          (ok, m') = close_db db_closes m
      in ([SocketsClosed, HttpClosed] @ feed_steps @ (if ok then [DatabaseClosed] else [ShutdownError]) @ [Exit 0], started', m'))"

text \<open>The server of the first assignment, \<open>chat_server_patched.js\<close>: no feed, no queue, and the static
  files before the database.\<close>

definition start_patched ::
  "settings \<Rightarrow> start_answers \<Rightarrow> db_module \<Rightarrow> start_step list \<times> (start_error + (byte list \<times> db_module \<times> chat))" where
  "start_patched env a dbm =
     (case fst (loadKey (st_CHAT_ENCRYPTION_KEY env) None) of
        Inl e \<Rightarrow> ([RoutesMounted], Inl (BadKey e))
      | Inr key \<Rightarrow>
     (case connect (st_MONGODB_URI env) (st_MONGODB_DB_NAME env) (sa_connect a) dbm of
        (Inl e, m) \<Rightarrow> ([RoutesMounted, KeyLoaded], Inl (BadDatabase e))
      | (Inr db, m) \<Rightarrow>
          if sa_create a = CreateFailed then ([RoutesMounted, KeyLoaded, DatabaseConnected], Inl AdapterCollection)
          else ([RoutesMounted, KeyLoaded, DatabaseConnected, AdapterAttached ADAPTER_COLLECTION, Listening (server_port env)],
                Inr (key, m, new_chat))))"

definition shutdown_patched :: "bool \<Rightarrow> db_module \<Rightarrow> shutdown_step list \<times> db_module" where
  "shutdown_patched db_closes m =
     (let (ok, m') = close_db db_closes m
      in ([SocketsClosed, HttpClosed] @ (if ok then [DatabaseClosed] else [ShutdownError]) @ [Exit 0], m'))"

section \<open>Facts\<close>

text \<open>Loading distinct documents into an empty store, up to the cap.\<close>

lemma push_all_new:
  assumes "distinct (map fst es)" "fst ` set es \<inter> fs_seen s = {}" "length (fs_entries s) + length es \<le> fs_trimAt s"
  shows "fs_entries (push_all df es s) = fs_entries s @ map snd es \<and> fs_ids (push_all df es s) = fs_ids s @ map fst es"
  using assms
proof (induction es arbitrary: s)
  case (Cons e es)
  obtain i json where e: "e = (i, json)" by fastforce
  let ?s1 = "snd (push df i json s)"
  have "i \<notin> fs_seen s" using Cons.prems e by auto
  then have s1: "fs_entries ?s1 = fs_entries s @ [json]" "fs_ids ?s1 = fs_ids s @ [i]" "fs_seen ?s1 = insert i (fs_seen s)"
    "fs_trimAt ?s1 = fs_trimAt s"
    using Cons.prems(3) by (auto simp: push_def Let_def)
  have "fs_entries (push_all df es ?s1) = fs_entries ?s1 @ map snd es \<and> fs_ids (push_all df es ?s1) = fs_ids ?s1 @ map fst es"
    using Cons.prems e s1 by (intro Cons.IH) auto
  then show ?case using s1 e by (simp add: push_all_def)
qed (simp add: push_all_def)

lemma load_new:
  assumes "distinct (map (document_key \<circ> snd) fetched)" "length fetched \<le> cap"
    and load: "load df g key fetched (new_FeedStore df cap room) = (n, s)"
  shows "n = length fetched \<and> fs_entries s = map (\<lambda>(now, d). entry_of (message_of g key now d)) (rev fetched)
    \<and> fs_ids s = map (document_key \<circ> snd) (rev fetched)"
proof -
  let ?es = "map (\<lambda>(now, d). (document_key d, entry_of (message_of g key now d))) fetched"
  let ?s0 = "new_FeedStore df cap room"
  have prep: "List.map_filter (\<lambda>(now, d). prepare g key now d ?s0) fetched = ?es"
    by (induction fetched) (auto simp: map_filter_simps prepare_def new_FeedStore_def)
  have "distinct (map fst (rev ?es))" using assms(1) by (simp add: comp_def case_prod_beta' rev_map[symmetric])
  moreover have "length fetched \<le> trim_at cap" using assms(2) trim_at_ge[of cap] by simp
  ultimately have "fs_entries (push_all df (rev ?es) ?s0) = map snd (rev ?es) \<and> fs_ids (push_all df (rev ?es) ?s0) = map fst (rev ?es)"
    using push_all_new[of "rev ?es" ?s0 df] by (simp add: new_FeedStore_def)
  moreover have "s = push_all df (rev ?es) ?s0" "n = length (fs_entries s)"
    using load unfolding load_def prep Let_def by auto
  ultimately show ?thesis by (simp add: rev_map[symmetric] comp_def case_prod_beta')
qed

lemma startSync_store [simp]: "sy_store (startSync mode env openable s) = sy_store s"
  by (simp add: startSync_def startReconciler_def)

lemma loaded_key:
  "fst (loadKey env None) = Inr key \<Longrightarrow> length key = KEY_BYTES"
  using loadKey_length[of None env key "snd (loadKey env None)"] by (metis option.distinct(1) prod.collapse)

lemma connected_indexes:
  "dm_db m = None \<Longrightarrow> connect uri name a m = (Inr d, m') \<Longrightarrow> msgId_index \<in> set (dm_indexes m') \<and> getDb m' = Inr d"
  by (auto simp: connect_def createIndexes_def getDb_def Let_def split: sum.splits if_splits)

section \<open>A closed feed\<close>

lemma resync_slice_opened [simp]: "sy_opened (resync_slice df r todo s) = sy_opened s \<and> sy_closed (resync_slice df r todo s) = sy_closed s"
  by (simp add: resync_slice_def Let_def)

definition closed_with :: "(nat \<times> nat option) list \<Rightarrow> 'z sync \<Rightarrow> bool" where
  "closed_with opened s \<longleftrightarrow> sy_closed s \<and> sy_opened s = opened"

lemma closed_event: "closed_with o' s \<Longrightarrow> closed_with o' (sync_apply df g key s e)"
  by (cases e)
     (auto simp: closed_with_def startSync_def startReconciler_def watch_def on_error_def resync_def resync_document_def
       resync_failed_def resync_exhausted_def resync_continue_def reconcile_def reconcile_asks_def timer_fires_def close_sync_def
       Let_def split: option.splits resync_run.splits timer.splits sum.splits)

interpretation closed: event_invariant "sync_apply df g key" "\<lambda>e. True" "closed_with opened" for df g key opened
  by unfold_locales (rule closed_event)

section \<open>A queue that may not write\<close>

text \<open>A limit below one keeps every document waiting.\<close>

definition stalled :: "'d wq_machine \<Rightarrow> bool" where
  "stalled m \<longleftrightarrow> wq_maxInFlight (wm_q m) \<le> wq_inFlight (wm_q m) \<and> wm_bulks m = [] \<and> wm_settled m = []
     \<and> length (wq_pending (wm_q m)) = wm_next m"

lemma stalled_flush: "stalled m \<Longrightarrow> stalled (flush m)"
  by (auto simp: stalled_def flush_def Let_def)

lemma stalled_insert: "stalled m \<Longrightarrow> stalled (insert_doc document m)"
proof -
  let ?p = "wq_pending (wm_q m) @ [(document, wm_next m)]"
  let ?m1 = "m\<lparr>wm_q := (wm_q m)\<lparr>wq_pending := ?p, wq_depth := length ?p\<rparr>, wm_next := Suc (wm_next m)\<rparr>"
  assume "stalled m"
  then have 1: "stalled ?m1" by (simp add: stalled_def)
  moreover have "stalled (schedule ?m1)" using 1 by (simp add: stalled_def schedule_def)
  ultimately show ?thesis using stalled_flush[OF 1] unfolding insert_doc_def Let_def by presburger
qed

lemma stalled_immediate [simp]: "stalled (m\<lparr>wm_immediates := n\<rparr>) = stalled m"
  by (simp add: stalled_def)

lemma stalled_step: "wq_step m m' \<Longrightarrow> stalled m \<Longrightarrow> stalled m'"
  by (auto elim!: wq_stepE internal_stepE intro!: stalled_insert stalled_flush) (simp add: stalled_def)

section \<open>Properties\<close>

text \<open>
  C17: A backend listens last. \<open>start\<close> listens only after a 32-byte key, an open database that carries
  the unique index on message ids, the adapter and the loaded feed are all there, in that order;
  if any of them fails nothing after it happens, and in particular no client is ever served.
\<close>

theorem listens_last:
  assumes "dm_db dbm = None"
  shows "case start df g env a dbm of
      (steps, Inl e) \<Rightarrow> (\<forall>p. Listening p \<notin> set steps) \<and>
        (\<exists>rest. [KeyLoaded, DatabaseConnected, AdapterAttached ADAPTER_COLLECTION] = steps @ rest)
    | (steps, Inr b) \<Rightarrow>
        (\<exists>n. steps = [KeyLoaded, DatabaseConnected, AdapterAttached ADAPTER_COLLECTION, FeedLoaded n, SyncStarted,
           RoutesMounted, Listening (server_port env)] \<and> n = length (fs_entries (sy_store (be_feed b))))
        \<and> length (be_key b) = KEY_BYTES \<and> (\<exists>d. getDb (be_db b) = Inr d) \<and> msgId_index \<in> set (dm_indexes (be_db b))"
  using assms
  by (auto simp: start_def Let_def load_def new_sync_def dest!: loaded_key connected_indexes
      split: sum.split option.split prod.split)

definition sample_settings :: settings where
  "sample_settings = \<lparr>st_PORT = None, st_INSTANCE_NAME = None, st_CHAT_ENCRYPTION_KEY = Some (to_base64 (replicate 32 1)),
     st_MONGODB_URI = Some [109], st_MONGODB_DB_NAME = None, st_WRITE_PIPELINE = Some (js ''-1''), st_FEED_MAX_ENTRIES = None,
     st_FEED_SYNC = None, st_FEED_RECONCILE_MS = None\<rparr>"

definition sample_answers :: start_answers where
  "sample_answers = \<lparr>sa_connect = \<lparr>ca_connected = True, ca_first_index = True, ca_second_index = True\<rparr>, sa_create = NamespaceExists,
     sa_documents = Some [], sa_openable = True\<rparr>"

theorem listens_last_witness:
  "case start storing_df plain_gcm sample_settings (sample_answers\<lparr>sa_create := CreateFailed\<rparr>) (new_db_module []) of
     (steps, Inl e) \<Rightarrow> (\<forall>p. Listening p \<notin> set steps) | (steps, Inr b) \<Rightarrow> length (be_key b) = KEY_BYTES"
  using listens_last[where dbm = "new_db_module []" and df = storing_df and g = plain_gcm and env = sample_settings
      and a = "sample_answers\<lparr>sa_create := CreateFailed\<rparr>"]
  by (auto simp: new_db_module_def split: sum.splits prod.splits)

text \<open>
  C18: A fresh backend serves the newest messages. Started on a room whose messages have distinct
  ids, a backend's first plain feed is the JSON array of the newest messages of the room in id
  order, as many as its cap allows, each with what its document says, and its size is announced.
\<close>

theorem fresh_backend_serves_room:
  assumes start: "start df g env a dbm = (steps, Inr b)" and cap: "feed_cap (st_FEED_MAX_ENTRIES env) = Some cap"
    and fetched: "sa_documents a = Some (map (\<lambda>d. (now, d)) (newest_first docs CHAT_ROOM_ID cap))"
    and ids: "distinct (map document_key docs)"
    and body: "payload 0 0 (sy_store (be_feed b)) = (body, s')"
  shows "read_feed (from_utf8 (concat (bc_chunks body))) =
      Some (map (message_of g (be_key b) now) (newest cap (sort_key d_id (filter (\<lambda>d. d_roomId d = CHAT_ROOM_ID) docs))))
    \<and> bc_length body = length (concat (bc_chunks body))"
proof -
  let ?new = "newest_first docs CHAT_ROOM_ID cap" and ?room = "sort_key d_id (filter (\<lambda>d. d_roomId d = CHAT_ROOM_ID) docs)"
  obtain n feed where load: "load df g (be_key b) (map (\<lambda>d. (now, d)) ?new) (new_FeedStore df cap CHAT_ROOM_ID) = (n, feed)"
    and feed: "sy_store (be_feed b) = feed"
    using start cap fetched
    by (auto simp: start_def Let_def new_sync_def split: sum.splits prod.splits if_splits)
  have "distinct (map document_key (filter (\<lambda>d. d_roomId d = CHAT_ROOM_ID) docs))" using ids by (rule distinct_map_filter)
  then have "distinct (map document_key ?room)"
    using mset_eq_imp_distinct_iff[of "map document_key ?room"
        "map document_key (filter (\<lambda>d. d_roomId d = CHAT_ROOM_ID) docs)"] by simp
  then have "distinct (map document_key ?new)" unfolding newest_first_def
    by (metis distinct_rev distinct_take rev_map take_map)
  then have "fs_entries feed = map (entry_of \<circ> message_of g (be_key b) now) (rev ?new)"
    using load_new[OF _ _ load] by (simp add: comp_def newest_first_def rev_map)
  moreover have "rev ?new = newest cap ?room" using rev_newest_first[of docs CHAT_ROOM_ID cap] by (simp add: newest_def Let_def)
  ultimately have entries: "fs_entries feed = map entry_of (map (message_of g (be_key b) now) (newest cap ?room))" by simp
  have "1 \<le> cap" using cap by (auto simp: feed_cap_def DEFAULT_MAX_ENTRIES_def le_nat_iff split: option.splits numeric.splits if_splits)
  then have "store_ok df feed" using load_ok[of df "new_FeedStore df cap CHAT_ROOM_ID"] store_ok_new[of cap df CHAT_ROOM_ID] load
    by (metis snd_conv)
  then have "concat (bc_chunks body) = utf8 (feed_text (fs_entries feed)) \<and> bc_length body = length (concat (bc_chunks body))"
    using payload_plain[OF _ body] feed by (simp add: store_ok_def)
  then show ?thesis unfolding entries using read_feed_bytes by metis
qed

definition sample_backend :: "unit backend" where
  "sample_backend = projr (snd (start storing_df plain_gcm sample_settings sample_answers (new_db_module [])))"

lemma sample_start:
  "\<exists>steps. start storing_df plain_gcm sample_settings sample_answers (new_db_module []) = (steps, Inr sample_backend)"
proof -
  have "readUri (Some [109]) = Inr [109]" by (simp add: readUri_def js_trim_def is_js_space_def)
  then have "\<exists>m d. connect (Some [109]) None \<lparr>ca_connected = True, ca_first_index = True, ca_second_index = True\<rparr> (new_db_module [])
      = (Inr d, m)"
    by (simp add: connect_def new_db_module_def createIndexes_def Let_def)
  moreover have "\<exists>k. fst (loadKey (Some (to_base64 (replicate 32 1))) None) = Inr k"
  proof -
    have "js_trim (to_base64 (replicate 32 1)) = to_base64 (replicate 32 1)" "to_base64 (replicate 32 (1::byte)) \<noteq> []"
      by code_simp+
    then show ?thesis by (simp add: loadKey_def from_to_base64 KEY_BYTES_def Let_def)
  qed
  ultimately show ?thesis
    unfolding sample_backend_def
    by (auto simp: start_def sample_settings_def sample_answers_def feed_cap_def env_number_def Let_def load_def)
qed

theorem fresh_backend_serves_room_witness:
  "read_feed (from_utf8 (concat (bc_chunks (fst (payload 0 0 (sy_store (be_feed sample_backend))))))) = Some []"
proof -
  obtain steps where b: "start storing_df plain_gcm sample_settings sample_answers (new_db_module []) = (steps, Inr sample_backend)"
    using sample_start by blast
  have "feed_cap (st_FEED_MAX_ENTRIES sample_settings) = Some 60000"
    by (simp add: feed_cap_def sample_settings_def env_number_def DEFAULT_MAX_ENTRIES_def)
  from fresh_backend_serves_room[OF b this _ _ prod.collapse[symmetric], of 0 "[]"]
  show ?thesis by (auto simp: sample_answers_def newest_first_def newest_def)
qed

text \<open>
  A negative pipeline answers nobody. \<open>WRITE_PIPELINE\<close> set to a negative number is taken as it
  is, not replaced by the default; from then on, whatever is inserted and however the queue
  runs, no bulk write is ever issued and no insert is ever answered.
\<close>

theorem negative_pipeline_answers_nobody:
  assumes "start df g env a dbm = (steps, Inr b)" and "env_number (st_WRITE_PIPELINE env) = Some (Num r)" "r < 0"
    and "wq_step\<^sup>*\<^sup>* (be_queue b) m"
  shows "wm_bulks m = [] \<and> wm_settled m = [] \<and> length (wq_pending (wm_q m)) = wm_next m"
proof -
  have "be_queue b = wq_start 1000 \<lceil>r\<rceil>" and "\<lceil>r\<rceil> \<le> 0"
    using assms(1-3) by (auto simp: start_def Let_def pipeline_limit_def ceiling_le_iff split: sum.splits prod.splits if_splits option.splits)
  then have "stalled (be_queue b)" by (simp add: stalled_def wq_start_def new_WriteQueue_def)
  with assms(4) have "stalled m" by (induction rule: rtranclp_induct) (auto intro: stalled_step)
  then show ?thesis by (simp add: stalled_def)
qed

theorem negative_pipeline_answers_nobody_witness:
  "wm_settled (insert_doc (sample_doc 1) (be_queue sample_backend)) = []"
proof -
  obtain steps where b: "start storing_df plain_gcm sample_settings sample_answers (new_db_module []) = (steps, Inr sample_backend)"
    using sample_start by blast
  have "env_number (st_WRITE_PIPELINE sample_settings) = Some (Num (- 1))"
    by (simp add: sample_settings_def env_number_def to_number_def js_trim_def is_js_space_def unsigned_decimal_def Let_def
        of_char_Char is_digit_def digits_val_def pow10_def)
  moreover have "wq_step\<^sup>*\<^sup>* (be_queue sample_backend) (insert_doc (sample_doc 1) (be_queue sample_backend))"
    by (rule r_into_rtranclp) (rule wq_step.insert_call)
  ultimately show ?thesis using negative_pipeline_answers_nobody[OF b] by fastforce
qed

text \<open>
  C38: Shutdown ends the synchronisation. After \<open>shutdown\<close> of a started backend, whatever callbacks
  still run (stream errors, timers, a resync or a reconciliation that was under way), the feed
  opens no stream any more; the process ends with status 0 even if the database connection
  cannot be closed, and otherwise the module holds no connection.
\<close>

theorem shutdown_opens_nothing:
  assumes "shutdown db_closes (Some b) m = (steps, Some b', m')"
    and "s = run_events (sync_apply df g key) (be_feed b') es"
  shows "sy_opened s = sy_opened (be_feed b) \<and> sy_closed s \<and> last steps = Exit 0
    \<and> (if db_closes then getDb m' = (if dm_client m = None then getDb m else Inl NotConnected) \<and> DatabaseClosed \<in> set steps
       else (dm_client m = None \<longleftrightarrow> ShutdownError \<notin> set steps))"
proof -
  have b': "be_feed b' = close_sync (be_feed b)" using assms(1) by (auto simp: shutdown_def Let_def case_prod_beta')
  have "list_all (\<lambda>e. True) es" by (induction es) auto
  moreover have "closed_with (sy_opened (be_feed b)) (be_feed b')" by (simp add: b' closed_with_def close_sync_def)
  ultimately have "closed_with (sy_opened (be_feed b)) s" unfolding assms(2) by (intro closed.inv_run)
  then show ?thesis using assms(1)
    by (auto simp: closed_with_def shutdown_def Let_def case_prod_beta' close_db_def getDb_def split: option.splits if_splits)
qed

theorem shutdown_opens_nothing_witness:
  "sy_opened (run_events (sync_apply storing_df plain_gcm [])
     (be_feed (the (fst (snd (shutdown True (Some sample_backend) (be_db sample_backend)))))) [SError True, STimer 0 True, SResync True])
   = sy_opened (be_feed sample_backend)"
proof -
  have "shutdown True (Some sample_backend) (be_db sample_backend) =
      (fst (shutdown True (Some sample_backend) (be_db sample_backend)),
       Some (the (fst (snd (shutdown True (Some sample_backend) (be_db sample_backend))))),
       snd (snd (shutdown True (Some sample_backend) (be_db sample_backend))))"
    by (simp add: shutdown_def Let_def case_prod_beta')
  from shutdown_opens_nothing[OF this refl] show ?thesis by blast
qed

end
