(* ===== verification/Migrate.thy ===== *)
theory Migrate
  imports Database
begin

text \<open>
  \<open>tools/migrate.js\<close>: the chat collections copied from one database to another in batches. What
  \<open>insertMany\<close> answers is an argument; \<open>insert_many\<close> is what MongoDB documents of an unordered insert
  under a unique key. Documents are of any type, with \<open>key\<close> their \<open>_id\<close>.
\<close>

section \<open>copyCollection\<close>

definition MIGRATED_COLLECTIONS :: "jsstr list" where
  "MIGRATED_COLLECTIONS = [js ''messages'', js ''senders'']"

definition BATCH :: nat where
  "BATCH = 500"

text \<open>The result of \<open>insertMany\<close>, or its exception: \<open>err.writeErrors\<close> with their codes and
  \<open>err.result.insertedCount\<close>, each of which an exception may lack.\<close>

datatype insert_answer = Inserted nat | Refused "int list option" "nat option"

datatype migrate_error = WriteFailed | CursorFailed | ConnectionFailed | Usage

record 'd copy_state =
  cp_read :: nat
  cp_written :: nat
  cp_skipped :: nat
  cp_batch :: "'d list"

definition copy_flush ::
  "('d list \<Rightarrow> 'db \<Rightarrow> insert_answer \<times> 'db) \<Rightarrow> 'd copy_state \<Rightarrow> 'db \<Rightarrow> (migrate_error + 'd copy_state) \<times> 'db" where
  "copy_flush insertMany c db =
     (if cp_batch c = [] then (Inr c, db)
      else (case insertMany (cp_batch c) db of
          (Inserted n, db') \<Rightarrow> (Inr (c\<lparr>cp_written := cp_written c + n, cp_batch := []\<rparr>), db')
        | (Refused codes result, db') \<Rightarrow>
            let writeErrors = (case codes of None \<Rightarrow> [] | Some cs \<Rightarrow> cs);
                duplicates = filter (\<lambda>code. code = 11000) writeErrors
            in if length duplicates \<noteq> length writeErrors then (Inl WriteFailed, db')
               else (Inr (c\<lparr>cp_written := cp_written c + (case result of None \<Rightarrow> 0 | Some n \<Rightarrow> n),
                            cp_skipped := cp_skipped c + length duplicates, cp_batch := []\<rparr>), db')))"

text \<open>The loop over the cursor; \<open>ended\<close> is whether the cursor reached its end, and not an error,
  after these documents.\<close>

fun copy_cursor ::
  "('d list \<Rightarrow> 'db \<Rightarrow> insert_answer \<times> 'db) \<Rightarrow> bool \<Rightarrow> 'd list \<Rightarrow> 'd copy_state \<Rightarrow> 'db
     \<Rightarrow> (migrate_error + 'd copy_state) \<times> 'db" where
  "copy_cursor insertMany ended [] c db = (if ended then copy_flush insertMany c db else (Inl CursorFailed, db))"
| "copy_cursor insertMany ended (document # rest) c db =
     (let c1 = c\<lparr>cp_read := cp_read c + 1, cp_batch := cp_batch c @ [document]\<rparr>
      in case (if BATCH \<le> length (cp_batch c1) then copy_flush insertMany c1 db else (Inr c1, db)) of
           (Inl e, db') \<Rightarrow> (Inl e, db')
         | (Inr c2, db') \<Rightarrow> copy_cursor insertMany ended rest c2 db')"

definition copyCollection ::
  "('d list \<Rightarrow> 'db \<Rightarrow> insert_answer \<times> 'db) \<Rightarrow> bool \<Rightarrow> 'd list \<Rightarrow> 'db \<Rightarrow> (migrate_error + 'd copy_state) \<times> 'db" where
  "copyCollection insertMany ended documents db =
     copy_cursor insertMany ended documents \<lparr>cp_read = 0, cp_written = 0, cp_skipped = 0, cp_batch = []\<rparr> db"

section \<open>main\<close>

text \<open>The lines that are printed, one per collection, and how the run ended.\<close>

type_synonym copied = "jsstr \<times> nat \<times> nat \<times> nat"

fun copy_collections ::
  "(jsstr \<Rightarrow> 'd list \<Rightarrow> 'db \<Rightarrow> insert_answer \<times> 'db) \<Rightarrow> (jsstr \<Rightarrow> 'd list) \<Rightarrow> jsstr list \<Rightarrow> 'db
     \<Rightarrow> copied list \<times> migrate_error option \<times> 'db" where
  "copy_collections insertMany source [] db = ([], None, db)"
| "copy_collections insertMany source (name # names) db =
     (case copyCollection (insertMany name) True (source name) db of
        (Inl e, db') \<Rightarrow> ([], Some e, db')
      | (Inr c, db') \<Rightarrow>
          let (lines, e, db'') = copy_collections insertMany source names db'
          in ((name, cp_read c, cp_written c, cp_skipped c) # lines, e, db''))"

definition migrate ::
  "(jsstr \<Rightarrow> 'd list \<Rightarrow> 'db \<Rightarrow> insert_answer \<times> 'db) \<Rightarrow> bool \<Rightarrow> jsstr list \<Rightarrow> (jsstr \<Rightarrow> 'd list) \<Rightarrow> 'db
     \<Rightarrow> copied list \<times> migrate_error option \<times> 'db" where
  "migrate insertMany hosts_up argv source db =
     (if length argv < 2 \<or> argv ! 0 = [] \<or> argv ! 1 = [] then ([], Some Usage, db)
      else if \<not> hosts_up then ([], Some ConnectionFailed, db)
      else copy_collections insertMany source MIGRATED_COLLECTIONS db)"

section \<open>An unordered insert under a unique key\<close>

text \<open>Each document of the batch is inserted unless its key is taken, which is a write error of its
  own; any error makes the whole call an exception that carries the count of the others.\<close>

definition fresh_documents :: "('d \<Rightarrow> 'k) \<Rightarrow> 'd list \<Rightarrow> 'd list \<Rightarrow> 'd list" where
  "fresh_documents key batch held = filter (\<lambda>d. key d \<notin> key ` set held) batch"

definition insert_many :: "('d \<Rightarrow> 'k) \<Rightarrow> 'd list \<Rightarrow> 'd list \<Rightarrow> insert_answer \<times> 'd list" where
  "insert_many key batch held =
     (let held' = foldl (\<lambda>t d. if key d \<in> key ` set t then t else t @ [d]) held batch;
          inserted = length held' - length held;
          refused = length batch - inserted
      in (if refused = 0 then Inserted inserted else Refused (Some (replicate refused 11000)) (Some inserted), held'))"

definition insert_many_into :: "('d \<Rightarrow> 'k) \<Rightarrow> jsstr \<Rightarrow> 'd list \<Rightarrow> (jsstr \<Rightarrow> 'd list) \<Rightarrow> insert_answer \<times> (jsstr \<Rightarrow> 'd list)" where
  "insert_many_into key name batch db = (let (a, held) = insert_many key batch (db name) in (a, db(name := held)))"

section \<open>Facts\<close>

lemma fresh_documents_simps [simp]:
  "fresh_documents key [] held = []"
  "fresh_documents key (xs @ ys) held = fresh_documents key xs held @ fresh_documents key ys held"
  by (simp_all add: fresh_documents_def)

lemma length_fresh: "length (fresh_documents key batch held) \<le> length batch"
  by (simp add: fresh_documents_def)

lemma fresh_after:
  "distinct (map key (batch @ rest)) \<Longrightarrow>
   fresh_documents key rest (held @ fresh_documents key batch held) = fresh_documents key rest held"
  by (auto simp: fresh_documents_def intro!: filter_cong)

lemma fresh_again: "fresh_documents key batch (held @ fresh_documents key batch held) = []"
  by (auto simp: fresh_documents_def filter_empty_conv)

lemma insert_each:
  "distinct (map key batch) \<Longrightarrow>
   foldl (\<lambda>t d. if key d \<in> key ` set t then t else t @ [d]) held batch = held @ fresh_documents key batch held"
proof (induction batch rule: rev_induct)
  case (snoc d batch)
  have "key d \<in> key ` set (held @ fresh_documents key batch held) \<longleftrightarrow> key d \<in> key ` set held"
    using snoc.prems by (auto simp: fresh_documents_def)
  then show ?case using snoc by (simp add: fresh_documents_def)
qed simp

lemma insert_many_distinct:
  assumes "distinct (map key batch)"
  shows "insert_many key batch held =
     (let new = length (fresh_documents key batch held)
      in if length batch - new = 0 then Inserted new
         else Refused (Some (replicate (length batch - new) 11000)) (Some new), held @ fresh_documents key batch held)"
  by (simp add: insert_many_def insert_each[OF assms] Let_def)

lemma insert_many_into_distinct:
  assumes "distinct (map key batch)"
  shows "insert_many_into key name batch db = (fst (insert_many key batch (db name)),
    db(name := db name @ fresh_documents key batch (db name)))"
  by (simp add: insert_many_into_def insert_many_distinct[OF assms] Let_def)

lemma copy_flush_into:
  assumes "distinct (map key (cp_batch c))" and new: "new = fresh_documents key (cp_batch c) (db name)"
  shows "copy_flush (insert_many_into key name) c db =
    (Inr (c\<lparr>cp_written := cp_written c + length new, cp_skipped := cp_skipped c + (length (cp_batch c) - length new),
            cp_batch := []\<rparr>), db(name := db name @ new))"
  using insert_many_into_distinct[OF assms(1), of name db] insert_many_distinct[OF assms(1), of "db name"]
    length_fresh[of key "cp_batch c" "db name"] new
  by (simp add: copy_flush_def Let_def)

text \<open>Where the batches are cut makes no difference.\<close>

lemma copy_cursor_into:
  assumes "distinct (map key (cp_batch c @ documents))"
    and new: "new = fresh_documents key (cp_batch c @ documents) (db name)"
  shows "copy_cursor (insert_many_into key name) True documents c db =
    (Inr \<lparr>cp_read = cp_read c + length documents, cp_written = cp_written c + length new,
       cp_skipped = cp_skipped c + (length (cp_batch c @ documents) - length new), cp_batch = []\<rparr>,
     db(name := db name @ new))"
  using assms
proof (induction documents arbitrary: c db new)
  case Nil
  then show ?case by (simp add: copy_flush_into fun_upd_def)
next
  case (Cons d ds)
  define c1 where "c1 = c\<lparr>cp_read := Suc (cp_read c), cp_batch := cp_batch c @ [d]\<rparr>"
  have c1: "cp_read c1 = Suc (cp_read c)" "cp_written c1 = cp_written c" "cp_skipped c1 = cp_skipped c"
    "cp_batch c1 = cp_batch c @ [d]" by (simp_all add: c1_def)
  have dist: "distinct (map key (cp_batch c1 @ ds))" using Cons.prems(1) c1 by simp
  show ?case
  proof (cases "BATCH \<le> length (cp_batch c1)")
    case False
    then show ?thesis using Cons.IH[OF dist refl] Cons.prems(2) c1 by (simp add: c1_def[symmetric] Let_def)
  next
    case True
    define b where "b = fresh_documents key (cp_batch c1) (db name)"
    define c2 where "c2 = c1\<lparr>cp_written := cp_written c1 + length b, cp_skipped := cp_skipped c1 + (length (cp_batch c1) - length b),
      cp_batch := []\<rparr>"
    have flush: "copy_flush (insert_many_into key name) c1 db = (Inr c2, db(name := db name @ b))"
      unfolding c2_def using dist b_def by (intro copy_flush_into) simp_all
    have rest: "fresh_documents key ds (db name @ b) = fresh_documents key ds (db name)"
      unfolding b_def using fresh_after[OF dist] by simp
    have c2: "cp_read c2 = Suc (cp_read c)" "cp_written c2 = cp_written c + length b" "cp_batch c2 = []"
      "cp_skipped c2 = cp_skipped c + (Suc (length (cp_batch c)) - length b)" by (simp_all add: c2_def c1)
    have "distinct (map key (cp_batch c2 @ ds))" using dist c2 by simp
    note IH = Cons.IH[OF this refl, of "db(name := db name @ b)"]
    have "new = b @ fresh_documents key ds (db name)"
      using Cons.prems(2) fresh_documents_simps(2)[of key "cp_batch c1" ds "db name"] c1 by (simp add: b_def)
    moreover have "length b \<le> length (cp_batch c1)" "length (fresh_documents key ds (db name)) \<le> length ds"
      by (simp_all add: b_def length_fresh)
    ultimately show ?thesis using IH True flush rest c1 c2
      by (simp add: c1_def[symmetric] Let_def fun_upd_def fun_eq_iff add.assoc)
  qed
qed

lemma copyCollection_into:
  assumes "distinct (map key documents)" and "new = fresh_documents key documents (db name)"
  shows "copyCollection (insert_many_into key name) True documents db =
    (Inr \<lparr>cp_read = length documents, cp_written = length new, cp_skipped = length documents - length new, cp_batch = []\<rparr>,
     db(name := db name @ new))"
  using copy_cursor_into[of key "\<lparr>cp_read = 0, cp_written = 0, cp_skipped = 0, cp_batch = []\<rparr>" documents new db name] assms
  by (simp add: copyCollection_def)

section \<open>Properties\<close>

text \<open>
  C31: The migration copies what is missing, and can be repeated. When the target answers as an
  unordered insert under a unique \<open>_id\<close>, a migration ends without an error; each collection then
  holds what it held, followed by the documents of the source that were not there; the printed
  numbers are those of the documents; and a second migration inserts nothing.
\<close>

theorem migration_is_idempotent:
  assumes source: "\<forall>name \<in> set MIGRATED_COLLECTIONS. distinct (map key (source name))"
    and argv: "length argv = 2" "argv ! 0 \<noteq> []" "argv ! 1 \<noteq> []"
    and moved: "moved = (\<lambda>name. if name \<in> set MIGRATED_COLLECTIONS
        then target name @ fresh_documents key (source name) (target name) else target name)"
  shows "migrate (insert_many_into key) True argv source target =
      (map (\<lambda>name. let n = length (source name); new = length (fresh_documents key (source name) (target name))
            in (name, n, new, n - new)) MIGRATED_COLLECTIONS, None, moved)
    \<and> migrate (insert_many_into key) True argv source moved =
      (map (\<lambda>name. (name, length (source name), 0, length (source name))) MIGRATED_COLLECTIONS, None, moved)
    \<and> (\<forall>name \<in> set MIGRATED_COLLECTIONS. key ` set (moved name) = key ` set (target name) \<union> key ` set (source name))"
proof -
  let ?m = "js ''messages''" and ?s = "js ''senders''"
  have ne: "?m \<noteq> ?s" by (simp add: of_char_Char)
  have d: "distinct (map key (source ?m))" "distinct (map key (source ?s))"
    using source by (simp_all add: MIGRATED_COLLECTIONS_def del: js_Cons)
  note copy = copyCollection_into[OF d(1) refl] copyCollection_into[OF d(2) refl]
  have run: "migrate (insert_many_into key) True argv source t =
      (map (\<lambda>name. let n = length (source name); new = length (fresh_documents key (source name) (t name))
            in (name, n, new, n - new)) MIGRATED_COLLECTIONS, None,
       (\<lambda>name. if name \<in> set MIGRATED_COLLECTIONS then t name @ fresh_documents key (source name) (t name) else t name))" for t
    using argv ne by (simp add: migrate_def MIGRATED_COLLECTIONS_def copy fun_eq_iff Let_def del: js_Cons)
  have "fresh_documents key (source name) (moved name) = []" if "name \<in> set MIGRATED_COLLECTIONS" for name
    using that by (simp add: moved fresh_again)
  then have "migrate (insert_many_into key) True argv source moved =
      (map (\<lambda>name. (name, length (source name), 0, length (source name))) MIGRATED_COLLECTIONS, None, moved)"
    unfolding run by (auto simp: Let_def fun_eq_iff)
  moreover have "key ` set (moved name) = key ` set (target name) \<union> key ` set (source name)"
    if "name \<in> set MIGRATED_COLLECTIONS" for name
    using that by (auto simp: moved fresh_documents_def)
  ultimately show ?thesis unfolding run moved by auto
qed

theorem migration_is_idempotent_witness:
  "fst (migrate (insert_many_into (\<lambda>d :: nat. d)) True [[65], [66]] (\<lambda>name. [1, 2, 3]) (\<lambda>name. [2]))
    = [(js ''messages'', 3, 2, 1), (js ''senders'', 3, 2, 1)]"
  using migration_is_idempotent[of "\<lambda>d :: nat. d" "\<lambda>name. [1, 2, 3]" "[[65], [66]]" _ "\<lambda>name. [2]", OF _ _ _ _ refl]
  by (simp add: MIGRATED_COLLECTIONS_def fresh_documents_def del: js_Cons)

lemma copy_cursor_lost:
  "\<exists>c'. copy_cursor (\<lambda>batch db. (Refused None None, db)) True documents c db = (Inr c', db)
     \<and> cp_read c' = cp_read c + length documents \<and> cp_written c' = cp_written c \<and> cp_skipped c' = cp_skipped c"
proof (induction documents arbitrary: c)
  case (Cons d ds)
  from Cons.IH[of "c\<lparr>cp_read := Suc (cp_read c), cp_batch := []\<rparr>"]
    Cons.IH[of "c\<lparr>cp_read := Suc (cp_read c), cp_batch := cp_batch c @ [d]\<rparr>"]
  show ?case by (simp add: copy_flush_def Let_def)
qed (simp add: copy_flush_def)

text \<open>
  A lost batch is not noticed. An exception of \<open>insertMany\<close> that carries no write errors, as when
  the connection to the target is lost, counts as an exception with nothing but duplicates: a
  migration of which every insert fails that way copies nothing and ends without an error, and
  its lines say that everything was read, nothing inserted and nothing already present.
\<close>

theorem lost_batches_unnoticed:
  assumes "length argv = 2" "argv ! 0 \<noteq> []" "argv ! 1 \<noteq> []"
    and lost: "insertMany = (\<lambda>name batch db. (Refused None None, db))"
  shows "migrate insertMany True argv source target =
    (map (\<lambda>name. (name, length (source name), 0, 0)) MIGRATED_COLLECTIONS, None, target)"
proof -
  have "\<exists>c. copyCollection (insertMany name) True documents target = (Inr c, target)
      \<and> cp_read c = length documents \<and> cp_written c = 0 \<and> cp_skipped c = 0" for name documents
    using copy_cursor_lost[of documents "\<lparr>cp_read = 0, cp_written = 0, cp_skipped = 0, cp_batch = []\<rparr>" target]
    by (simp add: copyCollection_def lost)
  note copied = this
  have "copy_collections insertMany source names target =
      (map (\<lambda>name. (name, length (source name), 0, 0)) names, None, target)" for names
  proof (induction names)
    case (Cons name names)
    obtain c where "copyCollection (insertMany name) True (source name) target = (Inr c, target)"
      "cp_read c = length (source name)" "cp_written c = 0" "cp_skipped c = 0" using copied by blast
    then show ?case using Cons.IH by simp
  qed simp
  then show ?thesis using assms(1-3) by (simp add: migrate_def)
qed

theorem lost_batches_unnoticed_witness:
  "migrate (\<lambda>name batch db. (Refused None None, db)) True [[65], [66]] (\<lambda>name. [1, 2, 3 :: nat]) (\<lambda>name. [])
    = ([(js ''messages'', 3, 0, 0), (js ''senders'', 3, 0, 0)], None, (\<lambda>name :: jsstr. [] :: nat list))"
  using lost_batches_unnoticed[of "[[65], [66]]", OF _ _ _ refl, of "\<lambda>name. [1, 2, 3 :: nat]" "\<lambda>name :: jsstr. [] :: nat list"]
  by (simp add: MIGRATED_COLLECTIONS_def del: js_Cons)

end
