(* ===== verification/ChatLoad.thy ===== *)
theory ChatLoad
  imports Chat_Runs Js_Numbers
begin

text \<open>
  \<open>assignment1/chatload_main.js\<close>, the load generator of the chat workload: its flags, one session as
  a machine of the socket's events, the pool of workers that pull sessions off a shared counter, and
  the figures it reports. Socket.IO's client and WebCrypto's signing are outside: what they
  report are the events. Times are in milliseconds, as rationals.
\<close>

section \<open>parseArgs\<close>

text \<open>A string flag that is the last word of the command line has no value and becomes undefined.\<close>

record load_args =
  la_url :: "jsstr option"
  la_requests :: numeric
  la_concurrency :: numeric
  la_timeout :: numeric
  la_experiment :: "jsstr option"
  la_out :: "jsstr option"
  la_csv :: "jsstr option"

datatype args_error = UnknownFlag jsstr | NeedUrl

definition default_args :: load_args where
  "default_args = \<lparr>la_url = Some [], la_requests = Num 600, la_concurrency = Num 30, la_timeout = Num 30000,
     la_experiment = Some (js ''run''), la_out = Some [], la_csv = Some []\<rparr>"

text \<open>\<open>Number(undefined)\<close> is \<open>NaN\<close>.\<close>

definition number_of :: "jsstr option \<Rightarrow> numeric" where
  "number_of v = (case v of None \<Rightarrow> NaN | Some t \<Rightarrow> to_number t)"

text \<open>\<open>key in args\<close> also finds what every object inherits; setting such a member changes none that
  is read.\<close>

definition inherited_members :: "jsstr list" where
  "inherited_members = [js ''constructor'', js ''toString'', js ''toLocaleString'', js ''valueOf'', js ''hasOwnProperty'',
     js ''isPrototypeOf'', js ''propertyIsEnumerable'', js ''__proto__'', js ''__defineGetter__'', js ''__defineSetter__'',
     js ''__lookupGetter__'', js ''__lookupSetter__'']"

definition set_flag :: "jsstr \<Rightarrow> jsstr option \<Rightarrow> load_args \<Rightarrow> args_error + load_args" where
  "set_flag word v args =
     (let key = dropWhile (\<lambda>c. c = 45) word
      in if key = js ''url'' then Inr (args\<lparr>la_url := v\<rparr>)
         else if key = js ''requests'' then Inr (args\<lparr>la_requests := number_of v\<rparr>)
         else if key = js ''concurrency'' then Inr (args\<lparr>la_concurrency := number_of v\<rparr>)
         else if key = js ''timeout'' then Inr (args\<lparr>la_timeout := number_of v\<rparr>)
         else if key = js ''experiment'' then Inr (args\<lparr>la_experiment := v\<rparr>)
         else if key = js ''out'' then Inr (args\<lparr>la_out := v\<rparr>)
         else if key = js ''csv'' then Inr (args\<lparr>la_csv := v\<rparr>)
         else if key \<in> set inherited_members then Inr args
         else Inl (UnknownFlag word))"

fun parse_flags :: "jsstr list \<Rightarrow> load_args \<Rightarrow> args_error + load_args" where
  "parse_flags [] args = Inr args"
| "parse_flags [word] args = set_flag word None args"
| "parse_flags (word # v # rest) args =
     (case set_flag word (Some v) args of Inl e \<Rightarrow> Inl e | Inr args' \<Rightarrow> parse_flags rest args')"

definition parseArgs :: "jsstr list \<Rightarrow> args_error + load_args" where
  "parseArgs argv =
     (case parse_flags argv default_args of
        Inl e \<Rightarrow> Inl e
      | Inr args \<Rightarrow> if la_url args = None \<or> la_url args = Some [] then Inl NeedUrl else Inr args)"

section \<open>percentile\<close>

definition percentile :: "rat list \<Rightarrow> nat \<Rightarrow> rat" where
  "percentile ts p =
     (if ts = [] then 0
      else let i = nat \<lfloor>of_nat p / 100 * of_nat (length ts) :: rat\<rfloor>;
               j = (if length ts \<le> i then length ts - 1 else i)
           in round_to (ts ! j) 3)"

section \<open>runSession\<close>

datatype session_end = Opened rat | Failed jsstr

datatype client_message = AuthStart jsval | AuthResponse jsval

text \<open>\<open>se_now\<close> is the time since the session began; a message that is emitted on a closed socket goes
  nowhere.\<close>

record session =
  se_settled :: "session_end option"
  se_closed :: bool
  se_sent :: "client_message list"

definition new_session :: session where
  "new_session = \<lparr>se_settled = None, se_closed = False, se_sent = []\<rparr>"

definition finish_session :: "session_end \<Rightarrow> session \<Rightarrow> session" where
  "finish_session r s = (if se_settled s \<noteq> None then s else s\<lparr>se_settled := Some r, se_closed := True\<rparr>)"

definition send :: "client_message \<Rightarrow> session \<Rightarrow> session" where
  "send m s = (if se_closed s then s else s\<lparr>se_sent := se_sent s @ [m]\<rparr>)"

definition auth_start_payload :: "jsstr \<Rightarrow> jsstr \<Rightarrow> jsval" where
  "auth_start_payload username publicKey =
     Object [(js ''username'', String username), (js ''publicKey'', String publicKey)]"

definition auth_response_payload :: "jsstr \<Rightarrow> jsval" where
  "auth_response_payload signature = Object [(js ''signature'', String signature)]"

text \<open>The events of the socket and of the timer. A challenge is answered when the signing is through;
  the handlers of a closed socket are not called any more.\<close>

datatype session_event =
    Connected
  | ConnectError jsstr
  | Refused jsstr
  | Signed "jsstr + jsstr"
  | HistoryCame rat
  | TimedOut

fun session_apply :: "jsstr \<Rightarrow> jsstr \<Rightarrow> session \<Rightarrow> session_event \<Rightarrow> session" where
  "session_apply username pk s Connected = send (AuthStart (auth_start_payload username pk)) s"
| "session_apply username pk s (ConnectError m) = finish_session (Failed (js ''connect: '' @ m)) s"
| "session_apply username pk s (Refused m) = finish_session (Failed (js ''join: '' @ m)) s"
| "session_apply username pk s (Signed (Inr sig)) = send (AuthResponse (auth_response_payload sig)) s"
| "session_apply username pk s (Signed (Inl m)) = finish_session (Failed m) s"
| "session_apply username pk s (HistoryCame elapsed) = finish_session (Opened elapsed) s"
| "session_apply username pk s TimedOut = finish_session (Failed (js ''timeout'')) s"

definition run_session :: "jsstr \<Rightarrow> jsstr \<Rightarrow> session_event list \<Rightarrow> session" where
  "run_session username pk es = run_events (session_apply username pk) new_session es"

text \<open>What the session's socket \<open>sid\<close> hears of what the server emits, and does about it; \<open>told\<close> is the
  message text of a refusal.\<close>

fun heard :: "(byte list \<Rightarrow> jsstr + jsstr) \<Rightarrow> (join_reason \<Rightarrow> jsstr) \<Rightarrow> rat \<Rightarrow> jsstr \<Rightarrow> emission \<Rightarrow> session_event list" where
  "heard sign told elapsed sid (ToSocket s (AuthChallenge c)) = (if s = sid then [Signed (sign (from_base64 c))] else [])"
| "heard sign told elapsed sid (ToSocket s (JoinError r)) = (if s = sid then [Refused (told r)] else [])"
| "heard sign told elapsed sid (ToSocket s (ChatHistory items)) = (if s = sid then [HistoryCame elapsed] else [])"
| "heard sign told elapsed sid e = []"

text \<open>\<open>lg-${stamp}-${n}\<close>; the stamp is at most five characters of \<open>Math.random().toString(36)\<close>.\<close>

definition session_name :: "jsstr \<Rightarrow> nat \<Rightarrow> jsstr" where
  "session_name stamp n = js ''lg-'' @ stamp @ [45] @ dec_digits n"

definition is_stamp :: "jsstr \<Rightarrow> bool" where
  "is_stamp stamp \<longleftrightarrow> length stamp \<le> 5 \<and> list_all (\<lambda>c. is_digit c \<or> 97 \<le> c \<and> c \<le> 122) stamp"

section \<open>The pool of workers\<close>

fun at_least :: "nat \<Rightarrow> numeric \<Rightarrow> bool" where
  "at_least n NaN = False"
| "at_least n PosInfinity = False"
| "at_least n NegInfinity = True"
| "at_least n (Num r) = (r \<le> of_nat n)"

record pool =
  po_issued :: nat
  po_active :: "nat list"
  po_returned :: nat
  po_success :: nat
  po_latencies :: "rat list"
  po_failures :: "(jsstr \<times> nat) list"

definition take_session :: "numeric \<Rightarrow> pool \<Rightarrow> pool" where
  "take_session requests p =
     (let n = po_issued p; p1 = p\<lparr>po_issued := Suc n\<rparr>
      in if at_least n requests then p1\<lparr>po_returned := Suc (po_returned p)\<rparr>
         else p1\<lparr>po_active := po_active p @ [n]\<rparr>)"

text \<open>\<open>Array.from({ length }, worker)\<close>; a length of \<open>2^32\<close> or more is a \<open>RangeError\<close>.\<close>

definition worker_count :: "numeric \<Rightarrow> nat option" where
  "worker_count n =
     (case n of
        NaN \<Rightarrow> Some 0 | NegInfinity \<Rightarrow> Some 0 | PosInfinity \<Rightarrow> None
      | Num r \<Rightarrow> if \<lfloor>r\<rfloor> < 2 ^ 32 then Some (nat \<lfloor>r\<rfloor>) else None)"

definition empty_pool :: pool where
  "empty_pool = \<lparr>po_issued = 0, po_active = [], po_returned = 0, po_success = 0, po_latencies = [], po_failures = []\<rparr>"

definition start_pool :: "numeric \<Rightarrow> nat \<Rightarrow> pool" where
  "start_pool requests workers = (take_session requests ^^ workers) empty_pool"

definition count_failure :: "jsstr \<Rightarrow> (jsstr \<times> nat) list \<Rightarrow> (jsstr \<times> nat) list" where
  "count_failure m fs = AList.update m ((case map_of fs m of None \<Rightarrow> 0 | Some k \<Rightarrow> k) + 1) fs"

text \<open>The \<open>i\<close>-th of the sessions under way settles, and its worker goes on.\<close>

definition settle_session :: "numeric \<Rightarrow> nat \<times> session_end \<Rightarrow> pool \<Rightarrow> pool" where
  "settle_session requests e p =
     (case e of (i, r) \<Rightarrow>
        if length (po_active p) \<le> i then p
        else
          let p1 = p\<lparr>po_active := take i (po_active p) @ drop (Suc i) (po_active p)\<rparr>
          in take_session requests
               (case r of
                  Opened t \<Rightarrow> p1\<lparr>po_success := Suc (po_success p), po_latencies := po_latencies p @ [t]\<rparr>
                | Failed m \<Rightarrow> p1\<lparr>po_failures := count_failure m (po_failures p)\<rparr>))"

definition run_pool :: "numeric \<Rightarrow> nat \<Rightarrow> (nat \<times> session_end) list \<Rightarrow> pool" where
  "run_pool requests workers es = run_events (\<lambda>p e. settle_session requests e p) (start_pool requests workers) es"

definition failed_total :: "pool \<Rightarrow> nat" where
  "failed_total p = sum_list (map snd (po_failures p))"

section \<open>The report\<close>

definition js_div :: "rat \<Rightarrow> rat \<Rightarrow> numeric" where
  "js_div a b = (if b \<noteq> 0 then Num (a / b) else if a = 0 then NaN else if 0 < a then PosInfinity else NegInfinity)"

definition rounded :: "numeric \<Rightarrow> numeric" where
  "rounded n = (case n of Num r \<Rightarrow> Num (of_int (js_round (r * 100)) / 100) | _ \<Rightarrow> n)"

record load_result =
  lr_successful :: nat
  lr_failed :: rat
  lr_throughput :: numeric
  lr_dropout :: numeric
  lr_p50 :: rat
  lr_p95 :: rat
  lr_p99 :: rat
  lr_elapsed :: rat

text \<open>For a finite number of requests; \<open>elapsed\<close> is in seconds.\<close>

definition load_result_of :: "rat \<Rightarrow> rat \<Rightarrow> pool \<Rightarrow> load_result" where
  "load_result_of requests elapsed p =
     (let failed = requests - of_nat (po_success p);
          latencies = sort (po_latencies p);
          percent = (case js_div failed requests of Num r \<Rightarrow> Num (of_int (js_round (r * 10000)) / 100) | n \<Rightarrow> n)
      in \<lparr>lr_successful = po_success p, lr_failed = failed,
          lr_throughput = rounded (js_div (of_nat (po_success p)) elapsed),
          lr_dropout = percent,
          lr_p50 = percentile latencies 50, lr_p95 = percentile latencies 95, lr_p99 = percentile latencies 99,
          lr_elapsed = round_to elapsed 3\<rparr>)"

section \<open>Facts\<close>

text \<open>Names of sessions are valid and differ.\<close>

lemma length_dec_digits: "n < 10 ^ k \<Longrightarrow> 0 < k \<Longrightarrow> length (dec_digits n) \<le> k"
proof (induction k arbitrary: n)
  case (Suc k)
  show ?case
  proof (cases "n < 10")
    case False
    then have "0 < k" "n div 10 < 10 ^ k" using Suc.prems by (cases k; simp add: less_mult_imp_div_less mult.commute)+
    then have "length (dec_digits (n div 10)) \<le> k" by (intro Suc.IH)
    then show ?thesis using False by (subst dec_digits.simps) simp
  qed (subst dec_digits.simps, simp)
qed simp

lemma dec_digits_inject: "dec_digits m = dec_digits n \<Longrightarrow> m = n"
  using digits_val_dec by metis

lemma session_name_valid:
  assumes "is_stamp stamp" "n < 10 ^ 11"
  shows "validateUsername (String (session_name stamp n)) = Inr (Inr (session_name stamp n))"
proof -
  have units: "username_unit c" if "is_digit c \<or> 97 \<le> c \<and> c \<le> 122" for c
    using that by (auto simp: username_unit_def is_digit_def)
  have d: "list_all username_unit (dec_digits n)" "list_all username_unit stamp"
    using dec_digits_all[of n] assms(1) units by (auto simp: is_stamp_def list_all_iff)
  have "length (dec_digits n) \<le> 11" by (rule length_dec_digits[OF assms(2)]) simp
  then have "matches_USERNAME_PATTERN (session_name stamp n)"
    using d assms(1) by (simp add: matches_USERNAME_PATTERN_def session_name_def is_stamp_def username_unit_def of_char_Char)
  moreover have "\<not> is_js_space (last (dec_digits n))"
    using dec_digits_all[of n] dec_digits_nonempty[of n] digit_not_space by (metis last_in_set list_all_iff)
  then have "js_trim (session_name stamp n) = session_name stamp n"
    by (simp add: js_trim_def session_name_def is_js_space_def of_char_Char dropWhile_id hd_rev rev_append[symmetric] del: rev_append)
  moreover have "session_name stamp n \<noteq> []" by (simp add: session_name_def)
  ultimately show ?thesis by (simp add: validateUsername_def string_or_empty_def absent_def)
qed

lemma lower_digits: "list_all is_digit ds \<Longrightarrow> to_lower ds = ds"
  by (induction ds) (auto simp: to_lower_def lower_unit_def is_digit_def word_le_nat_alt)

lemma session_names_differ:
  "to_lower (session_name stamp m) = to_lower (session_name stamp n) \<Longrightarrow> m = n"
  using lower_digits[OF dec_digits_all[of m]] lower_digits[OF dec_digits_all[of n]]
  by (auto simp: session_name_def to_lower_def dest: dec_digits_inject)

text \<open>What a pool of \<open>k\<close> workers keeps: every session that was issued below the limit is settled or
  under way, and a worker returns only when the limit is reached.\<close>

definition settled_total :: "pool \<Rightarrow> nat" where
  "settled_total p = po_success p + failed_total p"

definition pool_inv :: "nat \<Rightarrow> nat \<Rightarrow> pool \<Rightarrow> bool" where
  "pool_inv R k p \<longleftrightarrow> po_returned p + length (po_active p) = k
     \<and> settled_total p + length (po_active p) = min (po_issued p) R
     \<and> po_returned p = po_issued p - min (po_issued p) R
     \<and> length (po_latencies p) = po_success p"

lemma take_session_inv: "pool_inv R k p \<Longrightarrow> pool_inv R (Suc k) (take_session (Num (of_nat R)) p)"
  by (auto simp: pool_inv_def take_session_def settled_total_def failed_total_def Let_def)

lemma take_session_settled [simp]: "settled_total (take_session n q) = settled_total q"
  by (simp add: take_session_def settled_total_def failed_total_def Let_def)

lemma start_pool_settled [simp]: "settled_total (start_pool n k) = 0"
  by (induction k) (simp_all add: start_pool_def, simp add: empty_pool_def settled_total_def failed_total_def)

lemma start_pool_inv: "pool_inv R k (start_pool (Num (of_nat R)) k)"
  by (induction k) (auto simp: start_pool_def take_session_inv, simp add: pool_inv_def empty_pool_def settled_total_def failed_total_def)

lemma sum_update: "sum_list (map snd (AList.update m v fs)) + (case map_of fs m of None \<Rightarrow> 0 | Some k \<Rightarrow> k)
    = sum_list (map snd fs) + (v :: nat)"
  by (induction fs) (auto split: option.splits)

lemma count_failure_total: "sum_list (map snd (count_failure m fs)) = Suc (sum_list (map snd fs))"
  using sum_update[of m "(case map_of fs m of None \<Rightarrow> 0 | Some k \<Rightarrow> k) + 1" fs] by (simp add: count_failure_def)

lemma settle_session_inv:
  assumes inv: "pool_inv R k p" and i: "i < length (po_active p)"
  shows "pool_inv R k (settle_session (Num (of_nat R)) (i, r) p)
    \<and> settled_total (settle_session (Num (of_nat R)) (i, r) p) = Suc (settled_total p)"
proof -
  let ?p1 = "p\<lparr>po_active := take i (po_active p) @ drop (Suc i) (po_active p)\<rparr>"
  define q where "q = (case r of Opened t \<Rightarrow> ?p1\<lparr>po_success := Suc (po_success p), po_latencies := po_latencies p @ [t]\<rparr>
    | Failed m \<Rightarrow> ?p1\<lparr>po_failures := count_failure m (po_failures p)\<rparr>)"
  have len: "Suc (length (po_active q)) = length (po_active p)" using i by (cases r) (simp_all add: q_def)
  have q: "settled_total q = Suc (settled_total p)" "po_issued q = po_issued p" "po_returned q = po_returned p"
    "length (po_latencies q) = po_success q \<longleftrightarrow> length (po_latencies p) = po_success p"
    by (cases r; simp add: q_def settled_total_def failed_total_def count_failure_total)+
  have p: "po_returned p + length (po_active p) = k" "settled_total p + length (po_active p) = min (po_issued p) R"
    "po_returned p = po_issued p - min (po_issued p) R" "length (po_latencies p) = po_success p"
    using inv unfolding pool_inv_def by blast+
  have "po_returned q + length (po_active q) = k - 1" "settled_total q + length (po_active q) = min (po_issued q) R"
    using p(1,2) len q by linarith+
  then have "pool_inv R (k - 1) q" using p(3,4) q by (simp add: pool_inv_def)
  moreover have "0 < k" using inv i by (auto simp: pool_inv_def)
  ultimately have "pool_inv R k (take_session (Num (of_nat R)) q)" using take_session_inv[of R "k - 1" q] by simp
  moreover have "settle_session (Num (of_nat R)) (i, r) p = take_session (Num (of_nat R)) q"
    using i by (simp add: settle_session_def q_def Let_def)
  ultimately show ?thesis using q by simp
qed

text \<open>Each settlement is one of a session that is under way.\<close>

fun all_under_way :: "numeric \<Rightarrow> pool \<Rightarrow> (nat \<times> session_end) list \<Rightarrow> bool" where
  "all_under_way requests p [] = True"
| "all_under_way requests p (e # es) =
     (fst e < length (po_active p) \<and> all_under_way requests (settle_session requests e p) es)"

lemma run_pool_inv:
  "pool_inv R k p \<Longrightarrow> all_under_way (Num (of_nat R)) p es \<Longrightarrow>
   pool_inv R k (run_events (\<lambda>p e. settle_session (Num (of_nat R)) e p) p es)
   \<and> settled_total (run_events (\<lambda>p e. settle_session (Num (of_nat R)) e p) p es) = settled_total p + length es"
proof (induction es arbitrary: p)
  case (Cons e es)
  obtain i r where e: "e = (i, r)" by fastforce
  from settle_session_inv[OF Cons.prems(1), of i r] Cons.prems(2) Cons.IH[of "settle_session (Num (of_nat R)) e p"]
  show ?case by (simp add: e)
qed simp

section \<open>Properties\<close>



lemma unbounded_pool:
  assumes "\<And>n. \<not> at_least n requests"
  shows "length (po_active (start_pool requests k)) = k"
    and "length (po_active (settle_session requests e p)) = length (po_active p)"
proof -
  show "length (po_active (start_pool requests k)) = k"
    using assms by (induction k) (simp_all add: start_pool_def empty_pool_def take_session_def Let_def)
  show "length (po_active (settle_session requests e p)) = length (po_active p)"
    using assms by (cases e) (auto simp: settle_session_def take_session_def Let_def split: session_end.split)
qed

interpretation unbounded: event_invariant "\<lambda>p e. settle_session requests e p" "\<lambda>e. \<forall>n. \<not> at_least n requests"
    "\<lambda>p. length (po_active p) = k" for requests k
  by unfold_locales (metis unbounded_pool(2))

text \<open>
  A number of requests that is no number never ends. \<open>-requests\<close> with a value that \<open>Number\<close> does not
  read gives \<open>NaN\<close>, which no counter reaches: all thirty workers go on opening sessions, however
  many have settled.
\<close>

theorem unreadable_count_never_ends:
  assumes "to_number t = NaN" "u \<noteq> []"
  shows "\<exists>args. parseArgs [js ''-url'', u, js ''-requests'', t] = Inr args
    \<and> worker_count (la_concurrency args) = Some 30
    \<and> (\<forall>es. length (po_active (run_pool (la_requests args) 30 es)) = 30)"
proof -
  let ?args = "default_args\<lparr>la_url := Some u, la_requests := NaN\<rparr>"
  have flags: "dropWhile (\<lambda>c. c = 45) (js ''-url'') = js ''url''" "dropWhile (\<lambda>c. c = 45) (js ''-requests'') = js ''requests''"
    "js ''requests'' \<noteq> js ''url''" by (simp_all add: of_char_Char)
  have "parseArgs [js ''-url'', u, js ''-requests'', t] = Inr ?args"
    using assms by (simp add: parseArgs_def set_flag_def flags number_of_def del: js_Cons)
  moreover have "worker_count (la_concurrency ?args) = Some 30" by (simp add: default_args_def worker_count_def)
  moreover have "length (po_active (run_pool (la_requests ?args) 30 es)) = 30" for es
  proof -
    have "\<forall>n. \<not> at_least n NaN" by simp
    then have "list_all (\<lambda>e. \<forall>n. \<not> at_least n NaN) es" by (induction es) simp_all
    moreover have "length (po_active (start_pool NaN 30)) = 30" by (rule unbounded_pool(1)) simp
    ultimately show ?thesis unfolding run_pool_def by (simp add: unbounded.inv_run)
  qed
  ultimately show ?thesis by blast
qed

theorem unreadable_count_never_ends_witness:
  "\<exists>args. parseArgs [js ''-url'', [104], js ''-requests'', [120]] = Inr args
    \<and> po_active (run_pool (la_requests args) 30 [(0, Opened 1), (3, Opened 1)]) \<noteq> []"
proof -
  have "to_number [120] = NaN"
    by (simp add: to_number_def js_trim_def is_js_space_def unsigned_decimal_def Let_def is_digit_def of_char_Char)
  from unreadable_count_never_ends[OF this, of "[104]"] show ?thesis
    by (metis length_0_conv list.discI zero_neq_numeral)
qed

text \<open>
  A session opens. Against a server on which its name is free and not bound to another key, and
  with a signer whose signatures verify, a load session that connects sends the login that the
  server's script reads, answers the challenge, and settles as opened when the history comes; it
  has then closed its socket, and whatever the timer or the socket report later changes nothing.
\<close>

theorem load_session_opens:
  assumes stamp: "is_stamp stamp" "n < 10 ^ 11" and u: "u = session_name stamp n"
    and server: "\<not> logged_in sid s" "\<not> isUsernameTaken u (ch_presence s)" "\<And>e. existing = Some e \<Longrightarrow> s_publicKey e = pk"
    and key: "pk \<noteq> []" "sign (from_base64 (createChallenge random)) = Inr sig"
      "verifyBytes ec (from_base64 (createChallenge random)) sig pk" "ended \<le> began + CHALLENGE_TTL_MS"
    and s': "s' = run_events (chat_apply ec g key) s (login_script (length (ch_waiting s)) sid
        (auth_start_payload u pk) existing random (auth_response_payload sig) items began ended)"
    and told: "told = concat (map (heard sign reason elapsed sid) (drop (length (ch_out s)) (ch_out s')))"
  shows "run_session u pk (Connected # told @ later) = \<lparr>se_settled = Some (Opened elapsed), se_closed = True,
      se_sent = [AuthStart (auth_start_payload u pk), AuthResponse (auth_response_payload sig)]\<rparr>
    \<and> sd_username (ch_sockets s' sid) = Some u"
proof -
  have hello: "is_object (auth_start_payload u pk)"
    "validateUsername (get_field (auth_start_payload u pk) (js ''username'')) = Inr (Inr u)"
    "string_field (auth_start_payload u pk) (js ''publicKey'') = Some pk"
    and evidence: "string_field (auth_response_payload sig) (js ''signature'') = Some sig"
    using session_name_valid[OF stamp] talk_fields(1-4)
    by (simp_all add: u auth_start_payload_def auth_response_payload_def hello_of_def evidence_of_def del: js_Cons)
  have run: "s' = after_login sid u pk random items ended s"
    unfolding s' by (rule login_script_run[OF server(1) hello key(1) server(3) evidence key(3,4) server(2)])
  have "told = [Signed (Inr sig), HistoryCame elapsed]" using key(2) by (simp add: told run after_login_def)
  moreover have "run_events (session_apply u pk) t later = t" if "se_settled t = Some r" "se_closed t" for t r
    using that
  proof (induction later)
    case (Cons e es)
    moreover have "session_apply u pk t e = t"
      using Cons.prems by (induction u pk t e rule: session_apply.induct) (simp_all add: send_def finish_session_def)
    ultimately show ?case by simp
  qed simp
  ultimately show ?thesis
    by (simp add: run_session_def new_session_def send_def finish_session_def run_events_append)
      (simp add: run after_login_def)
qed

theorem load_session_opens_witness:
  "se_settled (run_session (session_name [97] 7) key1 [Connected, Signed (Inr key1), HistoryCame 12, TimedOut]) = Some (Opened 12)"
proof -
  let ?u = "session_name [97] 7"
  let ?s' = "run_events (chat_apply echo_ecdsa plain_gcm []) new_chat (login_script (length (ch_waiting new_chat)) [1]
    (auth_start_payload ?u key1) None [5] (auth_response_payload key1) [] 1000 1500)"
  have stamp: "is_stamp [97]" "(7 :: nat) < 10 ^ 11" by (simp_all add: is_stamp_def)
  have none: "\<And>e. None = Some e \<Longrightarrow> s_publicKey e = key1" by simp
  have ttl: "1500 \<le> 1000 + CHALLENGE_TTL_MS" by (simp add: CHALLENGE_TTL_MS_def)
  have free: "\<not> logged_in [1] new_chat" "\<not> isUsernameTaken ?u (ch_presence new_chat)" by simp_all
  note opens = load_session_opens[OF stamp refl free none _ _ echo_verifies(1) ttl refl refl,
      where sign = "\<lambda>b. Inr key1" and reason = "\<lambda>r. []" and elapsed = 12 and later = "[TimedOut]" and existing = None and random = "[5]"
        and items = "[]" and g = plain_gcm and key = "[]"]
  have hello: "is_object (auth_start_payload ?u key1)"
    "validateUsername (get_field (auth_start_payload ?u key1) (js ''username'')) = Inr (Inr ?u)"
    "string_field (auth_start_payload ?u key1) (js ''publicKey'') = Some key1"
    and evidence: "string_field (auth_response_payload key1) (js ''signature'') = Some key1"
    using session_name_valid[OF stamp] talk_fields(1-4)
    by (simp_all add: auth_start_payload_def auth_response_payload_def hello_of_def evidence_of_def del: js_Cons)
  have "?s' = after_login [1] ?u key1 [5] [] 1500 new_chat"
    by (rule login_script_run[OF free(1) hello _ none evidence echo_verifies(1) ttl free(2)]) simp
  then have "concat (map (heard (\<lambda>b. Inr key1) (\<lambda>r. []) 12 [1]) (drop (length (ch_out new_chat)) (ch_out ?s')))
      = [Signed (Inr key1), HistoryCame 12]" by (simp add: after_login_def)
  with opens show ?thesis by simp
qed

end
