(* ===== verification/Seed.thy ===== *)
theory Seed
  imports Chat_Runs Database
begin

text \<open>
  \<open>seed_history.js\<close>: the backlog that is written before an experiment, so that every login has a full
  history to decrypt and verify. The script writes its rows with the server's own functions; the
  key pair is WebCrypto's and is given by what it exports and how it signs, and the clock, the
  randomness and the ids are arguments of each row.
\<close>

section \<open>The conversation\<close>

definition CHAT :: "(jsstr \<times> jsstr) list" where
  "CHAT =
    [(js ''aarav'', js ''anyone started the load balancer lab yet''),
     (js ''priya'', js ''started last night, my sys1 container kept dying''),
     (js ''rohit'', js ''mine too, the 512 mb limit is tight''),
     (js ''aarav'', js ''what did you do about it''),
     (js ''priya'', js ''capped the wiredtiger cache at 0.25 gb''),
     (js ''rohit'', js ''that fixed it for me as well''),
     (js ''sneha'', js ''which port are you all using for the lb''),
     (js ''aarav'', js ''3000 inside, it shows up as 32nn outside''),
     (js ''karan'', js ''took me an hour to work that rule out''),
     (js ''sneha'', js ''same, i was trying 8080 and nothing came through''),
     (js ''priya'', js ''the ppt says it on slide 6''),
     (js ''karan'', js ''of course it does''),
     (js ''rohit'', js ''is anyone writing the proxy in go''),
     (js ''aarav'', js ''yes, httputil.ReverseProxy, it is about 40 lines''),
     (js ''sneha'', js ''good, i was going to write raw sockets''),
     (js ''priya'', js ''please do not do that''),
     (js ''rohit'', js ''round robin is just an index and a mutex''),
     (js ''aarav'', js ''and one goroutine for the health checks''),
     (js ''karan'', js ''how often are you polling''),
     (js ''aarav'', js ''every 2 seconds''),
     (js ''priya'', js ''mine is every 5, 2 felt aggressive''),
     (js ''rohit'', js ''2 is fine, the check is a memory read''),
     (js ''sneha'', js ''do you mark a backend down on the first failure''),
     (js ''aarav'', js ''no, three in a row''),
     (js ''sneha'', js ''why three''),
     (js ''aarav'', js ''one slow reply is not a dead server''),
     (js ''karan'', js ''that makes sense''),
     (js ''priya'', js ''my failover test kept flapping before i did that''),
     (js ''rohit'', js ''same here''),
     (js ''sneha'', js ''the chat back end was harder than the proxy honestly''),
     (js ''aarav'', js ''because of socket.io''),
     (js ''sneha'', js ''yes''),
     (js ''priya'', js ''what broke for you''),
     (js ''sneha'', js ''messages did not cross machines''),
     (js ''rohit'', js ''socket.io keeps the connections in one process''),
     (js ''aarav'', js ''you need the mongo adapter''),
     (js ''sneha'', js ''found it, @socket.io/mongo-adapter''),
     (js ''karan'', js ''does that need a replica set''),
     (js ''aarav'', js ''yes, it tails a capped collection with a change stream''),
     (js ''karan'', js ''and change streams need an oplog''),
     (js ''priya'', js ''which a standalone mongod does not have''),
     (js ''sneha'', js ''so single node replica set it is''),
     (js ''rohit'', js ''rs.initiate once and you are done''),
     (js ''karan'', js ''took me a while to accept that''),
     (js ''aarav'', js ''the other thing is the handshake''),
     (js ''priya'', js ''the polling handshake''),
     (js ''aarav'', js ''yes, several requests and only one process knows the session''),
     (js ''sneha'', js ''so round robin breaks the login''),
     (js ''rohit'', js ''cookie stickiness fixes it''),
     (js ''aarav'', js ''lb_backend cookie, set on the first request''),
     (js ''karan'', js ''does that not ruin the load spread''),
     (js ''aarav'', js ''the load generator has no cookie jar so it still round robins''),
     (js ''priya'', js ''clean''),
     (js ''sneha'', js ''my websocket clients are one request each anyway''),
     (js ''rohit'', js ''right, the split stays even''),
     (js ''karan'', js ''what are you all measuring''),
     (js ''priya'', js ''throughput, dropout and the latency percentiles''),
     (js ''aarav'', js ''same''),
     (js ''rohit'', js ''are you measuring /health''),
     (js ''aarav'', js ''i tried, it tells you nothing''),
     (js ''rohit'', js ''why not''),
     (js ''aarav'', js ''the back end answers it in microseconds''),
     (js ''priya'', js ''so the proxy becomes the bottleneck''),
     (js ''aarav'', js ''exactly, adding back ends changes nothing''),
     (js ''sneha'', js ''what did you measure instead''),
     (js ''aarav'', js ''a full login with the history load included''),
     (js ''sneha'', js ''that is real work''),
     (js ''priya'', js ''how much work''),
     (js ''aarav'', js ''100 messages decrypted and verified per login''),
     (js ''karan'', js ''on one vcpu that must hurt''),
     (js ''aarav'', js ''it does, that is the point''),
     (js ''rohit'', js ''did it scale''),
     (js ''aarav'', js ''three times faster with three back ends''),
     (js ''priya'', js ''nice''),
     (js ''sneha'', js ''p50 dropped a lot for me too''),
     (js ''rohit'', js ''mine went from about 3.5 s to 1.3 s''),
     (js ''karan'', js ''that is a big drop''),
     (js ''priya'', js ''zero failures either way''),
     (js ''aarav'', js ''same here''),
     (js ''sneha'', js ''did anyone see the tail get worse''),
     (js ''aarav'', js ''on the /health run yes''),
     (js ''sneha'', js ''p99 doubled for me''),
     (js ''aarav'', js ''three connection pools and three health checks on one vcpu''),
     (js ''rohit'', js ''makes sense''),
     (js ''karan'', js ''so the tail is the cost of spreading out''),
     (js ''priya'', js ''only when there is no other bottleneck''),
     (js ''sneha'', js ''right''),
     (js ''rohit'', js ''how are you seeding the room''),
     (js ''aarav'', js ''a script that writes signed and encrypted messages''),
     (js ''priya'', js ''not plain inserts''),
     (js ''aarav'', js ''no, they have to verify like live ones''),
     (js ''sneha'', js ''otherwise the history load is free''),
     (js ''karan'', js ''and the experiment measures nothing''),
     (js ''rohit'', js ''how many are you seeding''),
     (js ''aarav'', js ''120, history caps at 100''),
     (js ''priya'', js ''so every login does the full 100''),
     (js ''sneha'', js ''smart''),
     (js ''karan'', js ''is your site on https''),
     (js ''aarav'', js ''it has to be''),
     (js ''karan'', js ''why''),
     (js ''aarav'', js ''webcrypto only works on a secure origin''),
     (js ''priya'', js ''browsers refuse it otherwise''),
     (js ''karan'', js ''self signed cert then''),
     (js ''aarav'', js ''yes, you click through the warning once''),
     (js ''sneha'', js ''openssl req -x509, one line''),
     (js ''rohit'', js ''does the proxy talk https to the back ends too''),
     (js ''aarav'', js ''no, plain http inside the bridge network''),
     (js ''rohit'', js ''fine''),
     (js ''priya'', js ''did anyone hit the idle connection limit in go''),
     (js ''aarav'', js ''yes, that one cost me an evening''),
     (js ''priya'', js ''the default transport keeps two idle conns per host''),
     (js ''aarav'', js ''so almost every request opens a new tcp connection''),
     (js ''rohit'', js ''what were you seeing''),
     (js ''aarav'', js ''proxy stuck at 443 rps, back ends could do 1244''),
     (js ''sneha'', js ''what fixed it''),
     (js ''aarav'', js ''MaxIdleConnsPerHost 256''),
     (js ''priya'', js ''it went up to 674 after that''),
     (js ''karan'', js ''worth putting in the report''),
     (js ''aarav'', js ''it is already in mine''),
     (js ''sneha'', js ''submitting tonight, good luck everyone'')]"

section \<open>main\<close>

text \<open>The names in order of their first appearance, each once.\<close>

definition speakers :: "(jsstr \<times> jsstr) list \<Rightarrow> jsstr list" where
  "speakers chat = rev (remdups (rev (map fst chat)))"

definition register_speakers :: "'db sender_ops \<Rightarrow> millis \<Rightarrow> jsstr \<Rightarrow> (jsstr \<times> jsstr) list \<Rightarrow> 'db \<Rightarrow> 'db" where
  "register_speakers so now publicKey chat db =
     foldl (\<lambda>db name. registerSender so now name publicKey db) db (speakers chat)"

text \<open>What one turn of the loop finds: the clock, the nonce, the id and the message id of its row.\<close>

record seed_values =
  sv_now :: millis
  sv_nonce :: "byte list"
  sv_oid :: objectid
  sv_uuid :: jsstr

definition seed_args ::
  "gcm \<Rightarrow> byte list \<Rightarrow> (byte list \<Rightarrow> byte list) \<Rightarrow> jsstr \<Rightarrow> nat \<Rightarrow> nat \<Rightarrow> jsstr \<times> jsstr \<Rightarrow> seed_values \<Rightarrow> save_args" where
  "seed_args g key sign publicKey n i row v =
     (case row of (username, t) \<Rightarrow>
        let clientTimestamp = sv_now v - (int n - int i) * 60000;
            sealed = encrypt g key (sv_nonce v) t
        in \<lparr>sa_roomId = CHAT_ROOM_ID, sa_senderId = username, sa_msgId = None,
            sa_ciphertext = sl_ciphertext sealed, sa_nonce = Some (sl_nonce sealed),
            sa_signature = Some (sign (buildCanonicalBytes username (int_number clientTimestamp) t)),
            sa_senderPublicKey = Some (from_base64 publicKey),
            sa_timestamp = Some clientTimestamp, sa_clientTimestamp = Some (int_number clientTimestamp)\<rparr>)"

text \<open>The loop from row \<open>i\<close> on; a rejected insert ends it.\<close>

fun seed_messages ::
  "(document \<Rightarrow> 'db \<Rightarrow> ('e + unit) \<times> 'db) \<Rightarrow> gcm \<Rightarrow> byte list \<Rightarrow> (byte list \<Rightarrow> byte list) \<Rightarrow> jsstr \<Rightarrow> nat \<Rightarrow> nat
     \<Rightarrow> ((jsstr \<times> jsstr) \<times> seed_values) list \<Rightarrow> 'db \<Rightarrow> ('e + unit) \<times> 'db" where
  "seed_messages insert_one g key sign publicKey n i [] db = (Inr (), db)"
| "seed_messages insert_one g key sign publicKey n i ((row, v) # rest) db =
     (case saveMessage insert_one (sv_oid v) (sv_uuid v) (sv_now v) (seed_args g key sign publicKey n i row v) db of
        (Inl e, db') \<Rightarrow> (Inl e, db')
      | (Inr hex, db') \<Rightarrow> seed_messages insert_one g key sign publicKey n (Suc i) rest db')"

text \<open>The collection with the indexes that \<open>connect\<close> created; \<open>insertOne\<close> rejects a taken message id.\<close>

definition insert_indexed :: "index_spec list \<Rightarrow> document \<Rightarrow> document list \<Rightarrow> (unit + unit) \<times> document list" where
  "insert_indexed held doc docs = (let (ok, docs') = insertOne held doc docs in (if ok then Inr () else Inl (), docs'))"

definition seed_main ::
  "'db sender_ops \<Rightarrow> index_spec list \<Rightarrow> gcm \<Rightarrow> byte list \<Rightarrow> (byte list \<Rightarrow> byte list) \<Rightarrow> jsstr \<Rightarrow> millis \<Rightarrow> seed_values list
     \<Rightarrow> 'db \<Rightarrow> document list \<Rightarrow> (unit + unit) \<times> 'db \<times> document list" where
  "seed_main so held g key sign publicKey now vs senders docs =
     (let senders' = register_speakers so now publicKey CHAT senders;
          (r, docs') = seed_messages (insert_indexed held) g key sign publicKey (length CHAT) 0 (zip CHAT vs) docs
      in (r, senders', docs'))"

section \<open>Facts\<close>

lemma CHAT_length: "length CHAT = 120"
  by (simp add: CHAT_def del: js_Cons)

lemma CHAT_well_formed: "list_all (\<lambda>(u, t). well_formed t) CHAT"
  by (simp add: CHAT_def well_formed_js del: js_Cons)

fun seed_documents ::
  "gcm \<Rightarrow> byte list \<Rightarrow> (byte list \<Rightarrow> byte list) \<Rightarrow> jsstr \<Rightarrow> nat \<Rightarrow> nat \<Rightarrow> ((jsstr \<times> jsstr) \<times> seed_values) list \<Rightarrow> document list" where
  "seed_documents g key sign publicKey n i [] = []"
| "seed_documents g key sign publicKey n i ((row, v) # rest) =
     message_document (sv_oid v) (sv_uuid v) (sv_now v) (seed_args g key sign publicKey n i row v)
     # seed_documents g key sign publicKey n (Suc i) rest"

lemma seed_document_fields [simp]:
  "d_id (message_document oid uuid now (seed_args g key sign pk n i row v)) = oid"
  "d_msgId (message_document oid uuid now (seed_args g key sign pk n i row v)) = Some uuid"
  "d_roomId (message_document oid uuid now (seed_args g key sign pk n i row v)) = CHAT_ROOM_ID"
  by (cases row; simp add: message_document_def seed_args_def Let_def)+

lemma seed_messages_all:
  assumes "distinct (map (sv_uuid \<circ> snd) rows)" "\<forall>(row, v) \<in> set rows. \<not> msgId_taken docs (sv_uuid v)"
  shows "seed_messages (insert_indexed held) g key sign pk n i rows docs
    = (Inr (), docs @ seed_documents g key sign pk n i rows)"
  using assms
proof (induction rows arbitrary: i docs)
  case (Cons r rows)
  obtain row v where r: "r = (row, v)" by fastforce
  let ?d = "message_document (sv_oid v) (sv_uuid v) (sv_now v) (seed_args g key sign pk n i row v)"
  have "insert_indexed held ?d docs = (Inr (), docs @ [?d])"
    using Cons.prems(2) by (simp add: r insert_indexed_def insertOne_def)
  moreover have "\<forall>(row', v') \<in> set rows. \<not> msgId_taken (docs @ [?d]) (sv_uuid v')"
    using Cons.prems by (force simp: r msgId_taken_def)
  ultimately show ?case using Cons.IH[of "docs @ [?d]"] Cons.prems(1) by (simp add: r saveMessage_def)
qed simp

lemma sort_key_later:
  assumes "sorted_wrt (<) (map f ys)" "\<forall>x \<in> set xs. \<forall>y \<in> set ys. f x < f y"
  shows "sort_key f (xs @ ys) = sort_key f xs @ ys"
  using assms
proof (induction ys rule: rev_induct)
  case (snoc y ys)
  then have "\<forall>x \<in> set (xs @ ys). f x \<le> f y" by (auto simp: sorted_wrt_append intro: less_imp_le)
  then have "sort_key f ((xs @ ys) @ [y]) = sort_key f (xs @ ys) @ [y]" by (rule sort_key_snoc)
  then show ?case using snoc by (simp add: sorted_wrt_append)
qed simp

lemma loadHistory_map:
  "(\<And>m. m \<in> set ms \<Longrightarrow> history_item_of ec g key m = Inr (f m)) \<Longrightarrow> loadHistory ec g key ms = Inr (map f ms)"
  by (induction ms) simp_all

text \<open>The entry of the history that a seeded row gives.\<close>

lemma seeded_item:
  assumes law: "gcm_law g" "length key = KEY_BYTES" and nonce: "length (sv_nonce v) = NONCE_BYTES"
    and signer: "\<And>bytes. verifyBytes ec bytes (to_base64 (sign bytes)) pk" and t: "well_formed t"
  shows "\<exists>item. history_item_of ec g key (stored_message_of (message_document (sv_oid v) (sv_uuid v) (sv_now v)
      (seed_args g key sign pk n i (u, t) v))) = Inr item
    \<and> hi_username item = u \<and> hi_text item = Some t \<and> hi_signature item = Valid"
proof -
  let ?ts = "int_number (sv_now v - (int n - int i) * 60000)"
  have "verifySignature ec u ?ts t (to_base64 (sign (buildCanonicalBytes u ?ts t))) pk"
    using signer by (simp add: verifySignature_def)
  then have "verifySignature ec u ?ts t (to_base64 (sign (buildCanonicalBytes u ?ts t))) (to_base64 (from_base64 pk))"
    by (subst (asm) verifySignature_canonical[symmetric]) (simp add: from_to_base64)
  then show ?thesis
    using decrypt_encrypt[OF law nonce, of t] t
    by (simp add: history_item_of_def stored_message_of_def message_document_def seed_args_def verifyStoredSignature_def
        to_well_formed_id Let_def)
qed

lemma seeded_items:
  assumes law: "gcm_law g" "length key = KEY_BYTES" and nonce: "\<forall>(row, v) \<in> set rows. length (sv_nonce v) = NONCE_BYTES"
    and signer: "\<And>bytes. verifyBytes ec bytes (to_base64 (sign bytes)) pk" and t: "\<forall>((u, t), v) \<in> set rows. well_formed t"
  shows "\<exists>items. loadHistory ec g key (map stored_message_of (seed_documents g key sign pk n i rows)) = Inr items
    \<and> map (\<lambda>x. (hi_username x, hi_text x, hi_signature x)) items = map (\<lambda>((u, t), v). (u, Some t, Valid)) rows"
  using nonce t
proof (induction rows arbitrary: i)
  case (Cons r rows)
  obtain u t v where r: "r = ((u, t), v)" by (metis surj_pair)
  obtain items where "loadHistory ec g key (map stored_message_of (seed_documents g key sign pk n (Suc i) rows)) = Inr items"
    "map (\<lambda>x. (hi_username x, hi_text x, hi_signature x)) items = map (\<lambda>((u, t), v). (u, Some t, Valid)) rows"
    using Cons.IH[of "Suc i"] Cons.prems by auto
  moreover obtain item where "history_item_of ec g key (stored_message_of (message_document (sv_oid v) (sv_uuid v) (sv_now v)
      (seed_args g key sign pk n i (u, t) v))) = Inr item" "hi_username item = u" "hi_text item = Some t" "hi_signature item = Valid"
    using seeded_item[OF law _ signer, where v = v and t = t and n = n and i = i and u = u] Cons.prems by (auto simp: r)
  ultimately show ?case by (simp add: r)
qed simp

lemma drop_seed_documents:
  "drop k (seed_documents g key sign pk n i rows) = seed_documents g key sign pk n (i + k) (drop k rows)"
proof (induction k arbitrary: i rows)
  case (Suc k)
  then show ?case by (cases rows) auto
qed simp

lemma map_seed_documents [simp]:
  "map d_id (seed_documents g key sign pk n i rows) = map (sv_oid \<circ> snd) rows"
  "length (seed_documents g key sign pk n i rows) = length rows"
  "filter (\<lambda>d. d_roomId d = CHAT_ROOM_ID) (seed_documents g key sign pk n i rows) = seed_documents g key sign pk n i rows"
  by (induction rows arbitrary: i) auto

section \<open>Properties\<close>

text \<open>
  C27: A seeded room makes every login do its full work. After the script has run, with fresh message
  ids and growing object ids, on a collection with its indexes, the history that a login loads has
  exactly the last hundred lines of the conversation, each decrypted and each with a valid
  signature, whatever was in the room before and whatever keys the names were bound to.
\<close>

theorem seeded_history_is_valid:
  assumes law: "gcm_law g" "length key = KEY_BYTES" and vs: "length vs = length CHAT"
    and nonce: "\<forall>v \<in> set vs. length (sv_nonce v) = NONCE_BYTES"
    and signer: "\<And>bytes. verifyBytes ec bytes (to_base64 (sign bytes)) pk"
    and fresh: "distinct (map sv_uuid vs)" "\<forall>v \<in> set vs. \<not> msgId_taken docs (sv_uuid v)"
    and ids: "sorted_wrt (<) (map sv_oid vs)" "\<forall>d \<in> set docs. \<forall>v \<in> set vs. d_id d < sv_oid v"
    and main: "seed_main so held g key sign pk now vs senders docs = (r, senders', docs')"
    and query: "query CHAT_ROOM_ID DEFAULT_HISTORY_LIMIT = newest_first docs' CHAT_ROOM_ID DEFAULT_HISTORY_LIMIT"
  shows "r = Inr () \<and> (\<exists>items. loadHistory ec g key (getHistory query CHAT_ROOM_ID DEFAULT_HISTORY_LIMIT) = Inr items
    \<and> length items = 100
    \<and> map (\<lambda>x. (hi_username x, hi_text x, hi_signature x)) items = map (\<lambda>(u, t). (u, Some t, Valid)) (drop 20 CHAT))"
proof -
  let ?rows = "zip CHAT vs" and ?n = "length CHAT" and ?room = "filter (\<lambda>d. d_roomId d = CHAT_ROOM_ID)"
  let ?new = "seed_documents g key sign pk ?n 0 ?rows"
  have snds: "map (sv_uuid \<circ> snd) ?rows = map sv_uuid vs" "map (sv_oid \<circ> snd) ?rows = map sv_oid vs"
    using vs by (simp_all flip: map_map)
  have in_vs: "v \<in> set vs" if "(row, v) \<in> set ?rows" for row v using that by (rule set_zip_rightD)
  have "distinct (map (sv_uuid \<circ> snd) ?rows)" unfolding snds by (rule fresh(1))
  moreover have "\<forall>(row, v) \<in> set ?rows. \<not> msgId_taken docs (sv_uuid v)" using fresh(2) in_vs by blast
  ultimately have "seed_messages (insert_indexed held) g key sign pk ?n 0 ?rows docs = (Inr (), docs @ ?new)"
    by (rule seed_messages_all)
  then have r: "r = Inr ()" and docs': "docs' = docs @ ?new" using main by (auto simp: seed_main_def Let_def)
  have new: "map d_id ?new = map sv_oid vs" by (simp add: snds)
  have "d_id x < d_id y" if "x \<in> set docs" "y \<in> set ?new" for x y
  proof -
    have "d_id y \<in> set (map sv_oid vs)" using that(2) unfolding new[symmetric] set_map by (rule imageI)
    then show ?thesis using ids(2) that(1) by auto
  qed
  then have "\<forall>x \<in> set (?room docs). \<forall>y \<in> set ?new. d_id x < d_id y" by simp
  then have "sort_key d_id (?room docs @ ?new) = sort_key d_id (?room docs) @ ?new"
    using ids(1) new by (intro sort_key_later) simp_all
  then have "rev (newest_first docs' CHAT_ROOM_ID DEFAULT_HISTORY_LIMIT) = drop 20 ?new"
    using vs CHAT_length by (simp add: rev_newest_first docs' Let_def DEFAULT_HISTORY_LIMIT_def)
  then have hist: "getHistory query CHAT_ROOM_ID DEFAULT_HISTORY_LIMIT
      = map stored_message_of (seed_documents g key sign pk ?n 20 (drop 20 ?rows))"
    by (simp add: getHistory_def query drop_seed_documents)
  have rows: "\<forall>(row, v) \<in> set (drop 20 ?rows). length (sv_nonce v) = NONCE_BYTES" "\<forall>((u, t), v) \<in> set (drop 20 ?rows). well_formed t"
    using nonce in_vs CHAT_well_formed by (fastforce dest: in_set_dropD set_zip_leftD simp: list_all_iff)+
  obtain items where items: "loadHistory ec g key (getHistory query CHAT_ROOM_ID DEFAULT_HISTORY_LIMIT) = Inr items"
    "map (\<lambda>x. (hi_username x, hi_text x, hi_signature x)) items = map (\<lambda>((u, t), v). (u, Some t, Valid)) (drop 20 ?rows)"
    using seeded_items[OF law rows(1) signer rows(2), of ?n 20] hist by metis
  have "map (\<lambda>((u, t), v). (u, Some t, Valid)) (drop 20 ?rows) = map (\<lambda>(u, t). (u, Some t, Valid)) (map fst (drop 20 ?rows))"
    by (simp add: case_prod_beta' comp_def)
  also have "map fst (drop 20 ?rows) = drop 20 CHAT" using vs by (simp flip: drop_map)
  finally have shown: "map (\<lambda>x. (hi_username x, hi_text x, hi_signature x)) items = map (\<lambda>(u, t). (u, Some t, Valid)) (drop 20 CHAT)"
    unfolding items(2) .
  from arg_cong[OF this, of length] have "length items = 100" by (simp only: length_map length_drop CHAT_length)
  then show ?thesis using r items(1) shown by blast
qed

text \<open>Values for the whole conversation, and a signer for \<open>echo_ecdsa\<close>.\<close>

definition sample_values :: "seed_values list" where
  "sample_values = map (\<lambda>i. \<lparr>sv_now = 9000000, sv_nonce = replicate 12 0, sv_oid = of_nat (i + 1), sv_uuid = dec_digits i\<rparr>)
     [0..<length CHAT]"

lemma growing_oids: "i < j \<Longrightarrow> j < 200 \<Longrightarrow> (of_nat i :: objectid) < of_nat j"
  unfolding word_less_nat_alt unsigned_of_nat by (simp add: take_bit_nat_eq_self)

lemma sample_values_fresh:
  "length sample_values = length CHAT" "distinct (map sv_uuid sample_values)" "sorted_wrt (<) (map sv_oid sample_values)"
proof -
  show "length sample_values = length CHAT" by (simp add: sample_values_def)
  have "inj dec_digits" by (metis digits_val_dec injI)
  then show "distinct (map sv_uuid sample_values)" by (auto simp: sample_values_def comp_def distinct_map inj_on_def dest: injD)
  have "(of_nat (i + 1) :: objectid) < of_nat (j + 1)" if "i < j" "j < length CHAT" for i j
    using that CHAT_length by (intro growing_oids) simp_all
  then show "sorted_wrt (<) (map sv_oid sample_values)"
    by (simp add: sample_values_def comp_def sorted_wrt_iff_nth_less del: of_nat_add)
qed

theorem seeded_history_is_valid_witness:
  "fst (seed_main map_senders [msgId_index] plain_gcm (replicate 32 1) (\<lambda>bytes. from_base64 key1) (to_base64 (from_base64 key1)) 0
     sample_values Map.empty [sample_doc 0]) = Inr ()"
proof -
  let ?pk = "to_base64 (from_base64 key1)"
  obtain r senders' docs' where run: "seed_main map_senders [msgId_index] plain_gcm (replicate 32 1) (\<lambda>bytes. from_base64 key1) ?pk 0
     sample_values Map.empty [sample_doc 0] = (r, senders', docs')" by (metis surj_pair)
  have "sv_nonce v = replicate 12 0 \<and> 0 < sv_oid v" if "v \<in> set sample_values" for v
  proof -
    have "(of_nat 0 :: objectid) < of_nat (i + 1)" if "i < length CHAT" for i
      using that CHAT_length by (intro growing_oids) simp_all
    then show ?thesis using that by (auto simp: sample_values_def simp del: of_nat_add)
  qed
  then have v: "\<forall>v \<in> set sample_values. length (sv_nonce v) = NONCE_BYTES"
    "\<forall>d \<in> set [sample_doc 0]. \<forall>v \<in> set sample_values. d_id d < sv_oid v"
    "\<forall>v \<in> set sample_values. \<not> msgId_taken [sample_doc 0] (sv_uuid v)"
    by (simp_all add: NONCE_BYTES_def sample_doc_def msgId_taken_def)
  have "verifyBytes echo_ecdsa bytes (to_base64 (from_base64 key1)) ?pk" for bytes by simp
  then have "r = Inr ()"
    using seeded_history_is_valid[OF plain_gcm_law _ sample_values_fresh(1) v(1) _ sample_values_fresh(2) v(3) sample_values_fresh(3) v(2) run,
        where ec = echo_ecdsa and query = "newest_first docs'"]
    by (simp add: KEY_BYTES_def)
  then show ?thesis using run by simp
qed

end
