(* ===== verification/Tools.thy ===== *)
theory Tools
  imports Router Chat_Runs Database
begin

text \<open>
  The scripts beside the server: \<open>tools/cleanup.js\<close>, \<open>tools/rsadmin.js\<close>, \<open>scripts/tamper-demo.js\<close> and
  \<open>scripts/generate-key.js\<close>. Each is a command on the database; what is printed is a value, and what
  other clients write meanwhile is an argument.
\<close>

section \<open>cleanup\<close>

definition from_http :: "document \<Rightarrow> bool" where
  "from_http d \<longleftrightarrow> d_source d = Some (js ''http'')"

datatype cleanup_output =
    Stats "(jsstr \<times> nat) list" nat
  | Indexes "(jsstr option \<times> (jsstr \<times> int) list \<times> bool) list"
  | Purged nat nat nat
  | UnknownCommand "jsstr option"

text \<open>\<open>purge-loadtest\<close> is three commands; \<open>b1\<close> and \<open>b2\<close> are the documents that are written between
  them. \<open>collections\<close> are the others with their estimated sizes.\<close>

definition cleanup ::
  "jsstr option \<Rightarrow> (jsstr \<times> nat) list \<Rightarrow> index_spec list \<Rightarrow> document list \<Rightarrow> document list \<Rightarrow> document list
     \<Rightarrow> cleanup_output \<times> document list" where
  "cleanup command collections indexes b1 b2 docs =
     (if command = Some (js ''stats'') then (Stats collections (length (filter from_http docs)), docs)
      else if command = Some (js ''indexes'') then (Indexes (map (\<lambda>i. (ix_name i, ix_key i, ix_unique i)) indexes), docs)
      else if command = Some (js ''purge-loadtest'') then
        (let before = length docs;
             kept = filter (\<lambda>d. \<not> from_http d) (docs @ b1);
             deletedCount = length (docs @ b1) - length kept;
             docs' = kept @ b2;
             after = length docs'
         in (Purged before deletedCount after, docs'))
      else (UnknownCommand command, docs))"

section \<open>rsadmin\<close>

text \<open>The wait for an election: \<open>hello\<close> is asked once a second, thirty times at most; the answers are
  whether the member is the writable primary.\<close>

fun wait_primary :: "nat \<Rightarrow> nat \<Rightarrow> (nat \<Rightarrow> bool) \<Rightarrow> nat option" where
  "wait_primary i 0 hello = None"
| "wait_primary i (Suc left) hello = (if hello i then Some (i + 1) else wait_primary (Suc i) left hello)"

datatype rs_output = PrimaryAfter nat | NoPrimary | RsOther jsstr | RsUnknown "jsstr option" | RsFailed

definition rsadmin :: "jsstr option \<Rightarrow> bool \<Rightarrow> (nat \<Rightarrow> bool) \<Rightarrow> rs_output" where
  "rsadmin command initiated hello =
     (if command = Some (js ''init'') then
        (if \<not> initiated then RsFailed
         else (case wait_primary 0 30 hello of Some s \<Rightarrow> PrimaryAfter s | None \<Rightarrow> NoPrimary))
      else if command \<in> {Some (js ''status''), Some (js ''cache''), Some (js ''counts'')} then RsOther (the command)
      else RsUnknown command)"

section \<open>tamper-demo\<close>

text \<open>\<open>tampered[0] ^= 0x01\<close>; on an empty buffer it does nothing.\<close>

definition flip_first :: "byte list \<Rightarrow> byte list" where
  "flip_first b = (case b of [] \<Rightarrow> [] | x # xs \<Rightarrow> xor x 1 # xs)"

definition latest :: "document list \<Rightarrow> document option" where
  "latest docs = (case rev (sort_key d_id docs) of [] \<Rightarrow> None | d # _ \<Rightarrow> Some d)"

datatype tamper_output = NothingStored | Tampered jsstr jsstr | TamperFailed

text \<open>A row without a ciphertext makes \<open>Buffer.from(null)\<close> raise; one without a time makes the printing
  raise, after the change.\<close>

definition tamper :: "document list \<Rightarrow> tamper_output \<times> document list" where
  "tamper docs =
     (case latest docs of
        None \<Rightarrow> (NothingStored, docs)
      | Some d \<Rightarrow>
          (case toBuffer (d_ciphertext d) of
             None \<Rightarrow> (TamperFailed, docs)
           | Some original \<Rightarrow>
               let docs' = map (\<lambda>e. if d_id e = d_id d then e\<lparr>d_ciphertext := IsBuffer (flip_first original)\<rparr> else e) docs
               in (if d_timestamp d = None then TamperFailed else Tampered (toHexString (d_id d)) (d_senderId d), docs')))"

section \<open>generate-key\<close>

definition KEY_ENV_VAR :: jsstr where
  "KEY_ENV_VAR = js ''CHAT_ENCRYPTION_KEY''"

definition generated_line :: "byte list \<Rightarrow> jsstr" where
  "generated_line random = KEY_ENV_VAR @ [61] @ to_base64 random"

section \<open>Facts\<close>

lemma wait_primary_first:
  "wait_primary i left hello = Some s \<longleftrightarrow>
     (\<exists>k < left. s = i + k + 1 \<and> hello (i + k) \<and> (\<forall>j < k. \<not> hello (i + j)))"
proof (induction left arbitrary: i)
  case (Suc left)
  show ?case
  proof (cases "hello i")
    case True
    then have "hello (i + k) \<and> (\<forall>j < k. \<not> hello (i + j)) \<longleftrightarrow> k = 0" for k by (cases k) auto
    then show ?thesis using True by auto
  next
    case False
    have shift: "(\<exists>k < Suc left. P k) \<longleftrightarrow> (\<exists>k < left. P (Suc k))" if "\<not> P 0" for P
      using that by (metis Suc_less_eq less_Suc_eq_0_disj)
    have all: "(\<forall>j < Suc k. \<not> hello (i + j)) \<longleftrightarrow> (\<forall>j < k. \<not> hello (Suc i + j))" for k
      using False by (auto simp: All_less_Suc2)
    show ?thesis using False by (subst shift) (simp_all add: Suc.IH all)
  qed
qed simp

lemma space_range: "is_js_space c \<Longrightarrow> unat c \<le> 32 \<or> 160 \<le> unat c"
  by (auto simp: is_js_space_def word_le_nat_alt)

lemma b64_val_range: "b64_val c \<noteq> None \<Longrightarrow> 43 \<le> unat c \<and> unat c \<le> 122"
  by (auto simp: b64_val_def Let_def split: if_splits)

lemma b64_not_space: "c \<in> set (to_base64 bs) \<Longrightarrow> \<not> is_js_space c"
proof -
  assume c: "c \<in> set (to_base64 bs)"
  have "\<forall>v \<in> set (to_sextets (map unat bs)). v < 64" using unsigned_less[where ?'b = 8] by (intro to_sextets_small) auto
  then have "b64_val c \<noteq> None \<or> c = 61"
    using c b64_val_char by (auto simp: to_base64_def b64_padding_def split: if_splits)
  then have "43 \<le> unat c \<and> unat c \<le> 122" using b64_val_range by auto
  then show ?thesis using space_range[of c] by auto
qed

lemma js_trim_id: "\<forall>c \<in> set s. \<not> is_js_space c \<Longrightarrow> js_trim s = s"
  by (cases s) (simp_all add: js_trim_def dropWhile_id hd_rev del: rev.simps)

lemma sort_key_map: "(\<And>x. f (h x) = f x) \<Longrightarrow> sort_key f (map h xs) = map h (sort_key f xs)"
proof (induction xs)
  case (Cons x xs)
  have "insort_key f (h x) (map h ys) = map h (insort_key f x ys)" for ys using Cons.prems by (induction ys) auto
  then show ?case using Cons by simp
qed simp

section \<open>Properties\<close>

text \<open>
  A purge removes what the load generators sent and nothing that was signed. Whatever is written
  meanwhile, after \<open>purge-loadtest\<close> every document that the chat saved is still there, in the same
  order, and a document of the HTTP route is there only if it came after the deletion; the
  number that is printed is that of the deleted documents.
\<close>

theorem purge_spares_chat:
  assumes purge: "cleanup (Some (js ''purge-loadtest'')) cols ixs b1 b2 docs = (out, docs')"
  shows "(\<forall>oid uuid now a. message_document oid uuid now a \<in> set (docs @ b1) \<longrightarrow> message_document oid uuid now a \<in> set docs')
    \<and> (\<forall>g key fv req acc. accept_message g key fv req = Inr (Inr acc) \<longrightarrow> ac_document acc \<in> set docs' \<longrightarrow> ac_document acc \<in> set b2)
    \<and> subseq (filter (\<lambda>d. d_source d = None) (docs @ b1)) docs'
    \<and> out = Purged (length docs) (length (filter from_http (docs @ b1))) (length docs')"
proof -
  have ne: "js ''purge-loadtest'' \<noteq> js ''stats''" "js ''purge-loadtest'' \<noteq> js ''indexes''" by (simp_all add: of_char_Char)
  have out: "docs' = filter (\<lambda>d. \<not> from_http d) (docs @ b1) @ b2"
    "out = Purged (length docs) (length (docs @ b1) - length (filter (\<lambda>d. \<not> from_http d) (docs @ b1))) (length docs')"
    using purge ne by (auto simp: cleanup_def Let_def simp del: js_Cons)
  have "\<not> from_http (message_document oid uuid now a)" for oid uuid now a
    by (simp add: from_http_def message_document_def Let_def)
  moreover have "from_http (ac_document acc)" if "accept_message g key fv req = Inr (Inr acc)" for g key fv req acc
    using that by (auto simp: accept_message_def from_http_def http_document_def Let_def split: if_splits sum.splits)
  moreover have "subseq (filter (\<lambda>d. d_source d = None) (docs @ b1)) (filter (\<lambda>d. \<not> from_http d) (docs @ b1))"
  proof -
    have "filter (\<lambda>d. d_source d = None) xs = filter (\<lambda>d. d_source d = None) (filter (\<lambda>d. \<not> from_http d) xs)" for xs
      by (auto simp: from_http_def intro: filter_cong)
    then show ?thesis by (metis subseq_filter_left)
  qed
  then have "subseq (filter (\<lambda>d. d_source d = None) (docs @ b1)) docs'" unfolding out(1)
    by (rule subseq_order.trans[OF _ prefix_imp_subseq[OF prefixI[OF refl]]])
  moreover have "length (docs @ b1) - length (filter (\<lambda>d. \<not> from_http d) (docs @ b1)) = length (filter from_http (docs @ b1))"
    using sum_length_filter_compl[of from_http "docs @ b1"] by simp
  then have "out = Purged (length docs) (length (filter from_http (docs @ b1))) (length docs')" unfolding out(2) by (simp only:)
  ultimately show ?thesis using out(1) by auto
qed

theorem purge_spares_chat_witness:
  "snd (cleanup (Some (js ''purge-loadtest'')) [] [] [] [sample_doc 3] [sample_doc 1, sample_doc 2\<lparr>d_source := Some (js ''http'')\<rparr>])
   = [sample_doc 1, sample_doc 3]
   \<and> fst (cleanup (Some (js ''purge-loadtest'')) [] [] [] [sample_doc 3] [sample_doc 1, sample_doc 2\<lparr>d_source := Some (js ''http'')\<rparr>])
   = Purged 2 1 2"
proof -
  have ne: "js ''purge-loadtest'' \<noteq> js ''stats''" "js ''purge-loadtest'' \<noteq> js ''indexes''" by (simp_all add: of_char_Char)
  have "cleanup (Some (js ''purge-loadtest'')) [] [] [] [sample_doc 3] [sample_doc 1, sample_doc 2\<lparr>d_source := Some (js ''http'')\<rparr>]
    = (Purged 2 1 2, [sample_doc 1, sample_doc 3])"
    by (simp add: cleanup_def ne from_http_def sample_doc_def Let_def del: js_Cons)
  with purge_spares_chat[OF this] show ?thesis by simp
qed

text \<open>What GCM's tag gives beyond \<open>gcm_law\<close>: ciphertexts that differ in their first byte only do not have
  the same tag.\<close>

definition tag_guards_first :: "gcm \<Rightarrow> byte list \<Rightarrow> byte list \<Rightarrow> bool" where
  "tag_guards_first g key n \<longleftrightarrow>
     (\<forall>p p' x y c t. gcm_seal g key n p = (x # c, t) \<and> gcm_seal g key n p' = (y # c, t) \<longrightarrow> x = y)"

text \<open>
  C32: A flipped bit is seen, and only there. When the first ciphertext byte of the newest message of the
  room is changed as \<open>tamper-demo.js\<close> does, the history that loads afterwards is the one that
  loaded before, except that this message comes without a text, as failing its integrity check;
  the cipher's tag is taken to differ when only the first byte of a ciphertext does.
\<close>

theorem tampered_row_is_flagged:
  assumes law: "gcm_law g" "length key = KEY_BYTES"
    and tag: "tag_guards_first g key n"
    and sealed: "gcm_seal g key n p = (x # c, t)" "length n = NONCE_BYTES"
    and d: "latest docs = Some d" "d_roomId d = CHAT_ROOM_ID" "d_ciphertext d = IsBuffer (x # c @ t)" "d_nonce d = IsBuffer n"
    and ids: "distinct (map d_id docs)" and limit: "0 < limit"
    and before: "loadHistory ec g key (getHistory (newest_first docs) CHAT_ROOM_ID limit) = Inr items"
    and tampered: "tamper docs = (out, docs')"
  shows "\<exists>i. loadHistory ec g key (getHistory (newest_first docs') CHAT_ROOM_ID limit) = Inr (butlast items @ [i])
    \<and> out = Tampered (hi_id i) (hi_username i)
    \<and> hi_id i = hi_id (last items) \<and> hi_text i = None \<and> hi_signature i = Unknown"
proof -
  let ?in = "\<lambda>d. d_roomId d = CHAT_ROOM_ID"
  let ?up = "\<lambda>e. if d_id e = d_id d then e\<lparr>d_ciphertext := IsBuffer (flip_first (x # c @ t))\<rparr> else e"
  obtain R where "rev (sort_key d_id docs) = d # R" using d(1) by (auto simp: latest_def split: list.splits)
  then obtain A where A: "sort_key d_id docs = A @ [d]" by (metis rev.simps(2) rev_swap)
  have others: "d_id e \<noteq> d_id d" if "e \<in> set A" for e
  proof -
    have "distinct (map d_id (A @ [d]))" unfolding A[symmetric]
      using ids by (metis distinct_map distinct_sort set_sort)
    then have "d_id d \<notin> d_id ` set A" by simp
    then show ?thesis using that by (metis imageI)
  qed
  define B where "B = drop (length (filter ?in A) + 1 - limit) (filter ?in A)"
  have docs': "docs' = map ?up docs" using tampered d by (auto simp: tamper_def Let_def)
  have room: "sort_key d_id (filter ?in docs) = filter ?in A @ [d]" using d(2) by (simp flip: filter_sort add: A)
  have "filter ?in docs' = map ?up (filter ?in docs)" unfolding docs' by (induction docs) auto
  then have "sort_key d_id (filter ?in docs') = map ?up (filter ?in A) @ [?up d]"
    using sort_key_map[of d_id ?up "filter ?in docs"] by (simp add: room)
  also have "map ?up (filter ?in A) = filter ?in A" using others by (intro map_idI) auto
  finally have room': "sort_key d_id (filter ?in docs') = filter ?in A @ [?up d]" by simp
  have hist: "getHistory (newest_first docs) CHAT_ROOM_ID limit = map stored_message_of B @ [stored_message_of d]"
    "getHistory (newest_first docs') CHAT_ROOM_ID limit = map stored_message_of B @ [stored_message_of (?up d)]"
    using limit by (simp_all add: getHistory_def rev_newest_first room room' B_def Let_def)
  obtain rows j where ij: "loadHistory ec g key (map stored_message_of B) = Inr rows"
    "history_item_of ec g key (stored_message_of d) = Inr j" "items = rows @ [j]"
    using before unfolding hist loadHistory_append by (auto split: sum.splits)
  have "gcm_open g key n (xor x 1 # c) t = None"
  proof (rule ccontr)
    assume "gcm_open g key n (xor x 1 # c) t \<noteq> None"
    then obtain p' where "gcm_open g key n (xor x 1 # c) t = Some p'" by blast
    then have "gcm_seal g key n p' = (xor x 1 # c, t)"
      using law sealed(2) by (simp add: gcm_law_def KEY_BYTES_def NONCE_BYTES_def)
    with tag sealed(1) have "x = xor x 1" unfolding tag_guards_first_def by blast
    then have "xor x x = xor x (xor x 1)" by simp
    then show False by (simp flip: xor.assoc)
  qed
  moreover have "length t = TAG_BYTES"
    using law sealed by (metis gcm_law_def KEY_BYTES_def NONCE_BYTES_def TAG_BYTES_def snd_conv)
  ultimately have "decrypt g key (Some (xor x 1 # c @ t)) (Some n) = Inl AuthenticationFailed"
    using sealed(2) by (simp add: decrypt_def Let_def)
  then obtain i where i: "history_item_of ec g key (stored_message_of (?up d)) = Inr i" "hi_text i = None" "hi_signature i = Unknown"
    "hi_id i = toHexString (d_id d)" "hi_username i = d_senderId d" "hi_id i = hi_id j" "d_timestamp d \<noteq> None"
    using ij(2) d by (auto simp: history_item_of_def stored_message_of_def flip_first_def Let_def split: option.splits sum.splits)
  have "out = Tampered (hi_id i) (hi_username i)"
    using tampered d i by (auto simp: tamper_def Let_def)
  then show ?thesis using i ij unfolding hist loadHistory_append by (intro exI[of _ i]) simp
qed

text \<open>A cipher whose tag holds the first byte of the text.\<close>

definition first_byte_gcm :: gcm where
  "first_byte_gcm = (let tag = (\<lambda>p. (case p of [] \<Rightarrow> 0 | x # xs \<Rightarrow> x) # replicate 15 0)
     in \<lparr>gcm_seal = (\<lambda>key nonce p. (p, tag p)), gcm_open = (\<lambda>key nonce c t. if t = tag c then Some c else None)\<rparr>)"

lemma first_byte_gcm_law: "gcm_law first_byte_gcm"
  by (auto simp: gcm_law_def first_byte_gcm_def Let_def)

theorem tampered_row_is_flagged_witness:
  "\<exists>i. loadHistory echo_ecdsa first_byte_gcm (replicate 32 0)
      (getHistory (newest_first (snd (tamper [sample_doc 1, (sample_doc 2)\<lparr>d_ciphertext := IsBuffer (104 # [105] @ 104 # replicate 15 0),
         d_nonce := IsBuffer (replicate 12 0)\<rparr>]))) CHAT_ROOM_ID 1) = Inr [i] \<and> hi_text i = None"
proof -
  let ?d = "(sample_doc 2)\<lparr>d_ciphertext := IsBuffer (104 # [105] @ 104 # replicate 15 0), d_nonce := IsBuffer (replicate 12 0)\<rparr>"
  let ?docs = "[sample_doc 1, ?d]" and ?key = "replicate 32 0 :: byte list" and ?n = "replicate 12 0 :: byte list"
  have seal: "gcm_seal first_byte_gcm ?key ?n [104, 105] = (104 # [105], 104 # replicate 15 0)" by (simp add: first_byte_gcm_def)
  have tag: "tag_guards_first first_byte_gcm ?key ?n" by (auto simp: tag_guards_first_def first_byte_gcm_def Let_def)
  have room: "d_roomId ?d = CHAT_ROOM_ID" by (simp add: sample_doc_def CHAT_ROOM_ID_def)
  have latest: "latest ?docs = Some ?d" by (simp add: latest_def sample_doc_def)
  have hist: "getHistory (newest_first ?docs) CHAT_ROOM_ID 1 = [stored_message_of ?d]"
    by (simp add: getHistory_def newest_first_def sample_doc_def CHAT_ROOM_ID_def)
  obtain i where items: "loadHistory echo_ecdsa first_byte_gcm ?key (getHistory (newest_first ?docs) CHAT_ROOM_ID 1) = Inr [i]"
    unfolding hist by (auto simp: history_item_of_def stored_message_of_def sample_doc_def Let_def)
  have prem: "d_ciphertext ?d = IsBuffer (104 # [105] @ 104 # replicate 15 0)" "d_nonce ?d = IsBuffer ?n"
    "distinct (map d_id ?docs)" "length ?key = KEY_BYTES" "length ?n = NONCE_BYTES"
    by (simp_all add: sample_doc_def KEY_BYTES_def NONCE_BYTES_def)
  obtain i' where "loadHistory echo_ecdsa first_byte_gcm ?key (getHistory (newest_first (snd (tamper ?docs))) CHAT_ROOM_ID 1)
      = Inr (butlast [i] @ [i']) \<and> hi_text i' = None"
    using tampered_row_is_flagged[OF first_byte_gcm_law prem(4) tag seal prem(5) latest room prem(1,2,3) zero_less_one items
        surjective_pairing] by blast
  then show ?thesis by auto
qed

text \<open>
  A generated key is one the server accepts. The value that \<open>generate-key.js\<close> prints for 32 random
  bytes, put into the environment as it is or with white space around it, is loaded as exactly
  those bytes.
\<close>

theorem generated_key_loads:
  assumes "length random = KEY_BYTES" and "generated_line random = KEY_ENV_VAR @ [61] @ setting"
    and "\<forall>c \<in> set a \<union> set b. is_js_space c"
  shows "loadKey (Some (a @ setting @ b)) None = (Inr random, Some random)"
proof -
  have s: "setting = to_base64 random" using assms(2) by (simp add: generated_line_def)
  have ne: "to_base64 random \<noteq> []" using assms(1) from_to_base64[of random] by (auto simp: KEY_BYTES_def from_base64_def)
  have space: "\<forall>c \<in> set (to_base64 random). \<not> is_js_space c" using b64_not_space by blast
  have "dropWhile is_js_space (a @ to_base64 random @ b) = to_base64 random @ b"
    using assms(3) ne space by (subst dropWhile_append2) (auto simp: dropWhile_id)
  moreover have "dropWhile is_js_space (rev (to_base64 random @ b)) = rev (to_base64 random)"
    using assms(3) ne space by (subst rev_append, subst dropWhile_append2) (auto simp: dropWhile_id hd_rev)
  ultimately have "js_trim (a @ setting @ b) = to_base64 random" by (simp add: js_trim_def s)
  then show ?thesis using ne assms(1) by (simp add: loadKey_def from_to_base64 Let_def)
qed

theorem generated_key_loads_witness:
  "loadKey (Some ([32] @ to_base64 (replicate 32 7) @ [10])) None = (Inr (replicate 32 7), Some (replicate 32 7))"
  using generated_key_loads[of "replicate 32 7" "to_base64 (replicate 32 7)" "[32]" "[10]"]
  by (simp add: KEY_BYTES_def generated_line_def is_js_space_def)

end
