(* ===== verification/Spec2Isabelle.thy ===== *)
theory Spec2Isabelle
  imports Prelude Json Base64 WriteQueue GzipFeed Cipher Validation RateLimiter Presence
    Signatures Messages Feed_Json FeedStore Feed_Runs Router FeedSync LoadMetrics Cgroup SocketHandlers Chat_Runs Chat_Races
    Chat_Network Network_Runs Cross_Replica One_Room Deployment Whole_System
    Js_Numbers Database Replicas Server Migrate ChatLoad Seed Tools
begin

text \<open>
  Verification of the replicated group chat of the load-balancer assignment.

  \<^bold>\<open>The program.\<close> Three backends (\<open>src/deployed/sys2\<close>, \<open>sys3\<close>, \<open>sys4\<close>, each a copy of one \<open>server/\<close>; the
  changed files of this assignment are also under \<open>src/sources/server\<close>) run behind a load balancer and
  share one MongoDB. Every backend offers two ways into the one room: a Socket.IO chat with
  challenge-response login, signed messages and encrypted storage (\<open>src/socketHandlers.js\<close>), and an HTTP
  interface for load (\<open>src/api/router.js\<close>): \<open>/message\<close> puts a message through a write queue that groups
  inserts into bulk writes (\<open>src/api/writeQueue.js\<close>), \<open>/feed\<close> answers with the whole room from memory
  (\<open>src/api/feedStore.js\<close>), compressed as it is written (\<open>src/api/gzipFeed.js\<close>). A change stream, a
  reconciler and a resync keep that memory in step with the database. \<open>server.js\<close> starts all this in
  order and shuts it down. Around it stand scripts: a chat load generator, a history seeder, a
  migration, cleanup and demonstration tools.

  \<^bold>\<open>Theories, bottom up.\<close>
  \<^item> \<open>Prelude\<close>: shared names, association lists as JavaScript maps, the locales \<open>machine_invariant\<close> (a step
    relation) and \<open>event_invariant\<close> (a function run over events) with their invariant rules.
  \<^item> \<open>Js_Strings\<close>, \<open>Utf8\<close>, \<open>Json\<close>, \<open>Base64\<close>, \<open>Js_Values\<close>, \<open>Js_Numbers\<close>: the part of the JavaScript library that
    the source uses, on UTF-16 code units and bytes, with its round trips.
  \<^item> \<open>WriteQueue\<close>: the class of \<open>writeQueue.js\<close>; one transition per callback. Every promise is in one
    place, everything drains, each caller hears of its own duplicate.
  \<^item> \<open>Gzip_Format\<close>, \<open>Room_Compressor\<close>, \<open>GzipFeed\<close>: the gzip format and its reader, the contract between the
    store and its compressor (a locale), and both classes of \<open>gzipFeed.js\<close>, which implement it.
  \<^item> \<open>Feed_Json\<close>, \<open>FeedStore\<close>, \<open>Feed_Runs\<close>, \<open>FeedSync\<close>: \<open>feedStore.js\<close>; the text of an entry and a reader of it,
    the store with its two caches, its runs (locale \<open>keyed_store\<close>), and the change stream, resync and
    reconciler as one machine beside the database's log.
  \<^item> \<open>Cipher\<close>, \<open>Signatures\<close>, \<open>Messages\<close>, \<open>Validation\<close>, \<open>RateLimiter\<close>, \<open>Presence\<close>: \<open>src/crypto\<close>, \<open>src/db\<close> and the
    small modules of the chat; \<open>RateLimiter\<close> has the contract of a sliding window as a locale.
  \<^item> \<open>SocketHandlers\<close>, \<open>Chat_Runs\<close>: every handler of \<open>socketHandlers.js\<close>, split at its \<open>await\<close>s, and what
    interleaved conversations achieve and keep. \<open>Chat_Races\<close>: what leaving during a login does.
  \<^item> \<open>Chat_Network\<close>, \<open>Network_Runs\<close>, \<open>Cross_Replica\<close>: the handlers of several backends, joined by the adapter
    that \<open>server.js\<close> attaches and by the shared collections; that every socket of every backend hears
    every message once, what is not shared (the names online), and the check of
    \<open>cross_replica_test.js\<close>, which passes.
  \<^item> \<open>Router\<close>, \<open>LoadMetrics\<close>, \<open>Cgroup\<close>, \<open>Database\<close>: the HTTP routes, the figures that the balancer polls and the
    readers of the kernel's files behind them, and the connection module with the indexes.
  \<^item> \<open>Replicas\<close>: any number of backends on one database, with posts, chat messages, lost answers and
    deliveries interleaved; backends that have heard everything agree. \<open>One_Room\<close>: their feeds and the
    history of the chat are two views of the same messages. \<open>Deployment\<close>: the same backends with their
    write queues, where a document waits, travels in a batch and is tried by the database at some
    time; a refinement shows that this is seen as a run of \<open>Replicas\<close>, and an answer of 200 means
    stored. \<open>Whole_System\<close>: this HTTP side and the chat over one collection; the feed and the history of
    the chat show the same room.
  \<^item> \<open>Server\<close>: \<open>start\<close> and \<open>shutdown\<close> of \<open>server.js\<close> and of \<open>assignment1/chat_server_patched.js\<close>.
  \<^item> \<open>Migrate\<close>, \<open>ChatLoad\<close>, \<open>Seed\<close>, \<open>Tools\<close>: \<open>tools/migrate.js\<close>, \<open>assignment1/chatload_main.js\<close>,
    \<open>seed_history.js\<close>, and \<open>cleanup.js\<close>, \<open>rsadmin.js\<close>, \<open>tamper-demo.js\<close>, \<open>generate-key.js\<close>. They are stated
    over the functions of the server that they use or talk to: a load session is played against
    the chat's handlers, and a seeded row is read back by the history.

  \<^bold>\<open>How code becomes definitions.\<close> An object is a record, a method a function on it, a thrown exception or
  an early return a summand or a constructor. An \<open>async\<close> function is split at its \<open>await\<close>s into the parts
  that run without interruption; what it waits for (the database's answer, a timer, random bytes,
  the clock) is an argument of the next part. Whatever the event loop may do is then a list of events
  or a step relation, and the theorems are about all of them. Strings are lists of 16-bit code
  units, bytes are 8-bit words, CRC-32 and ObjectIds are words of their width, times are integers and
  doubles rationals.

  \<^bold>\<open>Parameters.\<close> Code that is not in the repository is an argument, with what its documentation promises
  as a named hypothesis: \<open>gcm_law\<close> (AES-GCM of node:crypto), \<open>tag_guards_first\<close> (its tag on a change of
  one byte), \<open>ecdsa_law\<close> (WebCrypto), \<open>deflate_law\<close> (the deflate stream of zlib), \<open>sender_law\<close> (an upsert with
  \<open>$setOnInsert\<close>), \<open>newest_first\<close>, \<open>insertOne\<close> and \<open>insert_many\<close> (what MongoDB documents of a sorted
  query and of unique indexes). What an unordered bulk write answers is the guard \<open>truthful\<close> of
  \<open>Deployment\<close>. Each witness runs on a concrete instance.

  \<^bold>\<open>Bounds and fuel.\<close> The theorems about the write path hold for any positive batch size and number of
  writes in flight; the code's are 1000, and 8 or \<open>WRITE_PIPELINE\<close>. There is no fuel: the growth loop of the gzip buffer, its flush loop, the rebuild and
  the queue's drain have termination proofs by measures, the loop of \<open>rsadmin.js\<close> counts to 30. The
  pool of load workers may run forever, and that it ends after exactly the requested number of
  sessions, or never when that number is none, are theorems.

  \<^bold>\<open>Not modelled.\<close> The load balancer and the HTTP load generator are Go. Tests, benchmarks, the built client
  and \<open>scripts/wctest.js\<close>, a timing probe of one database, hold no logic of the program.
  Socket.IO, Express, the driver, zlib and WebCrypto are third-party code; of Socket.IO and its
  MongoDB adapter \<open>Chat_Network\<close> states what their documentation says: \<open>socket.emit\<close> reaches one
  socket, the two broadcasts reach the sockets of their own backend at once and, through the
  collection that all backends follow, those of the others, in the order of the collection. Events
  may enter the collection in any order, any time later or never. Of \<open>loadMetrics.js\<close> the histogram is V8's. Doubles are rationals, except in \<open>trim_at\<close>, where their rounding shows and is written out: the cap
  times 1.1. \<open>toLowerCase\<close> is that of ASCII, which is all that reaches it.
  A setting of \<open>FEED_MAX_ENTRIES\<close> that is not a positive whole number is left out of \<open>start\<close>. Logging
  and the texts of error messages are not values of the model.
\<close>

end
